(* ===== verification/Prelude.thy ===== *)
theory Prelude
  imports Main "HOL-Library.Word" "HOL-Library.Multiset"
begin

text \<open>
  Shared vocabulary of the development: the C integer types the code uses, faults of the C
  abstract machine as values, sequencing of operations that may fault, the lemmas on words and
  lists the components share, and two locales: machines with an invariant, which the client, the memory server
  and the tests with threads interpret, and machines whose agents are isolated, which the server and the flushing threads interpret.
\<close>

unbundle bit_operations_syntax

named_theorems client_defs \<open>definitions of the client's operations\<close>
named_theorems server_defs \<open>definitions of the memory server's operations\<close>
named_theorems frame \<open>fields an operation leaves alone\<close>

type_synonym u8 = "8 word"
type_synonym u16 = "16 word"
type_synonym u32 = "32 word"
type_synonym u64 = "64 word"

section \<open>Faults and sequencing\<close>

text \<open>
  What can stop a piece of C code short of returning: a null pointer or an index outside an
  array is dereferenced, freed memory or a variable never set is used, a signed number overflows, a \<^verbatim>\<open>BUG_ON\<close> or an assertion fires, the thread waits for something that never comes,
  or user-level code calls \<^verbatim>\<open>exit\<close> through \<^verbatim>\<open>die\<close>.
\<close>

datatype fault = NullDeref | OutOfBounds | UseAfterFree | Uninitialised | SignedOverflow | BugOn | Blocked | Exit string

type_synonym 'a res = "fault + 'a"

definition res_bind :: "'a res \<Rightarrow> ('a \<Rightarrow> 'b res) \<Rightarrow> 'b res" where
  "res_bind m f = (case m of Inl e \<Rightarrow> Inl e | Inr x \<Rightarrow> f x)"

lemma res_bind_simps [simp]:
  "res_bind (Inl e) f = Inl e"
  "res_bind (Inr x) f = f x"
  by (simp_all add: res_bind_def)

lemma res_bind_Inr_iff: "res_bind m f = Inr y \<longleftrightarrow> (\<exists>x. m = Inr x \<and> f x = Inr y)"
  by (cases m) auto

lemma res_bind_assoc: "res_bind (res_bind m f) g = res_bind m (\<lambda>x. res_bind (f x) g)"
  by (cases m) auto

lemma res_bind_cong: "m = m' \<Longrightarrow> (\<And>x. m' = Inr x \<Longrightarrow> f x = g x) \<Longrightarrow> res_bind m f = res_bind m' g"
  by (cases m') auto

lemma res_bind_if: "res_bind (if b then m else m') f = (if b then res_bind m f else res_bind m' f)"
  by simp

text \<open>A pointer dereference: the fault of a null pointer, or the object.\<close>

definition deref :: "'a option \<Rightarrow> 'a res" where
  "deref p = (case p of None \<Rightarrow> Inl NullDeref | Some x \<Rightarrow> Inr x)"

lemma deref_simps [simp]: "deref None = Inl NullDeref" "deref (Some x) = Inr x"
  by (simp_all add: deref_def)

lemma deref_Inr_iff: "deref p = Inr x \<longleftrightarrow> p = Some x"
  by (cases p) auto

text \<open>An array read, with the fault the C code would meet past the end of the array.\<close>

definition array_get :: "'a list \<Rightarrow> nat \<Rightarrow> 'a res" where
  "array_get xs i = (if i < length xs then Inr (xs ! i) else Inl OutOfBounds)"

lemma array_get_in [simp]: "i < length xs \<Longrightarrow> array_get xs i = Inr (xs ! i)"
  by (simp add: array_get_def)

lemma array_get_out [simp]: "length xs \<le> i \<Longrightarrow> array_get xs i = Inl OutOfBounds"
  by (simp add: array_get_def)

lemma array_get_Inr_iff: "array_get xs i = Inr x \<longleftrightarrow> i < length xs \<and> xs ! i = x"
  by (auto simp: array_get_def)

lemmas res_inversion = res_bind_Inr_iff deref_Inr_iff array_get_Inr_iff

section \<open>Lists\<close>

text \<open>A C string: the characters before the first null.\<close>

definition c_string :: "string \<Rightarrow> string" where
  "c_string = takeWhile (\<lambda>c. c \<noteq> CHR 0x00)"

lemma fold_list_update_same:
  assumes "n \<le> length xs"
  shows "fold (\<lambda>i ys. ys[i := c]) [0..<n] xs = replicate n c @ drop n xs"
  using assms
proof (induction n)
  case 0
  then show ?case by simp
next
  case (Suc n)
  then have "drop n xs = xs ! n # drop (Suc n) xs"
    by (simp add: Cons_nth_drop_Suc)
  with Suc show ?case
    by (simp add: list_update_append replicate_append_same flip: replicate_Suc)
qed

lemma fold_list_update_all: "fold (\<lambda>i ys. ys[i := c]) [0..<length xs] xs = replicate (length xs) c"
  by (simp add: fold_list_update_same)

lemma nth_update_if: "j < length xs \<Longrightarrow> xs[i := x] ! j = (if i = j then x else xs ! j)"
  by (cases "i = j") simp_all

lemma length_filter_update:
  assumes "i < length xs"
  shows "length (filter P (xs[i := y])) + (if P (xs ! i) then 1 else 0)
       = length (filter P xs) + (if P y then 1 else 0)"
  using assms
proof (induction xs arbitrary: i)
  case Nil
  then show ?case by simp
next
  case (Cons x xs)
  show ?case
  proof (cases i)
    case 0
    then show ?thesis by simp
  next
    case (Suc j)
    with Cons.prems have "j < length xs" by simp
    from Cons.IH [OF this] show ?thesis by (simp add: Suc)
  qed
qed

section \<open>Words\<close>

lemma unat_bound: "unat (a :: 'a::len word) < 2 ^ LENGTH('a)"
  by (rule unsigned_less)

lemma bit_unat: "bit (unat (a :: 'a::len word)) n \<longleftrightarrow> bit a n"
  by (simp add: bit_unsigned_iff)

lemma unat_drop_bit: "unat (drop_bit n (a :: 'a::len word)) = unat a div 2 ^ n"
  unfolding unat_drop_bit_eq by (rule drop_bit_eq_div)

lemma unat_and_mask: "unat ((a :: 'a::len word) AND mask n) = unat a mod 2 ^ n"
  unfolding take_bit_eq_mask [symmetric] unsigned_take_bit_eq by (rule take_bit_eq_mod)

lemma unat_add_no_overflow:
  "unat (a :: 'a::len word) + unat b < 2 ^ LENGTH('a) \<Longrightarrow> unat (a + b) = unat a + unat b"
  by (simp add: unat_word_ariths)

lemma unat_push_bit_no_overflow:
  "unat (a :: 'a::len word) * 2 ^ n < 2 ^ LENGTH('a) \<Longrightarrow> unat (push_bit n a) = unat a * 2 ^ n"
  by (subst unsigned_push_bit_eq) (simp add: push_bit_eq_mult take_bit_eq_mod)

section \<open>Machines with an invariant\<close>

text \<open>
  A component that serves one event after another. What it keeps across every event holds in
  every state it can reach, whatever the order of the events.
\<close>

locale invariant_machine =
  fixes start :: "'s \<Rightarrow> bool"
    and handle :: "'e \<Rightarrow> 's \<Rightarrow> 's res"
    and inv :: "'s \<Rightarrow> bool"
  assumes inv_start: "start s \<Longrightarrow> inv s"
    and inv_handle: "inv s \<Longrightarrow> handle e s = Inr s' \<Longrightarrow> inv s'"
begin

fun run :: "'e list \<Rightarrow> 's \<Rightarrow> 's res" where
  "run [] s = Inr s"
| "run (e # es) s = res_bind (handle e s) (run es)"

lemma run_append: "run (es @ fs) s = res_bind (run es s) (run fs)"
  by (induction es arbitrary: s) (simp_all add: res_bind_assoc cong: res_bind_cong)

lemma inv_run: "inv s \<Longrightarrow> run es s = Inr s' \<Longrightarrow> inv s'"
proof (induction es arbitrary: s)
  case Nil
  then show ?case by simp
next
  case (Cons e es)
  then show ?case by (auto simp: res_bind_Inr_iff dest: inv_handle)
qed

lemma inv_reachable: "start s \<Longrightarrow> run es s = Inr s' \<Longrightarrow> inv s'"
  by (blast intro: inv_run inv_start)

end

section \<open>Machines whose agents are isolated\<close>

text \<open>
  Every event has its agents, and an agent that is none of them holds afterwards what it held before. So what an agent
  holds depends on nothing that happens between two of its own events.
\<close>

locale isolated_machine = invariant_machine start handle inv
  for start :: "'s \<Rightarrow> bool" and handle :: "'e \<Rightarrow> 's \<Rightarrow> 's res" and inv :: "'s \<Rightarrow> bool" +
  fixes actors :: "'e \<Rightarrow> 'a set"
    and holds :: "'a \<Rightarrow> 'x \<Rightarrow> 's \<Rightarrow> bool"
  assumes handle_keeps: "inv s \<Longrightarrow> handle e s = Inr s' \<Longrightarrow> a \<notin> actors e \<Longrightarrow> holds a x s' = holds a x s"
begin

lemma run_keeps:
  "inv s \<Longrightarrow> run es s = Inr s' \<Longrightarrow> \<forall>e \<in> set es. a \<notin> actors e \<Longrightarrow> holds a x s' = holds a x s"
proof (induction es arbitrary: s)
  case Nil
  then show ?case by simp
next
  case (Cons e es)
  then obtain s1 where s1: "handle e s = Inr s1" "run es s1 = Inr s'" by (auto simp: res_bind_Inr_iff)
  have "holds a x s1 = holds a x s" by (rule handle_keeps [OF Cons.prems(1) s1(1)]) (use Cons.prems(3) in simp)
  moreover have "holds a x s' = holds a x s1" using Cons s1 by (intro Cons.IH) (auto intro: inv_handle)
  ultimately show ?case by simp
qed

lemma held_until_acts:
  assumes "start s" and "run es s = Inr t" and "run fs t = Inr u" and "\<forall>e \<in> set fs. a \<notin> actors e"
  shows "holds a x u = holds a x t"
  using run_keeps [OF inv_reachable [OF assms(1,2)] assms(3,4)] .

end

end
