(* ===== verification/Log2.thy ===== *)
theory Log2
  imports Prelude
begin

text \<open>
  The two computations of a base-2 logarithm in \<^verbatim>\<open>c-test/bit_operations/log_function.c\<close>: the
  shift loop \<^verbatim>\<open>power_of_2\<close> and the macro \<^verbatim>\<open>ilog2\<close> copied from the kernel, which the client's
  header uses for its shift amounts. Both are shown to compute the same floor of the logarithm.
\<close>

section \<open>The shift loop\<close>

lemma half_smaller: "drop_bit 1 num \<noteq> 0 \<Longrightarrow> unat (drop_bit 1 num) < unat (num :: u64)"
proof -
  assume "drop_bit 1 num \<noteq> 0"
  then have "unat (drop_bit 1 num) > 0" by (simp add: unat_gt_0)
  then show ?thesis by (simp add: unat_drop_bit)
qed

text \<open>\<^verbatim>\<open>while ((num = (num >> 1)) != 0) power++;\<close>\<close>

function power_of_2_loop :: "u64 \<Rightarrow> u64 \<Rightarrow> u64" where
  "power_of_2_loop num pow =
     (let num' = drop_bit 1 num in if num' \<noteq> 0 then power_of_2_loop num' (pow + 1) else pow)"
  by pat_completeness auto

termination
  by (relation "measure (\<lambda>(num, pow). unat num)") (use half_smaller in auto)

declare power_of_2_loop.simps [simp del]

definition power_of_2 :: "u64 \<Rightarrow> u64" where
  "power_of_2 num = power_of_2_loop num 0"

section \<open>The macro\<close>

text \<open>
  The macro is a chain of conditionals that tests bit 63, then bit 62, down to bit 2, and
  answers 1 when none of them is set; numbers below 2 are answered 0 before the chain.
\<close>

definition ilog2_bits :: "nat list" where
  "ilog2_bits = rev [2..<64]"

definition ilog2 :: "u64 \<Rightarrow> nat" where
  "ilog2 n =
     (if n < 2 then 0
      else case find (\<lambda>k. n AND push_bit k 1 \<noteq> 0) ilog2_bits of Some k \<Rightarrow> k | None \<Rightarrow> 1)"

section \<open>Both compute the logarithm\<close>

definition floor_log2 :: "nat \<Rightarrow> nat \<Rightarrow> bool" where
  "floor_log2 n k \<longleftrightarrow> 2 ^ k \<le> n \<and> n < 2 ^ Suc k"

lemma floor_log2_le:
  assumes "floor_log2 n j" and "floor_log2 n k"
  shows "j \<le> k"
proof -
  from assms have "(2::nat) ^ j < 2 ^ Suc k"
    unfolding floor_log2_def by linarith
  then have "j < Suc k"
    by (rule power_less_imp_less_exp [rotated]) simp
  then show ?thesis by simp
qed

lemma floor_log2_unique: "floor_log2 n j \<Longrightarrow> floor_log2 n k \<Longrightarrow> j = k"
  by (meson floor_log2_le le_antisym)

lemma floor_log2_half: "1 < n \<Longrightarrow> floor_log2 (n div 2) k \<Longrightarrow> floor_log2 n (Suc k)"
  unfolding floor_log2_def by auto

lemma floor_log2_bound: "floor_log2 (unat (n :: u64)) k \<Longrightarrow> k < 64"
proof -
  assume "floor_log2 (unat n) k"
  then have "(2::nat) ^ k \<le> unat n" by (simp add: floor_log2_def)
  also have "unat n < 2 ^ 64" using unat_bound [of n] by simp
  finally have "(2::nat) ^ k < 2 ^ 64" .
  then show ?thesis by (rule power_less_imp_less_exp [rotated]) simp
qed

lemma floor_log2_exists: "0 < n \<Longrightarrow> \<exists>k. floor_log2 n k"
proof (induction n rule: less_induct)
  case (less n)
  show ?case
  proof (cases "n = 1")
    case True
    then have "floor_log2 n 0" by (simp add: floor_log2_def)
    then show ?thesis ..
  next
    case False
    with less.prems have "1 < n" by simp
    then obtain k where "floor_log2 (n div 2) k"
      using less.IH [of "n div 2"] by auto
    with \<open>1 < n\<close> have "floor_log2 n (Suc k)" by (rule floor_log2_half)
    then show ?thesis ..
  qed
qed

lemma power_of_2_loop_eq:
  "floor_log2 (unat num) k \<Longrightarrow> power_of_2_loop num pow = pow + of_nat k"
proof (induction k arbitrary: num pow)
  case 0
  then have "unat num = 1" by (auto simp: floor_log2_def)
  then have "unat (drop_bit 1 num) = 0" by (simp add: unat_drop_bit)
  then have "drop_bit 1 num = 0" by (simp add: unat_eq_0)
  then show ?case by (simp add: power_of_2_loop.simps [of num])
next
  case (Suc k)
  then have half: "floor_log2 (unat (drop_bit 1 num)) k"
    by (auto simp: floor_log2_def unat_drop_bit)
  then have "0 < unat (drop_bit 1 num)"
    using floor_log2_def by (cases "unat (drop_bit 1 num)") auto
  then have "drop_bit 1 num \<noteq> 0" by auto
  then have "power_of_2_loop num pow = power_of_2_loop (drop_bit 1 num) (pow + 1)"
    by (simp add: power_of_2_loop.simps [of num])
  also have "\<dots> = pow + 1 + of_nat k" using half by (rule Suc.IH)
  finally show ?case by simp
qed

text \<open>The bit a set test of the macro looks at, as an order on numbers.\<close>

lemma and_bit_zero_iff: "n AND 2 ^ k = 0 \<longleftrightarrow> \<not> bit (n :: u64) k"
  by (rule and_exp_eq_0_iff_not_bit)

lemma bit_at_floor_log2: "floor_log2 (unat (n :: u64)) k \<Longrightarrow> bit n k"
proof -
  assume log: "floor_log2 (unat n) k"
  then have "unat n div 2 ^ k = 1"
    by (auto simp: floor_log2_def intro!: div_nat_eqI)
  then have "odd (unat n div 2 ^ k)" by simp
  then have "bit (unat n) k" by (simp add: bit_iff_odd)
  then show "bit n k" by (simp add: bit_unat)
qed

lemma no_bit_above_floor_log2: "floor_log2 (unat (n :: u64)) k \<Longrightarrow> k < j \<Longrightarrow> \<not> bit n j"
proof -
  assume log: "floor_log2 (unat n) k" and "k < j"
  then have "(2::nat) ^ Suc k \<le> 2 ^ j" by (intro power_increasing) auto
  with log have "unat n div 2 ^ j = 0" by (simp add: floor_log2_def)
  then have "\<not> bit (unat n) j" by (simp add: bit_iff_odd)
  then show "\<not> bit n j" by (simp add: bit_unat)
qed

lemma find_descending:
  "P k \<Longrightarrow> lo \<le> k \<Longrightarrow> k < hi \<Longrightarrow> (\<And>j. k < j \<Longrightarrow> \<not> P j) \<Longrightarrow> find P (rev [lo..<hi]) = Some k"
  by (induction hi) (auto simp: less_Suc_eq)

lemma find_top_bit:
  assumes log: "floor_log2 (unat (n :: u64)) k" and "2 \<le> k"
  shows "find (\<lambda>k. n AND push_bit k 1 \<noteq> 0) ilog2_bits = Some k"
  unfolding ilog2_bits_def
proof (rule find_descending)
  show "n AND push_bit k 1 \<noteq> 0"
    using bit_at_floor_log2 [OF log] by (simp add: and_bit_zero_iff)
  show "\<not> n AND push_bit j 1 \<noteq> 0" if "k < j" for j
    using no_bit_above_floor_log2 [OF log that] by (simp add: and_bit_zero_iff)
qed (use \<open>2 \<le> k\<close> floor_log2_bound [OF log] in auto)

lemma ilog2_eq:
  assumes log: "floor_log2 (unat (n :: u64)) k"
  shows "ilog2 n = k"
proof (cases "n < 2")
  case True
  then have "unat n < 2" by (simp add: word_less_nat_alt)
  then have "unat n < 2 ^ 1" by simp
  with log have "(2::nat) ^ k < 2 ^ 1" unfolding floor_log2_def by linarith
  then have "k < 1" by (rule power_less_imp_less_exp [rotated]) simp
  then have "k = 0" by simp
  with True show ?thesis by (simp add: ilog2_def)
next
  case False
  then have two: "2 \<le> unat n" by (simp add: word_less_nat_alt not_less)
  show ?thesis
  proof (cases "2 \<le> k")
    case True
    from find_top_bit [OF log True] False show ?thesis by (simp add: ilog2_def)
  next
    case k: False
    with log two have "k = 1" by (cases k) (auto simp: floor_log2_def)
    have "\<not> bit n j" if "j \<in> set ilog2_bits" for j
    proof -
      from that have "2 \<le> j" by (simp only: ilog2_bits_def set_rev set_upt) simp
      with \<open>k = 1\<close> show ?thesis using no_bit_above_floor_log2 [OF log, of j] by simp
    qed
    then have "find (\<lambda>k. n AND push_bit k 1 \<noteq> 0) ilog2_bits = None"
      by (simp add: find_None_iff and_bit_zero_iff)
    with False \<open>k = 1\<close> show ?thesis by (simp add: ilog2_def)
  qed
qed

text \<open>
  C34. On every non-zero 64-bit number the shift loop and the cascade of bit tests compute the same
  value, the position of the highest set bit.
\<close>

theorem power_of_2_is_ilog2:
  fixes n :: u64
  assumes "n \<noteq> 0"
  shows "power_of_2 n = of_nat (ilog2 n) \<and> floor_log2 (unat n) (ilog2 n)"
proof -
  from assms have "0 < unat n" by (simp add: unat_gt_0)
  then obtain k where k: "floor_log2 (unat n) k" using floor_log2_exists by blast
  then show ?thesis
    by (simp add: power_of_2_def power_of_2_loop_eq [OF k] ilog2_eq [OF k])
qed

theorem power_of_2_is_ilog2_witness:
  "power_of_2 4096 = of_nat (ilog2 4096) \<and> floor_log2 4096 (ilog2 4096)"
  using power_of_2_is_ilog2 [of 4096] by simp

end
