(* ===== verification/Wire.thy ===== *)
theory Wire
  imports Prelude
begin

text \<open>
  What crosses the network between the client and the memory server: the message structure both
  sides declare, the codes of its kinds on either side, and the byte-order conversions the
  server applies before sending and the client undoes after receiving. The contract between the
  two conversions is the locale \<open>byte_order\<close>, interpreted for the 32-bit and the 64-bit pair.
\<close>

section \<open>Byte order\<close>

text \<open>
  The library functions \<^verbatim>\<open>htonl\<close> and \<^verbatim>\<open>ntohl\<close> on a little-endian host: the four bytes are
  reversed.
\<close>

definition swab32 :: "u32 \<Rightarrow> u32" where
  "swab32 x = push_bit 24 (x AND 0xFF) OR push_bit 8 (x AND 0xFF00)
     OR (drop_bit 8 x AND 0xFF00) OR (drop_bit 24 x AND 0xFF)"

definition htonl :: "u32 \<Rightarrow> u32" where
  "htonl = swab32"

definition ntohl :: "u32 \<Rightarrow> u32" where
  "ntohl = swab32"

text \<open>The client's macro: swap the low word into the high half and the high word into the low.\<close>

definition ntohll :: "u64 \<Rightarrow> u64" where
  "ntohll x = push_bit 32 (ucast (ntohl (ucast (drop_bit 32 (push_bit 32 x)))))
     OR ucast (ntohl (ucast (drop_bit 32 x)))"

text \<open>The server's function, on the little-endian branch of its run-time test.\<close>

definition htonll :: "u64 \<Rightarrow> u64" where
  "htonll v = push_bit 32 (ucast (htonl (ucast (v AND 0xFFFFFFFF))))
     OR ucast (htonl (ucast (drop_bit 32 v)))"

lemma byte_masks: "(0xFF :: u32) = mask 8" "(0xFF00 :: u32) = push_bit 8 (mask 8)"
  by (simp_all add: mask_eq_exp_minus_1 push_bit_eq_mult)

lemma bit_swab32: "bit (swab32 x) n \<longleftrightarrow> n < 32 \<and> bit x (8 * (3 - n div 8) + n mod 8)"
proof -
  consider "n < 8" | "8 \<le> n" "n < 16" | "16 \<le> n" "n < 24" | "24 \<le> n" "n < 32" | "32 \<le> n"
    by linarith
  then show ?thesis
  proof cases
    case 1
    then have "n div 8 = 0" by simp
    with 1 show ?thesis by (auto simp: swab32_def byte_masks bit_simps add.commute)
  next
    case 2
    then have "n div 8 = 1" "n mod 8 = n - 8" by presburger+
    with 2 show ?thesis by (auto simp: swab32_def byte_masks bit_simps add.commute)
  next
    case 3
    then have "n div 8 = 2" "n mod 8 = n - 16" by presburger+
    with 3 show ?thesis by (auto simp: swab32_def byte_masks bit_simps add.commute)
  next
    case 4
    then have "n div 8 = 3" "n mod 8 = n - 24" by presburger+
    with 4 show ?thesis by (auto simp: swab32_def byte_masks bit_simps add.commute)
  next
    case 5
    then show ?thesis by (auto simp: bit_simps dest: bit_imp_le_length)
  qed
qed

lemma swab32_swab32: "swab32 (swab32 x) = x"
proof (rule bit_word_eqI)
  fix n assume "n < LENGTH(32)"
  then have n: "n < 32" by simp
  define q r where "q = n div 8" and "r = n mod 8"
  have r: "r < 8" and q: "q \<le> 3" and nq: "n = 8 * q + r"
    using n by (auto simp: q_def r_def)
  have "8 * (3 - q) + r < 32" using r q by linarith
  moreover have "(8 * (3 - q) + r) div 8 = 3 - q" "(8 * (3 - q) + r) mod 8 = r"
    using r by simp_all
  ultimately show "bit (swab32 (swab32 x)) n = bit x n"
    using n q nq by (simp add: bit_swab32 flip: q_def r_def)
qed

lemma swab32_0 [simp]: "swab32 0 = 0"
  by (simp add: swab32_def)

text \<open>A 64-bit word as its two halves.\<close>

definition join32 :: "u32 \<Rightarrow> u32 \<Rightarrow> u64" where
  "join32 h l = push_bit 32 (ucast h) OR ucast l"

lemma join32_low [simp]: "ucast (join32 h l) = l"
  unfolding join32_def by (rule bit_word_eqI) (auto simp: bit_simps)

lemma join32_high [simp]: "ucast (drop_bit 32 (join32 h l)) = h"
  unfolding join32_def by (rule bit_word_eqI) (auto simp: bit_simps dest: bit_imp_le_length)

lemma join32_halves [simp]: "join32 (ucast (drop_bit 32 x)) (ucast x) = x"
  unfolding join32_def by (rule bit_word_eqI) (auto simp: bit_simps)

lemma low_half_shifts: "(ucast (drop_bit 32 (push_bit 32 (x :: u64))) :: u32) = ucast x"
  by (rule bit_word_eqI) (auto simp: bit_simps)

lemma low_half_mask: "(ucast ((x :: u64) AND 0xFFFFFFFF) :: u32) = ucast x"
proof -
  have m: "(0xFFFFFFFF :: u64) = mask 32" by (simp add: mask_eq_exp_minus_1)
  show ?thesis unfolding m by (rule bit_word_eqI) (auto simp: bit_simps)
qed

lemma ntohll_join32: "ntohll x = join32 (ntohl (ucast x)) (ntohl (ucast (drop_bit 32 x)))"
  unfolding ntohll_def low_half_shifts join32_def ..

lemma htonll_join32: "htonll x = join32 (htonl (ucast x)) (htonl (ucast (drop_bit 32 x)))"
  unfolding htonll_def low_half_mask join32_def ..

text \<open>
  The contract of a pair of conversions: the receiver's undoes the sender's, and zero stays
  zero. Zero matters because the client takes a zero remote key for "no chunk in this slot".
\<close>

locale byte_order =
  fixes enc :: "'a::len word \<Rightarrow> 'a word"
    and dec :: "'a word \<Rightarrow> 'a word"
  assumes dec_enc: "dec (enc x) = x"
    and enc_zero: "enc 0 = 0"
begin

lemma enc_inject: "enc x = enc y \<longleftrightarrow> x = y"
  by (metis dec_enc)

lemma enc_eq_zero_iff: "enc x = 0 \<longleftrightarrow> x = 0"
  using enc_inject [of x 0] by (simp add: enc_zero)

end

interpretation ho32: byte_order htonl ntohl
  by unfold_locales (simp_all add: htonl_def ntohl_def swab32_swab32)

interpretation ho64: byte_order htonll ntohll
  by unfold_locales
    (simp_all add: htonll_join32 ntohll_join32 ho32.dec_enc ho32.enc_zero, simp add: join32_def)

text \<open>
  C32. What the server encodes for the wire with its own functions, the client decodes with its
  macro: both the 32-bit keys and the 64-bit addresses come back unchanged, different values stay
  different on the wire, and only zero is encoded as zero, so that a key of a real chunk never looks
  like an empty slot.
\<close>

theorem byte_order_round_trip:
  "ntohl (htonl k) = k \<and> ntohll (htonll a) = a \<and> (htonl k = htonl k' \<longleftrightarrow> k = k') \<and>
   (htonll a = htonll a' \<longleftrightarrow> a = a') \<and> (htonl k = 0 \<longleftrightarrow> k = 0) \<and> (htonll a = 0 \<longleftrightarrow> a = 0)"
  by (simp add: ho32.dec_enc ho64.dec_enc ho32.enc_inject ho64.enc_inject ho32.enc_eq_zero_iff ho64.enc_eq_zero_iff)

section \<open>Messages\<close>

definition MAX_CHUNKS :: nat where
  "MAX_CHUNKS = 32"

record message =
  msg_buf :: "u64 list"
  msg_rkey :: "u32 list"
  msg_size_gb :: int
  msg_type :: int

definition zero_message :: message where
  "zero_message = \<lparr>msg_buf = replicate MAX_CHUNKS 0, msg_rkey = replicate MAX_CHUNKS 0,
     msg_size_gb = 0, msg_type = 0\<rparr>"

definition wf_message :: "message \<Rightarrow> bool" where
  "wf_message m \<longleftrightarrow> length (msg_buf m) = MAX_CHUNKS \<and> length (msg_rkey m) = MAX_CHUNKS"

lemma wf_zero_message [simp]: "wf_message zero_message"
  by (simp add: wf_message_def zero_message_def)

text \<open>\<^verbatim>\<open>sizeof(struct message)\<close>: 32 addresses of 8 bytes, 32 keys of 4, an int and an enum.\<close>

definition sizeof_message :: u32 where
  "sizeof_message = of_nat (MAX_CHUNKS * 8 + MAX_CHUNKS * 4 + 4 + 4)"

text \<open>The kinds of messages as the client names them, and their numbers on the wire.\<close>

datatype message_type =
    DONE | GOT_CHUNKS | GOT_SINGLE_CHUNK | FREE_SIZE | EVICT | ACTIVITY | STOP
  | REQUEST_CHUNKS | REQUEST_SINGLE_CHUNK | QUERY

fun message_type_code :: "message_type \<Rightarrow> int" where
  "message_type_code DONE = 1"
| "message_type_code GOT_CHUNKS = 2"
| "message_type_code GOT_SINGLE_CHUNK = 3"
| "message_type_code FREE_SIZE = 4"
| "message_type_code EVICT = 5"
| "message_type_code ACTIVITY = 6"
| "message_type_code STOP = 7"
| "message_type_code REQUEST_CHUNKS = 8"
| "message_type_code REQUEST_SINGLE_CHUNK = 9"
| "message_type_code QUERY = 10"

text \<open>The same kinds as the server names them.\<close>

datatype server_message_type =
    S_DONE | SEND_CHUNKS | SEND_SINGLE_CHUNK | S_FREE_SIZE | S_EVICT | S_ACTIVITY | S_STOP
  | S_REQUEST_CHUNKS | S_REQUEST_SINGLE_CHUNK | S_QUERY

fun server_message_type_code :: "server_message_type \<Rightarrow> int" where
  "server_message_type_code S_DONE = 1"
| "server_message_type_code SEND_CHUNKS = 2"
| "server_message_type_code SEND_SINGLE_CHUNK = 3"
| "server_message_type_code S_FREE_SIZE = 4"
| "server_message_type_code S_EVICT = 5"
| "server_message_type_code S_ACTIVITY = 6"
| "server_message_type_code S_STOP = 7"
| "server_message_type_code S_REQUEST_CHUNKS = 8"
| "server_message_type_code S_REQUEST_SINGLE_CHUNK = 9"
| "server_message_type_code S_QUERY = 10"

lemma message_type_code_inject: "message_type_code s = message_type_code t \<longleftrightarrow> s = t"
  by (cases s; cases t) simp_all

end
