(* ===== verification/C_Layout.thy ===== *)
theory C_Layout
  imports Wire
begin

text \<open>
  How C and C++ place the fields of a structure in memory, for the structures that cross a border: the message, which four programs
  declare on their own and send as raw bytes (\<^verbatim>\<open>octopus_client.h\<close>, the header of the first client, \<^verbatim>\<open>rdma-common.h\<close> of the memory server,
  the probe of the memory server), and the classes and structures of the layout experiments in \<^verbatim>\<open>src/c-test\<close>. The rules are those of the
  64-bit ABI: every field at the next multiple of its alignment, the size a multiple of the greatest alignment.
\<close>

section \<open>Types, sizes, offsets\<close>

text \<open>A number or pointer of so many bytes, an array, a structure or class with its fields in order.\<close>

datatype ctype = Prim nat | Array nat ctype | Class "ctype list"

definition align_up :: "nat \<Rightarrow> nat \<Rightarrow> nat" where
  "align_up n a = (n + a - 1) div a * a"

fun calign :: "ctype \<Rightarrow> nat" where
  "calign (Prim n) = n"
| "calign (Array n t) = calign t"
| "calign (Class fs) = foldr (\<lambda>f a. max (calign f) a) fs 1"

fun csize :: "ctype \<Rightarrow> nat" where
  "csize (Prim n) = n"
| "csize (Array n t) = n * csize t"
| "csize (Class fs) = align_up (fold (\<lambda>f off. align_up off (calign f) + csize f) fs 0) (calign (Class fs))"

fun offsets_from :: "nat \<Rightarrow> ctype list \<Rightarrow> nat list" where
  "offsets_from off [] = []"
| "offsets_from off (f # fs) = align_up off (calign f) # offsets_from (align_up off (calign f) + csize f) fs"

definition offsetof :: "ctype list \<Rightarrow> nat \<Rightarrow> nat" where
  "offsetof fs k = offsets_from 0 fs ! k"

abbreviation c_int :: ctype where "c_int \<equiv> Prim 4"
abbreviation c_double :: ctype where "c_double \<equiv> Prim 8"
abbreviation c_pointer :: ctype where "c_pointer \<equiv> Prim 8"

section \<open>Fields are aligned, disjoint and inside\<close>

fun proper :: "ctype \<Rightarrow> bool" where
  "proper (Prim n) \<longleftrightarrow> 0 < n"
| "proper (Array n t) \<longleftrightarrow> proper t"
| "proper (Class fs) \<longleftrightarrow> (\<forall>f \<in> set fs. proper f)"

lemma calign_pos: "proper t \<Longrightarrow> 0 < calign t"
proof (induction t)
  case (Class fs)
  have "1 \<le> foldr (\<lambda>f a. max (calign f) a) fs 1" by (induction fs) (auto intro: le_max_iff_disj [THEN iffD2])
  then show ?case by simp
qed auto

lemma align_up_ge: "0 < a \<Longrightarrow> n \<le> align_up n a"
proof -
  assume "0 < a"
  then have "(n + a - 1) mod a < a" by simp
  moreover have "(n + a - 1) div a * a + (n + a - 1) mod a = n + a - 1" by (rule div_mult_mod_eq)
  ultimately show ?thesis unfolding align_up_def by linarith
qed

lemma align_up_dvd: "a dvd align_up n a"
  by (simp add: align_up_def)

text \<open>Where the fields end.\<close>

definition fields_end :: "nat \<Rightarrow> ctype list \<Rightarrow> nat" where
  "fields_end off fs = fold (\<lambda>f off. align_up off (calign f) + csize f) fs off"

lemma length_offsets [simp]: "length (offsets_from off fs) = length fs"
  by (induction off fs rule: offsets_from.induct) simp_all

lemma fields_end_ge: "\<forall>f \<in> set fs. proper f \<Longrightarrow> off \<le> fields_end off fs"
proof (induction fs arbitrary: off)
  case Nil
  then show ?case by (simp add: fields_end_def)
next
  case (Cons f fs)
  have "off \<le> align_up off (calign f) + csize f" using align_up_ge [OF calign_pos, of f off] Cons.prems by simp
  also have "\<dots> \<le> fields_end (align_up off (calign f) + csize f) fs" using Cons by simp
  finally show ?case by (simp add: fields_end_def)
qed

lemma offsets_layout:
  assumes "\<forall>f \<in> set fs. proper f" "k < length fs"
  shows "off \<le> offsets_from off fs ! k \<and> calign (fs ! k) dvd offsets_from off fs ! k \<and>
    offsets_from off fs ! k + csize (fs ! k) \<le> fields_end off fs \<and>
    (\<forall>j < k. offsets_from off fs ! j + csize (fs ! j) \<le> offsets_from off fs ! k)"
  using assms
proof (induction fs arbitrary: k off)
  case Nil
  then show ?case by simp
next
  case (Cons f fs)
  let ?o = "align_up off (calign f)"
  have o: "off \<le> ?o" using align_up_ge [OF calign_pos] Cons.prems(1) by simp
  have end': "fields_end off (f # fs) = fields_end (?o + csize f) fs" by (simp add: fields_end_def)
  show ?case
  proof (cases k)
    case 0
    then show ?thesis using o fields_end_ge [of fs "?o + csize f"] Cons.prems(1) end' by (simp add: align_up_dvd)
  next
    case (Suc k')
    with Cons.prems have k': "k' < length fs" by simp
    note IH = Cons.IH [OF _ k', of "?o + csize f"]
    have "offsets_from off (f # fs) ! j + csize ((f # fs) ! j) \<le> offsets_from (?o + csize f) fs ! k'" if "j < Suc k'" for j
      using IH Cons.prems(1) that by (cases j) auto
    then show ?thesis using IH Cons.prems(1) o end' Suc by auto
  qed
qed

text \<open>The contract of a layout: every field is aligned, inside the structure and behind the fields before it.\<close>

lemma class_layout:
  assumes "proper (Class fs)" "k < length fs"
  shows "calign (fs ! k) dvd offsetof fs k" "offsetof fs k + csize (fs ! k) \<le> csize (Class fs)"
    "j < k \<Longrightarrow> offsetof fs j + csize (fs ! j) \<le> offsetof fs k"
proof -
  have "fields_end 0 fs \<le> csize (Class fs)" using align_up_ge [OF calign_pos [OF assms(1)]] by (simp add: fields_end_def)
  then show "calign (fs ! k) dvd offsetof fs k" "offsetof fs k + csize (fs ! k) \<le> csize (Class fs)"
    "j < k \<Longrightarrow> offsetof fs j + csize (fs ! j) \<le> offsetof fs k"
    using offsets_layout [of fs k 0] assms by (auto simp: offsetof_def)
qed

section \<open>Storing and loading fields\<close>

definition put_bytes :: "nat \<Rightarrow> u8 list \<Rightarrow> u8 list \<Rightarrow> u8 list" where
  "put_bytes off bs img = take off img @ bs @ drop (off + length bs) img"

definition get_bytes :: "nat \<Rightarrow> nat \<Rightarrow> u8 list \<Rightarrow> u8 list" where
  "get_bytes off n img = take n (drop off img)"

text \<open>The image of a structure in memory, with its fields stored one after the other, and one field of an image.\<close>

definition store_fields :: "ctype list \<Rightarrow> u8 list list \<Rightarrow> u8 list \<Rightarrow> u8 list" where
  "store_fields fs bss img = fold (\<lambda>k. put_bytes (offsetof fs k) (bss ! k)) [0..<length fs] img"

definition load_field :: "ctype list \<Rightarrow> nat \<Rightarrow> u8 list \<Rightarrow> u8 list" where
  "load_field fs k img = get_bytes (offsetof fs k) (csize (fs ! k)) img"

lemma length_put_bytes: "off + length bs \<le> length img \<Longrightarrow> length (put_bytes off bs img) = length img"
  by (simp add: put_bytes_def)

lemma get_put_same: "off + length bs \<le> length img \<Longrightarrow> get_bytes off (length bs) (put_bytes off bs img) = bs"
  by (simp add: get_bytes_def put_bytes_def)

lemma nth_put_bytes:
  "off + length bs \<le> length img \<Longrightarrow> j < length img \<Longrightarrow>
   put_bytes off bs img ! j = (if off \<le> j \<and> j < off + length bs then bs ! (j - off) else img ! j)"
  by (auto simp: put_bytes_def nth_append)

lemma get_put_other:
  assumes "off + length bs \<le> length img" "off' + n \<le> length img" "off + length bs \<le> off' \<or> off' + n \<le> off"
  shows "get_bytes off' n (put_bytes off bs img) = get_bytes off' n img"
  using assms length_put_bytes [OF assms(1)]
  by (intro nth_equalityI) (auto simp: get_bytes_def nth_put_bytes)

lemma load_store_fields:
  assumes "proper (Class fs)" "length bss = length fs" "\<And>k. k < length fs \<Longrightarrow> length (bss ! k) = csize (fs ! k)"
    "length img = csize (Class fs)" "k < length fs"
  shows "load_field fs k (store_fields fs bss img) = bss ! k" and "length (store_fields fs bss img) = csize (Class fs)"
proof -
  have fits: "offsetof fs i + length (bss ! i) \<le> csize (Class fs)" if "i < length fs" for i
    using class_layout(2) [OF assms(1) that] assms(3) [OF that] by simp
  have "length (fold (\<lambda>k. put_bytes (offsetof fs k) (bss ! k)) [0..<n] img) = csize (Class fs) \<and>
      (\<forall>i < n. load_field fs i (fold (\<lambda>k. put_bytes (offsetof fs k) (bss ! k)) [0..<n] img) = bss ! i)" if "n \<le> length fs" for n
    using that
  proof (induction n)
    case 0
    then show ?case using assms(4) by simp
  next
    case (Suc n)
    let ?img = "fold (\<lambda>k. put_bytes (offsetof fs k) (bss ! k)) [0..<n] img"
    have n: "n < length fs" using Suc.prems by simp
    have img: "offsetof fs n + length (bss ! n) \<le> length ?img" using Suc fits [OF n] by simp
    have "load_field fs i (put_bytes (offsetof fs n) (bss ! n) ?img) = bss ! i" if "i < Suc n" for i
    proof (cases "i = n")
      case True
      then show ?thesis unfolding load_field_def True assms(3) [OF n, symmetric] by (simp only: get_put_same [OF img])
    next
      case False
      then have i: "i < n" "i < length fs" using that n by simp_all
      have "load_field fs i (put_bytes (offsetof fs n) (bss ! n) ?img) = load_field fs i ?img"
        unfolding load_field_def using class_layout(3) [OF assms(1) n i(1)] fits [OF i(2)] assms(3) [OF i(2)] Suc n
        by (intro get_put_other img) simp_all
      then show ?thesis using Suc i by simp
    qed
    with Suc length_put_bytes [OF img] show ?case by simp
  qed
  from this [OF order_refl] assms(5)
  show "load_field fs k (store_fields fs bss img) = bss ! k" and "length (store_fields fs bss img) = csize (Class fs)"
    by (auto simp: store_fields_def)
qed

section \<open>Numbers in memory\<close>

primrec le_bytes :: "nat \<Rightarrow> nat \<Rightarrow> u8 list" where
  "le_bytes 0 x = []"
| "le_bytes (Suc n) x = word_of_nat x # le_bytes n (x div 256)"

fun le_value :: "u8 list \<Rightarrow> nat" where
  "le_value [] = 0"
| "le_value (b # bs) = unat b + 256 * le_value bs"

primrec groups :: "nat \<Rightarrow> nat \<Rightarrow> u8 list \<Rightarrow> u8 list list" where
  "groups w 0 bs = []"
| "groups w (Suc n) bs = take w bs # groups w n (drop w bs)"

definition int_bytes :: "int \<Rightarrow> u8 list" where
  "int_bytes x = le_bytes 4 (nat (x mod 2 ^ 32))"

definition int_value :: "u8 list \<Rightarrow> int" where
  "int_value bs = (let n = int (le_value bs) in if n < 2 ^ 31 then n else n - 2 ^ 32)"

lemma length_le_bytes [simp]: "length (le_bytes n x) = n"
  by (induction n arbitrary: x) simp_all

lemma le_value_bytes: "le_value (le_bytes n x) = x mod 256 ^ n"
proof (induction n arbitrary: x)
  case 0
  then show ?case by simp
next
  case (Suc n)
  have "unat (word_of_nat x :: u8) = x mod 256" by (simp add: unsigned_of_nat take_bit_eq_mod)
  with Suc show ?case by (simp add: mod_mult2_eq)
qed

lemma le_value_word: "le_value (le_bytes n (unat x)) = unat (x :: 'a::len word)" if "256 ^ n = (2 ^ LENGTH('a) :: nat)"
  using that unat_bound [of x] by (simp add: le_value_bytes)

lemma int_value_bytes: "- (2 ^ 31) \<le> x \<Longrightarrow> x < 2 ^ 31 \<Longrightarrow> int_value (int_bytes x) = x"
proof -
  assume "- (2 ^ 31) \<le> x" "x < 2 ^ 31"
  moreover have "int (le_value (int_bytes x)) = x mod 2 ^ 32" by (simp add: int_bytes_def le_value_bytes zmod_int)
  moreover have "x mod 2 ^ 32 = (if 0 \<le> x then x else x + 2 ^ 32)" if "- (2 ^ 31) \<le> x" "x < 2 ^ 31"
    using that mod_add_self2 [of x "2 ^ 32"] mod_pos_pos_trivial [of "x + 2 ^ 32" "2 ^ 32"] by simp
  ultimately show ?thesis by (simp add: int_value_def Let_def)
qed

lemma groups_concat: "\<forall>b \<in> set bss. length b = w \<Longrightarrow> groups w (length bss) (concat bss) = bss"
  by (induction bss) simp_all

section \<open>The message of the memory server and its clients\<close>

text \<open>The structure as the client declares it, as its first version, the memory server and the probe do.\<close>

definition octopus_message :: "ctype list" where
  "octopus_message = [Array (32 div 1) (Prim 8), Array (32 div 1) (Prim 4), c_int, c_int]"

definition early_message :: "ctype list" where
  "early_message = [Array (32 div 1) (Prim 8), Array (32 div 1) (Prim 4), c_int, c_int]"

definition server_message :: "ctype list" where
  "server_message = [Array 32 (Prim 8), Array 32 (Prim 4), c_int, c_int]"

definition probe_message :: "ctype list" where
  "probe_message = [Array 32 (Prim 8), Array 32 (Prim 4), c_int, c_int]"

definition message_bytes :: "message \<Rightarrow> u8 list list" where
  "message_bytes m =
     [concat (map (\<lambda>x. le_bytes 8 (unat x)) (msg_buf m)), concat (map (\<lambda>x. le_bytes 4 (unat x)) (msg_rkey m)),
      int_bytes (msg_size_gb m), int_bytes (msg_type m)]"

text \<open>What one program stores into the buffer it sends, and what another reads from the buffer it received.\<close>

definition message_image :: "ctype list \<Rightarrow> message \<Rightarrow> u8 list \<Rightarrow> u8 list" where
  "message_image fs m img = store_fields fs (message_bytes m) img"

definition image_message :: "ctype list \<Rightarrow> u8 list \<Rightarrow> message" where
  "image_message fs img =
     \<lparr>msg_buf = map (\<lambda>b. word_of_nat (le_value b)) (groups 8 32 (load_field fs 0 img)),
      msg_rkey = map (\<lambda>b. word_of_nat (le_value b)) (groups 4 32 (load_field fs 1 img)),
      msg_size_gb = int_value (load_field fs 2 img), msg_type = int_value (load_field fs 3 img)\<rparr>"

definition message_layouts :: "ctype list list" where
  "message_layouts = [octopus_message, early_message, server_message, probe_message]"

lemma message_layouts_equal: "fs \<in> set message_layouts \<Longrightarrow> fs = server_message"
  by (auto simp: message_layouts_def octopus_message_def early_message_def server_message_def probe_message_def)

lemma server_message_proper: "proper (Class server_message)" "csize (Class server_message) = 392"
  by (simp_all add: server_message_def align_up_def)

lemma length_concat_le: "length (concat (map (\<lambda>x. le_bytes n (f x)) xs)) = length xs * n"
  by (induction xs) simp_all

lemma message_bytes_fit:
  assumes "wf_message m" "k < length server_message"
  shows "length (message_bytes m ! k) = csize (server_message ! k)"
  using assms by (auto simp: server_message_def message_bytes_def wf_message_def MAX_CHUNKS_def int_bytes_def length_concat_le less_Suc_eq
      nth_Cons' numeral_2_eq_2 numeral_3_eq_3)

lemma words_of_groups:
  assumes "256 ^ n = (2 ^ LENGTH('a::len) :: nat)"
  shows "map (\<lambda>b. word_of_nat (le_value b)) (groups n (length xs) (concat (map (\<lambda>x. le_bytes n (unat x)) xs))) = (xs :: 'a word list)"
proof -
  have "groups n (length xs) (concat (map (\<lambda>x. le_bytes n (unat x)) xs)) = map (\<lambda>x. le_bytes n (unat x)) xs"
    using groups_concat [of "map (\<lambda>x. le_bytes n (unat x)) xs" n] by simp
  then show ?thesis by (simp add: le_value_word [OF assms] o_def)
qed

text \<open>
  C33. The four programs that exchange messages as raw structures agree on every byte: a message that one of them stores field by
  field into its buffer, over whatever was there, is read back unchanged by any other, and the buffers have the size that the
  programs announce and check. This is what the comment of the structure promises, and it needs that the count of chunks is the same constant in each file.
\<close>

theorem message_layouts_agree:
  assumes "from \<in> set message_layouts" and "to \<in> set message_layouts" and "wf_message m"
    and "- (2 ^ 31) \<le> msg_size_gb m" "msg_size_gb m < 2 ^ 31" "- (2 ^ 31) \<le> msg_type m" "msg_type m < 2 ^ 31"
    and "length img = csize (Class from)"
  shows "image_message to (message_image from m img) = m \<and> length (message_image from m img) = unat sizeof_message"
proof -
  let ?fs = server_message
  have img: "length img = csize (Class ?fs)" using assms(8) message_layouts_equal [OF assms(1)] by simp
  have load: "load_field ?fs k (store_fields ?fs (message_bytes m) img) = message_bytes m ! k" if "k < 4" for k
    by (rule load_store_fields(1) [OF server_message_proper(1) _ message_bytes_fit [OF assms(3)] img])
      (use that in \<open>simp_all add: server_message_def message_bytes_def\<close>)
  have "length (store_fields ?fs (message_bytes m) img) = csize (Class ?fs)"
    by (rule load_store_fields(2) [OF server_message_proper(1) _ message_bytes_fit [OF assms(3)] img, of 0])
      (simp_all add: server_message_def message_bytes_def)
  moreover have "message_bytes m ! 0 = concat (map (\<lambda>x. le_bytes 8 (unat x)) (msg_buf m))"
    "message_bytes m ! 1 = concat (map (\<lambda>x. le_bytes 4 (unat x)) (msg_rkey m))"
    "message_bytes m ! 2 = int_bytes (msg_size_gb m)" "message_bytes m ! 3 = int_bytes (msg_type m)"
    by (simp_all add: message_bytes_def)
  then have "image_message ?fs (message_image ?fs m img) = m"
    using assms(3-7) words_of_groups [of 8 "msg_buf m"] words_of_groups [of 4 "msg_rkey m"]
    by (simp add: image_message_def message_image_def load int_value_bytes wf_message_def MAX_CHUNKS_def)
  ultimately show ?thesis
    unfolding message_layouts_equal [OF assms(1)] message_layouts_equal [OF assms(2)] message_image_def
    by (simp add: server_message_proper sizeof_message_def MAX_CHUNKS_def del: csize.simps)
qed

theorem message_layouts_agree_witness:
  "image_message octopus_message (message_image server_message
     (zero_message\<lparr>msg_buf := 0x1122334455667788 # replicate 31 0, msg_size_gb := - 3, msg_type := 4\<rparr>) (replicate 392 7)) =
   zero_message\<lparr>msg_buf := 0x1122334455667788 # replicate 31 0, msg_size_gb := - 3, msg_type := 4\<rparr>"
  using message_layouts_agree [of server_message octopus_message
      "zero_message\<lparr>msg_buf := 0x1122334455667788 # replicate 31 0, msg_size_gb := - 3, msg_type := 4\<rparr>" "replicate 392 7"]
  by (simp add: message_layouts_def wf_message_def zero_message_def MAX_CHUNKS_def server_message_proper(2) del: csize.simps)

section \<open>The layout experiments\<close>

text \<open>The three classes whose sizes and field addresses are printed, at the addresses their objects have.\<close>

definition padding_class :: "ctype list" where "padding_class = [c_int, c_double]"
definition padding_class_2 :: "ctype list" where "padding_class_2 = [c_double, c_int]"
definition no_padding_class :: "ctype list" where "no_padding_class = [c_int, c_int]"

definition show_object :: "ctype list \<Rightarrow> nat \<Rightarrow> nat list" where
  "show_object fs addr = [addr, csize (Class fs)] @ map (\<lambda>off. addr + off) (offsets_from 0 fs)"

definition padding_main :: "nat \<Rightarrow> nat \<Rightarrow> nat \<Rightarrow> nat list list" where
  "padding_main obj_padding obj_padding_2 obj_no_padding =
     [show_object padding_class obj_padding, show_object padding_class_2 obj_padding_2, show_object no_padding_class obj_no_padding]"

text \<open>
  An object inside another and one behind a pointer; both are printed for an object on the heap, where the size printed is
  that of the pointer, and for one on the stack. The two inner objects on the heap are allocated by the constructor.
\<close>

definition inner_class :: "ctype list" where "inner_class = [c_int, c_double]"
definition outside_class :: "ctype list" where "outside_class = [c_double, Class inner_class, c_pointer]"

definition show_outside :: "nat \<Rightarrow> nat \<Rightarrow> nat \<Rightarrow> nat list" where
  "show_outside addr printed_size inner =
     [addr, printed_size, addr + offsetof outside_class 1, csize (outside_class ! 1), inner, csize (outside_class ! 2)]"

definition instance_addr_main :: "nat \<Rightarrow> nat \<Rightarrow> nat \<Rightarrow> nat \<Rightarrow> nat list list" where
  "instance_addr_main heap_obj heap_inner stack_obj stack_inner =
     [show_outside heap_obj (csize c_pointer) heap_inner, show_outside stack_obj (csize (Class outside_class)) stack_inner]"

text \<open>The offsets by way of the null pointer, and the access through it at the end.\<close>

definition test_struct :: "ctype list" where "test_struct = [c_int, c_pointer, c_pointer]"

definition field_offset_main :: "nat list \<times> int res" where
  "field_offset_main = ([0, offsetof test_struct 0, offsetof test_struct 1, offsetof test_struct 2], Inl NullDeref)"

text \<open>
  Bit fields: a field that would cross a unit of its type starts the next one. The size is that of the units used.
\<close>

fun bit_end :: "nat \<Rightarrow> nat \<Rightarrow> nat list \<Rightarrow> nat" where
  "bit_end unit_bits off [] = off"
| "bit_end unit_bits off (w # ws) =
     (let start = (if off div unit_bits = (off + w - 1) div unit_bits then off else align_up off unit_bits)
      in bit_end unit_bits (start + w) ws)"

definition bit_fields_size :: "nat \<Rightarrow> nat list \<Rightarrow> nat" where
  "bit_fields_size unit_bytes ws = align_up (bit_end (8 * unit_bytes) 0 ws) (8 * unit_bytes) div 8"

definition bit_field_main :: "nat list" where
  "bit_field_main = [bit_fields_size 2 [3, 4], bit_fields_size 2 [3, 14], bit_fields_size 4 [3, 4]]"

lemma bit_field_sizes: "bit_field_main = [2, 4, 4]"
  by (simp add: bit_field_main_def bit_fields_size_def align_up_def)

text \<open>
  The class whose comment says that it has no padding is as large as the one that has: the size is a multiple of the alignment, so four
  bytes follow its last field.
\<close>

lemma both_orders_are_padded:
  "padding_main p q r = [[p, 16, p, p + 8], [q, 16, q, q + 8], [r, 8, r, r + 4]]"
  by (simp add: padding_main_def show_object_def padding_class_def padding_class_2_def no_padding_class_def align_up_def)

lemma inner_object_is_inside:
  "instance_addr_main p pi q qi = [[p, 8, p + 8, 16, pi, 8], [q, 32, q + 8, 16, qi, 8]]" "fst field_offset_main = [0, 0, 8, 16]"
  by (simp_all add: instance_addr_main_def show_outside_def outside_class_def inner_class_def offsetof_def align_up_def field_offset_main_def
      test_struct_def numeral_2_eq_2)

text \<open>
  In every structure of the development's programs, and in any other, each field is at a multiple of its alignment, starts behind all
  the fields before it, and ends inside the structure; so what is stored into one field is not changed by a store into another.
\<close>

theorem fields_never_overlap:
  assumes "proper (Class fs)" and "k < length fs" and "j < length fs" and "j \<noteq> k"
    and "length bs = csize (fs ! k)" and "length img = csize (Class fs)"
  shows "calign (fs ! k) dvd offsetof fs k \<and>
    (offsetof fs j + csize (fs ! j) \<le> offsetof fs k \<or> offsetof fs k + csize (fs ! k) \<le> offsetof fs j) \<and>
    load_field fs k (put_bytes (offsetof fs k) bs img) = bs \<and>
    load_field fs j (put_bytes (offsetof fs k) bs img) = load_field fs j img"
proof -
  note lk = class_layout [OF assms(1,2)] and lj = class_layout [OF assms(1,3)]
  have apart: "offsetof fs j + csize (fs ! j) \<le> offsetof fs k \<or> offsetof fs k + csize (fs ! k) \<le> offsetof fs j"
    using lk(3) [of j] lj(3) [of k] assms(4) by (meson linorder_neqE_nat)
  have "load_field fs k (put_bytes (offsetof fs k) bs img) = bs"
    using get_put_same [of "offsetof fs k" bs img] lk(2) assms(5,6) by (simp add: load_field_def)
  moreover have "load_field fs j (put_bytes (offsetof fs k) bs img) = load_field fs j img"
    unfolding load_field_def by (rule get_put_other) (use apart lk(2) lj(2) assms(5,6) in auto)
  ultimately show ?thesis using lk(1) apart by simp
qed

theorem fields_never_overlap_witness:
  "calign (Class inner_class) dvd offsetof outside_class 1 \<and> load_field outside_class 2 (put_bytes (offsetof outside_class 1) (replicate 16 9) (replicate 32 1)) =
     load_field outside_class 2 (replicate 32 1)"
  using fields_never_overlap [of outside_class 1 2 "replicate 16 9" "replicate 32 1"]
  by (simp add: outside_class_def inner_class_def align_up_def numeral_2_eq_2)

end
