(* ===== verification/Client_Types.thy ===== *)
theory Client_Types
  imports Wire Log2
begin

text \<open>
  The data of the client (\<^verbatim>\<open>octopus_client.h\<close>): its constants and enumerations, its structures as
  records, and the kernel it runs in. Kernel and driver functions are not part of the
  repository. Each call to one is a value of \<open>kcall\<close>; what it returns is a parameter (the
  field \<open>k_ret\<close> of \<open>kernel\<close>, which may depend on every call made before), and the calls made are
  kept in order in the field \<open>calls\<close> of the client. A pointer to a kernel object is the integer
  that was returned for it, zero being the null pointer and small negative numbers the error
  pointers.
\<close>

section \<open>Constants\<close>

definition RMEM_PHY_SECT_SIZE :: u64 where "RMEM_PHY_SECT_SIZE = 512"
definition RMEM_LOGICAL_SECT_SIZE :: u64 where "RMEM_LOGICAL_SECT_SIZE = 512"
definition RMEM_QUEUE_DEPTH :: u32 where "RMEM_QUEUE_DEPTH = 16"
definition RMEM_QUEUE_MAX_SECT_SIZE :: nat where "RMEM_QUEUE_MAX_SECT_SIZE = 1024"
definition DEVICE_NAME_LEN :: nat where "DEVICE_NAME_LEN = 32"
definition CHUNK_SIZE_GB :: u64 where "CHUNK_SIZE_GB = 1"
definition MAX_REMOTE_MEMORY_SIZE_GB :: u64 where "MAX_REMOTE_MEMORY_SIZE_GB = 32"
definition RDMA_READ_WRITE_QUEUE_DEPTH :: int where "RDMA_READ_WRITE_QUEUE_DEPTH = 16"
definition MAX_REQUEST_SGL :: nat where "MAX_REQUEST_SGL = 64"
definition GB_SHIFT :: nat where "GB_SHIFT = 30"

definition CHUNK_SHIFT :: nat where
  "CHUNK_SHIFT = GB_SHIFT + ilog2 CHUNK_SIZE_GB"

definition CHUNK_MASK :: u64 where
  "CHUNK_MASK = push_bit CHUNK_SHIFT 1 - 1"

definition RMEM_LOGICAL_SECT_SHIFT :: nat where
  "RMEM_LOGICAL_SECT_SHIFT = ilog2 RMEM_LOGICAL_SECT_SIZE"

text \<open>\<^verbatim>\<open>ONE_GB\<close> is the unbracketed product \<^verbatim>\<open>1024*1024*1024\<close>; division and product associate to the left.\<close>

definition RMEM_SIZE_IN_PHY_SECT :: u64 where
  "RMEM_SIZE_IN_PHY_SECT = 1024 * 1024 * 1024 div RMEM_PHY_SECT_SIZE * MAX_REMOTE_MEMORY_SIZE_GB"

text \<open>The page size of the architecture, a constant of the kernel.\<close>

definition PAGE_SIZE :: u64 where "PAGE_SIZE = 4096"

lemma CHUNK_SHIFT_eq [simp]: "CHUNK_SHIFT = 30"
proof -
  have "floor_log2 (unat (1 :: u64)) 0" by (simp add: floor_log2_def)
  from ilog2_eq [OF this] show ?thesis by (simp add: CHUNK_SHIFT_def GB_SHIFT_def CHUNK_SIZE_GB_def)
qed

lemma RMEM_LOGICAL_SECT_SHIFT_eq [simp]: "RMEM_LOGICAL_SECT_SHIFT = 9"
proof -
  have "floor_log2 (unat (512 :: u64)) 9" by (simp add: floor_log2_def)
  from ilog2_eq [OF this] show ?thesis
    by (simp add: RMEM_LOGICAL_SECT_SHIFT_def RMEM_LOGICAL_SECT_SIZE_def)
qed

lemma CHUNK_MASK_eq: "CHUNK_MASK = mask 30"
  by (simp add: CHUNK_MASK_def mask_eq_exp_minus_1 push_bit_eq_mult)

section \<open>Enumerations\<close>

datatype rdma_session_context_state =
    IDLE | CONNECT_REQUEST | ADDR_RESOLVED | ROUTE_RESOLVED | CONNECTED
  | FREE_MEM_RECV | RECEIVED_CHUNKS | RDMA_BUF_ADV | WAIT_OPS | RECV_STOP
  | RECV_EVICT | RDMA_WRITE_RUNNING | RDMA_READ_RUNNING | SEND_DONE | RDMA_DONE
  | RDMA_READ_ADV | RDMA_WRITE_ADV | CM_DISCONNECT | ERROR | TEST_DONE

fun session_state_code :: "rdma_session_context_state \<Rightarrow> int" where
  "session_state_code IDLE = 1"
| "session_state_code CONNECT_REQUEST = 2"
| "session_state_code ADDR_RESOLVED = 3"
| "session_state_code ROUTE_RESOLVED = 4"
| "session_state_code CONNECTED = 5"
| "session_state_code FREE_MEM_RECV = 6"
| "session_state_code RECEIVED_CHUNKS = 7"
| "session_state_code RDMA_BUF_ADV = 8"
| "session_state_code WAIT_OPS = 9"
| "session_state_code RECV_STOP = 10"
| "session_state_code RECV_EVICT = 11"
| "session_state_code RDMA_WRITE_RUNNING = 12"
| "session_state_code RDMA_READ_RUNNING = 13"
| "session_state_code SEND_DONE = 14"
| "session_state_code RDMA_DONE = 15"
| "session_state_code RDMA_READ_ADV = 16"
| "session_state_code RDMA_WRITE_ADV = 17"
| "session_state_code CM_DISCONNECT = 18"
| "session_state_code ERROR = 19"
| "session_state_code TEST_DONE = 20"

lemma session_state_code_inject: "session_state_code s = session_state_code t \<Longrightarrow> s = t"
  by (cases s; cases t) simp_all

text \<open>The code compares states by their numbers: a linear order.\<close>

instantiation rdma_session_context_state :: linorder
begin

definition less_eq_rdma_session_context_state ::
    "rdma_session_context_state \<Rightarrow> rdma_session_context_state \<Rightarrow> bool" where
  "less_eq_rdma_session_context_state s t \<longleftrightarrow> session_state_code s \<le> session_state_code t"

definition less_rdma_session_context_state ::
    "rdma_session_context_state \<Rightarrow> rdma_session_context_state \<Rightarrow> bool" where
  "less_rdma_session_context_state s t \<longleftrightarrow> session_state_code s < session_state_code t"

instance
  by standard
    (auto simp: less_eq_rdma_session_context_state_def less_rdma_session_context_state_def
      intro: session_state_code_inject)

end

lemmas session_state_order =
  less_eq_rdma_session_context_state_def less_rdma_session_context_state_def

datatype mem_type = MEM_NONE | DMA | FASTREG | MW | MR

datatype chunk_mapping_state = EMPTY | MAPPED

section \<open>Block-layer and verbs objects the code reads\<close>

type_synonym page = "u8 list"

record bio =
  bi_phys_segments :: u32
  bi_pages :: "page list"

record request =
  rq_tag :: int
  rq_write :: bool
  rq_pos :: u64
  rq_bytes :: u32
  rq_nr_phys_segments :: u16
  rq_bios :: "bio list"
  rq_errors :: int

datatype ib_wr_opcode = IB_WR_RDMA_WRITE | IB_WR_SEND | IB_WR_RDMA_READ

datatype sg_ptr = SG_NULL | SG_RECV | SG_SEND | SG_CMD

record ib_sge =
  sge_addr :: u64
  sge_length :: u32
  sge_lkey :: u32

text \<open>A command's address: the index of its queue and its index in the queue's list.\<close>

type_synonym cmd_addr = "nat \<times> nat"

record ib_wr =
  wr_id :: "cmd_addr option"
  wr_opcode :: ib_wr_opcode
  wr_signaled :: bool
  wr_sg_list :: sg_ptr
  wr_num_sge :: int

record ib_rdma_wr =
  rdma_wr :: ib_wr
  wr_remote_addr :: u64
  wr_rkey :: u32

definition zero_sge :: ib_sge where
  "zero_sge = \<lparr>sge_addr = 0, sge_length = 0, sge_lkey = 0\<rparr>"

definition zero_wr :: ib_wr where
  "zero_wr = \<lparr>wr_id = None, wr_opcode = IB_WR_RDMA_WRITE, wr_signaled = False,
     wr_sg_list = SG_NULL, wr_num_sge = 0\<rparr>"

section \<open>The client's structures\<close>

record remote_mapping_chunk =
  remote_rkey :: u32
  remote_addr :: u64
  chunk_state :: chunk_mapping_state

record remote_mapping_chunk_list =
  remote_chunk :: "remote_mapping_chunk list option"
  remote_free_size_gb :: u32
  chunk_num :: u32
  chunk_ptr :: u32

record rmem_rdma_command =
  rdma_sq_wr :: ib_rdma_wr
  rdma_sgl :: ib_sge
  rdma_buf :: "page list option"
  rdma_dma_addr :: u64
  io_rq :: "request option"
  free_state :: int

record rmem_rdma_queue =
  rmem_rdma_cmd_list :: "rmem_rdma_command list option"
  rdma_queue_depth :: u32
  cmd_ptr :: u32
  q_index :: u32
  q_session :: bool

record rdma_session_context =
  cm_id :: int
  cq :: int
  pd :: int
  qp :: int
  port :: u16
  addr :: "u8 list"
  addr_type :: int
  txdepth :: int
  state :: rdma_session_context_state
  freed :: u8
  rq_wr :: ib_wr
  recv_sgl :: ib_sge
  recv_buf :: "message option"
  recv_dma_addr :: u64
  sq_wr :: ib_wr
  send_sgl :: ib_sge
  send_buf :: "message option"
  send_dma_addr :: u64
  dma_mr :: int
  mem :: mem_type
  rmem_rdma_queue_list :: "rmem_rdma_queue list option"
  remote_chunk_list :: remote_mapping_chunk_list
  rmem_dev_ctrl :: bool

record blk_mq_tag_set =
  ts_ops :: bool
  ts_nr_hw_queues :: u32
  ts_queue_depth :: u32
  ts_driver_data :: bool

record rmem_device_control =
  major :: int
  disk :: int
  queue :: int
  tag_set :: blk_mq_tag_set
  queue_depth :: u32
  nr_queues :: u32
  dev_name :: string
  dev_freed :: u8
  rdma_session :: bool

section \<open>The kernel\<close>

datatype kobj = SessionObj | RecvBuf | SendBuf | QueueList | CmdList nat | CmdBuf nat nat | ChunkArray

datatype kcall =
    RdmaCreateId | RdmaResolveAddr | RdmaResolveRoute | RdmaConnect | RdmaDisconnect | RdmaDestroyId
  | IbAllocPd | IbCreateCq int | RdmaCreateQp int int | IbDmaMapSingle kobj | GetDmaMr | IbDeregMr
  | IbDestroyQp | IbDestroyCq | IbDeallocPd
  | IbReqNotifyCq | IbPostRecv | IbPostSend message | IbPostRdma ib_rdma_wr ib_sge
  | Kzalloc kobj | Kfree kobj | WakeUp | In4Pton string | NumOnlineCpus | HrtimerInit
  | GetCpu | PutCpu | BlkMqStartRequest int | BlkMqEndRequest int int | BlkMqCompleteRequest int int
  | RegisterBlkdev string | UnregisterBlkdev int string
  | BlkMqAllocTagSet blk_mq_tag_set | BlkMqFreeTagSet | BlkMqInitQueue | BlkCleanupQueue int
  | BlkQueueLogicalBlockSize u64 | BlkQueuePhysicalBlockSize u64 | BlkQueueMaxHwSectors nat
  | AllocDiskNode | SetCapacity u64 | AddDisk string | DelGendisk int | PutDisk int

text \<open>
  The parameters: the results of calls, the fields of verbs objects the code reads, the value an uninitialised
  \<^verbatim>\<open>int\<close> happens to have, what other contexts do to a command queue while its lock is released,
  and how many rounds of the spinning search are observed.
\<close>

record kernel =
  k_ret :: "kcall list \<Rightarrow> kcall \<Rightarrow> int"
  k_local_dma_lkey :: u32
  k_mr_lkey :: "int \<Rightarrow> u32"
  k_in4_addr :: "u8 list"
  k_cm_qp :: int
  k_undef :: int
  k_others :: "nat \<Rightarrow> rmem_rdma_queue \<Rightarrow> rmem_rdma_queue"
  k_rounds :: nat

record client =
  session :: rdma_session_context
  dev :: rmem_device_control
  online_cores :: int
  rmem_major_num :: int
  rmda_ops_count :: u64
  cq_notify_count :: u64
  cq_get_count :: u64
  calls :: "kcall list"
  sem_woken :: bool

definition call :: "kernel \<Rightarrow> kcall \<Rightarrow> client \<Rightarrow> int \<times> client" where
  "call K c w = (k_ret K (calls w) c, w\<lparr>calls := calls w @ [c]\<rparr>)"

definition call_void :: "kcall \<Rightarrow> client \<Rightarrow> client" where
  "call_void c w = w\<lparr>calls := calls w @ [c]\<rparr>"

definition IS_ERR :: "int \<Rightarrow> bool" where
  "IS_ERR p \<longleftrightarrow> - 4095 \<le> p \<and> p < 0"

definition upd_session :: "(rdma_session_context \<Rightarrow> rdma_session_context) \<Rightarrow> client \<Rightarrow> client" where
  "upd_session f w = w\<lparr>session := f (session w)\<rparr>"

definition wake_up_interruptible :: "client \<Rightarrow> client" where
  "wake_up_interruptible w = (call_void WakeUp w)\<lparr>sem_woken := True\<rparr>"

lemma call_void_simps [simp]:
  "session (call_void c w) = session w" "dev (call_void c w) = dev w"
  "online_cores (call_void c w) = online_cores w"
  "rmem_major_num (call_void c w) = rmem_major_num w"
  "calls (call_void c w) = calls w @ [c]" "sem_woken (call_void c w) = sem_woken w"
  by (simp_all add: call_void_def)

lemma upd_session_simps [simp]:
  "session (upd_session f w) = f (session w)" "dev (upd_session f w) = dev w"
  "online_cores (upd_session f w) = online_cores w"
  "rmem_major_num (upd_session f w) = rmem_major_num w"
  "calls (upd_session f w) = calls w" "sem_woken (upd_session f w) = sem_woken w"
  by (simp_all add: upd_session_def)

lemma wake_up_simps [simp]:
  "session (wake_up_interruptible w) = session w" "dev (wake_up_interruptible w) = dev w"
  "online_cores (wake_up_interruptible w) = online_cores w"
  "calls (wake_up_interruptible w) = calls w @ [WakeUp]" "sem_woken (wake_up_interruptible w)"
  by (simp_all add: wake_up_interruptible_def call_void_def)

text \<open>
  The module's globals before it is loaded: static storage, all zero. A zero session state is
  none of the enumeration's values; the code sets \<^verbatim>\<open>IDLE\<close> before it reads the state.
\<close>

definition zero_chunk_list :: remote_mapping_chunk_list where
  "zero_chunk_list = \<lparr>remote_chunk = None, remote_free_size_gb = 0, chunk_num = 0, chunk_ptr = 0\<rparr>"

definition rdma_session_global :: rdma_session_context where
  "rdma_session_global = \<lparr>cm_id = 0, cq = 0, pd = 0, qp = 0, port = 0, addr = [], addr_type = 0,
     txdepth = 0, state = IDLE, freed = 0, rq_wr = zero_wr, recv_sgl = zero_sge, recv_buf = None,
     recv_dma_addr = 0, sq_wr = zero_wr, send_sgl = zero_sge, send_buf = None, send_dma_addr = 0,
     dma_mr = 0, mem = MEM_NONE, rmem_rdma_queue_list = None, remote_chunk_list = zero_chunk_list,
     rmem_dev_ctrl = False\<rparr>"

definition rmem_dev_ctrl_global :: rmem_device_control where
  "rmem_dev_ctrl_global = \<lparr>major = 0, disk = 0, queue = 0,
     tag_set = \<lparr>ts_ops = False, ts_nr_hw_queues = 0, ts_queue_depth = 0, ts_driver_data = False\<rparr>,
     queue_depth = 0, nr_queues = 0, dev_name = replicate DEVICE_NAME_LEN (CHR 0x00), dev_freed = 0, rdma_session = False\<rparr>"

definition unloaded :: client where
  "unloaded = \<lparr>session = rdma_session_global, dev = rmem_dev_ctrl_global, online_cores = 0,
     rmem_major_num = 0, rmda_ops_count = 0, cq_notify_count = 0, cq_get_count = 0, calls = [],
     sem_woken = False\<rparr>"

end
