(* ===== verification/Client_Chunks.thy ===== *)
theory Client_Chunks
  imports Client_Types
begin

text \<open>
  Chunk management of the client (\<^verbatim>\<open>rdma_client.c\<close>, \<^verbatim>\<open>init_remote_chunk_list\<close> and
  \<^verbatim>\<open>bind_remote_memory_chunks\<close>): the table of the server's chunks, allocated when the server
  reports its free size and filled from the messages that carry chunk addresses and keys. The
  table always holds a mapped prefix followed by empty slots, and binding a message appends, in
  order, the chunks the message carries.
\<close>

section \<open>Operations\<close>

definition empty_chunk :: remote_mapping_chunk where
  "empty_chunk = \<lparr>remote_rkey = 0, remote_addr = 0, chunk_state = EMPTY\<rparr>"

definition clear_chunks :: "nat \<Rightarrow> remote_mapping_chunk list option \<Rightarrow> remote_mapping_chunk list option res" where
  "clear_chunks n cs =
     (if n = 0 then Inr cs
      else res_bind (deref cs) (\<lambda>xs. Inr (Some (fold (\<lambda>i ys. ys[i := empty_chunk]) [0..<n] xs))))"

definition init_remote_chunk_list :: "kernel \<Rightarrow> client \<Rightarrow> (int \<times> client) res" where
  "init_remote_chunk_list K w =
     (let tmp_chunk_num = remote_free_size_gb (remote_chunk_list (session w)) div ucast CHUNK_SIZE_GB;
          (p, w) = call K (Kzalloc ChunkArray) w;
          cs = (if p = 0 then None else Some (replicate (unat tmp_chunk_num) empty_chunk))
      in res_bind (clear_chunks (unat tmp_chunk_num) cs)
           (\<lambda>cs. Inr (0, upd_session (\<lambda>s. s\<lparr>remote_chunk_list := (remote_chunk_list s)
              \<lparr>chunk_ptr := 0, chunk_num := tmp_chunk_num, remote_chunk := cs\<rparr>\<rparr>) w)))"

fun bind_loop :: "message option \<Rightarrow> nat list \<Rightarrow> remote_mapping_chunk_list \<Rightarrow> remote_mapping_chunk_list res" where
  "bind_loop m [] l = Inr l"
| "bind_loop m (i # is) l =
     (if chunk_num l \<le> chunk_ptr l then Inr l
      else res_bind (deref m) (\<lambda>msg.
        if msg_rkey msg ! i \<noteq> 0
        then res_bind (deref (remote_chunk l)) (\<lambda>cs.
               res_bind (array_get cs (unat (chunk_ptr l))) (\<lambda>_.
                 bind_loop m is (l\<lparr>remote_chunk := Some (cs[unat (chunk_ptr l) :=
                     \<lparr>remote_rkey = ntohl (msg_rkey msg ! i),
                      remote_addr = ntohll (msg_buf msg ! i),
                      chunk_state = MAPPED\<rparr>]),
                   chunk_ptr := chunk_ptr l + 1\<rparr>)))
        else bind_loop m is l))"

definition bind_remote_memory_chunks :: "client \<Rightarrow> client res" where
  "bind_remote_memory_chunks w =
     res_bind (bind_loop (recv_buf (session w)) [0..<MAX_CHUNKS] (remote_chunk_list (session w)))
       (\<lambda>l. Inr (upd_session (\<lambda>s. s\<lparr>remote_chunk_list := l\<lparr>chunk_num := chunk_ptr l\<rparr>\<rparr>) w))"

section \<open>The table's invariant and its contents\<close>

definition wf_chunks :: "remote_mapping_chunk_list \<Rightarrow> bool" where
  "wf_chunks l \<longleftrightarrow> chunk_ptr l \<le> chunk_num l \<and>
     (case remote_chunk l of
        None \<Rightarrow> chunk_num l = 0
      | Some cs \<Rightarrow> unat (chunk_num l) \<le> length cs \<and>
          (\<forall>i < length cs. chunk_state (cs ! i) = (if i < unat (chunk_ptr l) then MAPPED else EMPTY)))"

definition mapped_chunks :: "remote_mapping_chunk_list \<Rightarrow> (u32 \<times> u64) list" where
  "mapped_chunks l =
     (case remote_chunk l of
        None \<Rightarrow> []
      | Some cs \<Rightarrow> map (\<lambda>c. (remote_rkey c, remote_addr c)) (take (unat (chunk_ptr l)) cs))"

text \<open>What a message offers: the slots with a non-zero key, in host byte order.\<close>

definition offered :: "message \<Rightarrow> nat list \<Rightarrow> (u32 \<times> u64) list" where
  "offered m is = map (\<lambda>i. (ntohl (msg_rkey m ! i), ntohll (msg_buf m ! i)))
                      (filter (\<lambda>i. msg_rkey m ! i \<noteq> 0) is)"

definition room :: "remote_mapping_chunk_list \<Rightarrow> nat" where
  "room l = unat (chunk_num l) - unat (chunk_ptr l)"

lemma offered_Nil [simp]: "offered m [] = []"
  by (simp add: offered_def)

lemma offered_Cons [simp]:
  "offered m (i # is) =
     (if msg_rkey m ! i \<noteq> 0 then [(ntohl (msg_rkey m ! i), ntohll (msg_buf m ! i))] else []) @ offered m is"
  by (simp add: offered_def)

lemma wf_zero_chunk_list: "wf_chunks zero_chunk_list"
  by (simp add: wf_chunks_def zero_chunk_list_def)

lemma clear_chunks_zeroed:
  "clear_chunks n (Some (replicate n empty_chunk)) = Inr (Some (replicate n empty_chunk))"
  using fold_list_update_all [of empty_chunk "replicate n empty_chunk"]
  by (simp add: clear_chunks_def)

lemma room_zero_iff: "wf_chunks l \<Longrightarrow> room l = 0 \<longleftrightarrow> chunk_num l \<le> chunk_ptr l"
  by (auto simp: wf_chunks_def room_def word_le_nat_alt)

text \<open>One chunk is bound into the first empty slot.\<close>

definition bind_one :: "u32 \<times> u64 \<Rightarrow> remote_mapping_chunk_list \<Rightarrow> remote_mapping_chunk_list" where
  "bind_one ra l = l\<lparr>remote_chunk := Some ((the (remote_chunk l))[unat (chunk_ptr l) :=
       \<lparr>remote_rkey = fst ra, remote_addr = snd ra, chunk_state = MAPPED\<rparr>]),
     chunk_ptr := chunk_ptr l + 1\<rparr>"

lemma bind_one_props:
  assumes wf: "wf_chunks l" and room: "chunk_ptr l < chunk_num l"
  shows "wf_chunks (bind_one ra l)"
    and "mapped_chunks (bind_one ra l) = mapped_chunks l @ [ra]"
    and "room l = Suc (room (bind_one ra l))"
    and "chunk_num (bind_one ra l) = chunk_num l"
    and "\<exists>cs. remote_chunk l = Some cs \<and> unat (chunk_ptr l) < length cs"
proof -
  from room have lt: "unat (chunk_ptr l) < unat (chunk_num l)" by (simp add: word_less_nat_alt)
  have "unat (chunk_num l) < 2 ^ 32" using unat_bound [of "chunk_num l"] by simp
  with lt have ptr: "unat (chunk_ptr l + 1) = Suc (unat (chunk_ptr l))"
    by (subst unat_add_no_overflow) simp_all
  from wf lt obtain cs where cs: "remote_chunk l = Some cs" and len: "unat (chunk_num l) \<le> length cs"
    by (auto simp: wf_chunks_def split: option.splits)
  with lt show "\<exists>cs. remote_chunk l = Some cs \<and> unat (chunk_ptr l) < length cs" by auto
  show "wf_chunks (bind_one ra l)"
    using wf lt ptr cs by (auto simp: wf_chunks_def bind_one_def word_le_nat_alt nth_list_update)
  show "mapped_chunks (bind_one ra l) = mapped_chunks l @ [ra]"
    using lt len by (simp add: mapped_chunks_def bind_one_def cs ptr take_Suc_conv_app_nth)
  show "room l = Suc (room (bind_one ra l))"
    using lt by (simp add: room_def bind_one_def ptr)
  show "chunk_num (bind_one ra l) = chunk_num l"
    by (simp add: bind_one_def)
qed

text \<open>The loop: it never faults on a well-formed table, and appends what fits.\<close>

lemma bind_loop_spec:
  assumes "wf_chunks l"
  shows "\<exists>l'. bind_loop (Some m) is l = Inr l' \<and> wf_chunks l' \<and> chunk_num l' = chunk_num l \<and>
           remote_free_size_gb l' = remote_free_size_gb l \<and>
           mapped_chunks l' = mapped_chunks l @ take (room l) (offered m is)"
  using assms
proof (induction "is" arbitrary: l)
  case Nil
  then show ?case by simp
next
  case (Cons i "is")
  show ?case
  proof (cases "chunk_ptr l < chunk_num l")
    case False
    with Cons.prems have "room l = 0" by (simp add: room_zero_iff not_less)
    with False Cons.prems show ?thesis by (simp add: not_less)
  next
    case True
    then have nle: "\<not> chunk_num l \<le> chunk_ptr l" by simp
    show ?thesis
    proof (cases "msg_rkey m ! i = 0")
      case zero: True
      with nle Cons.IH [OF Cons.prems] show ?thesis by simp
    next
      case False
      let ?ra = "(ntohl (msg_rkey m ! i), ntohll (msg_buf m ! i))"
      note one = bind_one_props(1-4) [OF Cons.prems True, of ?ra]
      from bind_one_props(5) [OF Cons.prems True] obtain cs where cs: "remote_chunk l = Some cs" "unat (chunk_ptr l) < length cs"
        by blast
      with nle False have "bind_loop (Some m) (i # is) l = bind_loop (Some m) is (bind_one ?ra l)"
        by (simp add: bind_one_def)
      with Cons.IH [OF one(1)] one False show ?thesis
        by (auto simp: bind_one_def)
    qed
  qed
qed

lemma bind_spec:
  assumes "wf_chunks (remote_chunk_list (session w))" and "recv_buf (session w) = Some m"
  shows "\<exists>w'. bind_remote_memory_chunks w = Inr w' \<and>
           wf_chunks (remote_chunk_list (session w')) \<and>
           mapped_chunks (remote_chunk_list (session w')) =
             mapped_chunks (remote_chunk_list (session w)) @
               take (room (remote_chunk_list (session w))) (offered m [0..<MAX_CHUNKS]) \<and>
           chunk_num (remote_chunk_list (session w')) = chunk_ptr (remote_chunk_list (session w'))"
proof -
  obtain l' where l': "bind_loop (Some m) [0..<MAX_CHUNKS] (remote_chunk_list (session w)) = Inr l'"
      "wf_chunks l'" "mapped_chunks l' = mapped_chunks (remote_chunk_list (session w)) @
        take (room (remote_chunk_list (session w))) (offered m [0..<MAX_CHUNKS])"
    using bind_loop_spec [OF assms(1), of m "[0..<MAX_CHUNKS]"] by blast
  from l'(2) have "wf_chunks (l'\<lparr>chunk_num := chunk_ptr l'\<rparr>)"
    by (auto simp: wf_chunks_def word_le_nat_alt unat_eq_0 split: option.splits)
  with l' assms(2) show ?thesis
    by (auto simp: bind_remote_memory_chunks_def mapped_chunks_def split: option.splits)
qed

lemma bind_frame:
  assumes "bind_remote_memory_chunks w = Inr w'"
  shows "\<exists>l. w' = upd_session (\<lambda>s. s\<lparr>remote_chunk_list := l\<rparr>) w"
  using assms by (auto simp: bind_remote_memory_chunks_def res_inversion)

lemma take_room_after_bind: "chunk_num l = chunk_ptr l \<Longrightarrow> room l = 0"
  by (simp add: room_def)

section \<open>Properties\<close>

text \<open>
  When the server has reported \<open>n\<close> free gigabytes and the allocation succeeds, the client
  gets an empty table of exactly \<open>n\<close> slots, whatever it held before.
\<close>

theorem init_remote_chunk_list_empty_table:
  assumes "k_ret K (calls w) (Kzalloc ChunkArray) \<noteq> 0"
  shows "\<exists>w'. init_remote_chunk_list K w = Inr (0, w') \<and>
           wf_chunks (remote_chunk_list (session w')) \<and>
           mapped_chunks (remote_chunk_list (session w')) = [] \<and>
           room (remote_chunk_list (session w')) = unat (remote_free_size_gb (remote_chunk_list (session w)))"
  using assms clear_chunks_zeroed
  by (auto simp: init_remote_chunk_list_def call_def CHUNK_SIZE_GB_def wf_chunks_def mapped_chunks_def
      room_def empty_chunk_def Let_def)

theorem init_remote_chunk_list_empty_table_witness:
  "\<exists>w'. init_remote_chunk_list \<lparr>k_ret = (\<lambda>_ _. 1), k_local_dma_lkey = 0, k_mr_lkey = (\<lambda>_. 0),
        k_in4_addr = [], k_cm_qp = 0, k_undef = 0, k_others = (\<lambda>_ q. q), k_rounds = 0\<rparr> unloaded = Inr (0, w') \<and>
      wf_chunks (remote_chunk_list (session w')) \<and>
      mapped_chunks (remote_chunk_list (session w')) = [] \<and>
      room (remote_chunk_list (session w')) = 0"
  using init_remote_chunk_list_empty_table [of "\<lparr>k_ret = (\<lambda>_ _. 1), k_local_dma_lkey = 0,
      k_mr_lkey = (\<lambda>_. 0), k_in4_addr = [], k_cm_qp = 0, k_undef = 0, k_others = (\<lambda>_ q. q), k_rounds = 0\<rparr>" unloaded]
  by (simp add: unloaded_def rdma_session_global_def zero_chunk_list_def)

text \<open>
  C8. Binding a received message into a well-formed table never faults, keeps the table
  well-formed, and appends to the mapped chunks, in slot order and in host byte order, exactly
  the chunks of the message with a non-zero key, up to the room the table has.
\<close>

theorem bind_appends_offered_chunks:
  assumes "wf_chunks (remote_chunk_list (session w))" and "recv_buf (session w) = Some m"
  shows "\<exists>w'. bind_remote_memory_chunks w = Inr w' \<and>
           wf_chunks (remote_chunk_list (session w')) \<and>
           mapped_chunks (remote_chunk_list (session w')) =
             mapped_chunks (remote_chunk_list (session w)) @
               take (room (remote_chunk_list (session w))) (offered m [0..<MAX_CHUNKS])"
  using bind_spec [OF assms] by blast

theorem bind_appends_offered_chunks_witness:
  "\<exists>w'. bind_remote_memory_chunks (unloaded\<lparr>session := rdma_session_global\<lparr>recv_buf := Some zero_message,
        remote_chunk_list := \<lparr>remote_chunk = Some [empty_chunk], remote_free_size_gb = 1,
          chunk_num = 1, chunk_ptr = 0\<rparr>\<rparr>\<rparr>) = Inr w' \<and>
      wf_chunks (remote_chunk_list (session w')) \<and>
      mapped_chunks (remote_chunk_list (session w')) = take 1 (offered zero_message [0..<MAX_CHUNKS])"
  using bind_appends_offered_chunks [of "unloaded\<lparr>session := rdma_session_global\<lparr>recv_buf := Some zero_message,
        remote_chunk_list := \<lparr>remote_chunk = Some [empty_chunk], remote_free_size_gb = 1,
          chunk_num = 1, chunk_ptr = 0\<rparr>\<rparr>\<rparr>" zero_message]
  by (simp add: wf_chunks_def mapped_chunks_def room_def empty_chunk_def)

text \<open>
  Once one message of chunks has been bound the table is closed: binding records the number
  of received chunks as the table's size, so no later message, whatever it offers, maps another
  chunk, even if the server had reported more free memory than the first message delivered.
\<close>

theorem second_bind_maps_nothing:
  assumes "wf_chunks (remote_chunk_list (session w))" and "recv_buf (session w) = Some m"
    and "bind_remote_memory_chunks w = Inr w1"
    and "bind_remote_memory_chunks (upd_session (\<lambda>s. s\<lparr>recv_buf := Some m'\<rparr>) w1) = Inr w2"
  shows "mapped_chunks (remote_chunk_list (session w2)) = mapped_chunks (remote_chunk_list (session w1))"
proof -
  let ?v = "upd_session (\<lambda>s. s\<lparr>recv_buf := Some m'\<rparr>) w1"
  from bind_spec [OF assms(1,2)] assms(3) have w1: "wf_chunks (remote_chunk_list (session ?v))"
      "chunk_num (remote_chunk_list (session ?v)) = chunk_ptr (remote_chunk_list (session ?v))"
    by auto
  have "recv_buf (session ?v) = Some m'" by simp
  from bind_spec [OF w1(1) this] assms(4) take_room_after_bind [OF w1(2)]
  show ?thesis by auto
qed

definition two_chunk_client :: client where
  "two_chunk_client = unloaded\<lparr>session := rdma_session_global\<lparr>recv_buf := Some zero_message,
     remote_chunk_list := \<lparr>remote_chunk = Some [empty_chunk, empty_chunk], remote_free_size_gb = 2,
       chunk_num = 2, chunk_ptr = 0\<rparr>\<rparr>\<rparr>"

theorem second_bind_maps_nothing_witness:
  "\<exists>w1 w2. bind_remote_memory_chunks two_chunk_client = Inr w1 \<and>
     bind_remote_memory_chunks (upd_session (\<lambda>s. s\<lparr>recv_buf := Some zero_message\<rparr>) w1) = Inr w2 \<and>
     mapped_chunks (remote_chunk_list (session w2)) = mapped_chunks (remote_chunk_list (session w1))"
proof -
  have wf: "wf_chunks (remote_chunk_list (session two_chunk_client))"
    and buf: "recv_buf (session two_chunk_client) = Some zero_message"
    by (auto simp: two_chunk_client_def wf_chunks_def empty_chunk_def less_Suc_eq nth_Cons')
  from bind_spec [OF wf buf] obtain w1 where w1: "bind_remote_memory_chunks two_chunk_client = Inr w1"
      "wf_chunks (remote_chunk_list (session w1))" by blast
  moreover obtain w2 where w2:
      "bind_remote_memory_chunks (upd_session (\<lambda>s. s\<lparr>recv_buf := Some zero_message\<rparr>) w1) = Inr w2"
    using bind_spec [of "upd_session (\<lambda>s. s\<lparr>recv_buf := Some zero_message\<rparr>) w1" zero_message] w1(2)
    by auto
  ultimately show ?thesis
    using second_bind_maps_nothing [OF wf buf w1(1) w2] by blast
qed

end
