(* ===== verification/Client_Queue.thy ===== *)
theory Client_Queue
  imports Client_Chunks
begin

text \<open>
  The command queues of the client (\<^verbatim>\<open>rdma_client.c\<close>): one list of commands per dispatch queue,
  its construction, the spinning search for a free command and its return. A queue is a pool of
  slots: the locale \<open>slot_pool\<close> states what a client of the pool relies on, and the queue's
  operations are shown to provide it.
\<close>

section \<open>Construction\<close>

definition zero_cmd :: rmem_rdma_command where
  "zero_cmd = \<lparr>rdma_sq_wr = \<lparr>rdma_wr = zero_wr, wr_remote_addr = 0, wr_rkey = 0\<rparr>, rdma_sgl = zero_sge,
     rdma_buf = None, rdma_dma_addr = 0, io_rq = None, free_state = 0\<rparr>"

definition zero_queue :: rmem_rdma_queue where
  "zero_queue = \<lparr>rmem_rdma_cmd_list = None, rdma_queue_depth = 0, cmd_ptr = 0, q_index = 0,
     q_session = False\<rparr>"

definition zero_page :: page where
  "zero_page = replicate (unat PAGE_SIZE) 0"

text \<open>Dereferencing a kernel pointer: null and error pointers fault.\<close>

definition deref_kptr :: "int \<Rightarrow> unit res" where
  "deref_kptr p = (if p = 0 \<or> IS_ERR p then Inl NullDeref else Inr ())"

lemma deref_kptr_Inr_iff: "deref_kptr p = Inr u \<longleftrightarrow> p \<noteq> 0 \<and> \<not> IS_ERR p"
  by (auto simp: deref_kptr_def)

text \<open>The body of the initialisation loop, for command \<open>i\<close> of queue \<open>queue_ind\<close>.\<close>

definition init_cmd :: "kernel \<Rightarrow> nat \<Rightarrow> nat \<Rightarrow> rmem_rdma_command list option \<Rightarrow> client
    \<Rightarrow> (rmem_rdma_command list option \<times> client) res" where
  "init_cmd K queue_ind i cl w =
     res_bind (deref cl) (\<lambda>cs.
     res_bind (deref_kptr (pd (session w))) (\<lambda>_.
     res_bind (deref_kptr (qp (session w))) (\<lambda>_.
       let (b, w) = call K (Kzalloc (CmdBuf queue_ind i)) w;
           (a, w) = call K (IbDmaMapSingle (CmdBuf queue_ind i)) w
       in Inr (Some (cs[i := (cs ! i)\<lparr>
              free_state := 1,
              rdma_buf := (if b = 0 then None else Some (replicate MAX_REQUEST_SGL zero_page)),
              rdma_dma_addr := word_of_int a,
              rdma_sgl := \<lparr>sge_addr = word_of_int a, sge_length = sge_length (rdma_sgl (cs ! i)),
                           sge_lkey = (if k_local_dma_lkey K \<noteq> 0 then k_local_dma_lkey K else 0)\<rparr>,
              rdma_sq_wr := (rdma_sq_wr (cs ! i))\<lparr>rdma_wr := (rdma_wr (rdma_sq_wr (cs ! i)))
                \<lparr>wr_signaled := True, wr_sg_list := SG_CMD, wr_num_sge := 1,
                 wr_id := Some (queue_ind, i)\<rparr>\<rparr>,
              io_rq := None\<rparr>]), w))))"

fun init_cmds :: "kernel \<Rightarrow> nat \<Rightarrow> nat list \<Rightarrow> rmem_rdma_command list option \<Rightarrow> client
    \<Rightarrow> (rmem_rdma_command list option \<times> client) res" where
  "init_cmds K queue_ind [] cl w = Inr (cl, w)"
| "init_cmds K queue_ind (i # is) cl w =
     res_bind (init_cmd K queue_ind i cl w) (\<lambda>(cl, w). init_cmds K queue_ind is cl w)"

definition init_rdma_command_list :: "kernel \<Rightarrow> nat \<Rightarrow> client \<Rightarrow> (int \<times> client) res" where
  "init_rdma_command_list K queue_ind w =
     res_bind (deref (rmem_rdma_queue_list (session w))) (\<lambda>qs.
     res_bind (array_get qs queue_ind) (\<lambda>q.
       let (p, w) = call K (Kzalloc (CmdList queue_ind)) w;
           cl = (if p = 0 then None else Some (replicate (unat RMEM_QUEUE_DEPTH) zero_cmd))
       in res_bind (init_cmds K queue_ind [0..<unat RMEM_QUEUE_DEPTH] cl w) (\<lambda>(cl, w).
            Inr (0, upd_session (\<lambda>s. s\<lparr>rmem_rdma_queue_list := Some (qs[queue_ind :=
              q\<lparr>cmd_ptr := 0, rdma_queue_depth := RMEM_QUEUE_DEPTH, q_index := 0, q_session := True,
                rmem_rdma_cmd_list := cl\<rparr>])\<rparr>) w))))"

fun init_queues :: "kernel \<Rightarrow> nat list \<Rightarrow> client \<Rightarrow> client res" where
  "init_queues K [] w = Inr w"
| "init_queues K (i # is) w =
     res_bind (init_rdma_command_list K i w) (\<lambda>(_, w). init_queues K is w)"

definition init_rdma_command_queue_list :: "kernel \<Rightarrow> client \<Rightarrow> (int \<times> client) res" where
  "init_rdma_command_queue_list K w =
     (let rdma_q_num = unat (word_of_int (online_cores w) :: u32);
          (p, w) = call K (Kzalloc QueueList) w;
          w = upd_session (\<lambda>s. s\<lparr>rmem_rdma_queue_list :=
                (if p = 0 then None else Some (replicate rdma_q_num zero_queue))\<rparr>) w
      in res_bind (init_queues K [0..<rdma_q_num] w) (\<lambda>w. Inr (0, w)))"

section \<open>Taking and returning a command\<close>

text \<open>
  The search runs under the queue's lock one slot at a time and releases the lock between slots;
  \<open>others n\<close> is what other contexts (completion handlers, other submitters) do to the queue
  between round \<open>n\<close> and the next. The loop has no exit but success, so a search that has not
  succeeded within the observed rounds is \<open>Blocked\<close>.
\<close>

fun get_free_loop :: "(nat \<Rightarrow> rmem_rdma_queue \<Rightarrow> rmem_rdma_queue) \<Rightarrow> nat \<Rightarrow> nat \<Rightarrow> nat \<Rightarrow> rmem_rdma_queue
    \<Rightarrow> (nat \<times> rmem_rdma_queue) res" where
  "get_free_loop others 0 n rdma_cmd_ind q = Inl Blocked"
| "get_free_loop others (Suc rounds) n rdma_cmd_ind q =
     res_bind (deref (rmem_rdma_cmd_list q)) (\<lambda>cs.
     res_bind (array_get cs rdma_cmd_ind) (\<lambda>c.
       if free_state c = 1
       then Inr (rdma_cmd_ind, q\<lparr>rmem_rdma_cmd_list := Some (cs[rdma_cmd_ind := c\<lparr>free_state := 0\<rparr>])\<rparr>)
       else get_free_loop others rounds (Suc n)
              (if of_nat rdma_cmd_ind = rdma_queue_depth q - 1 then 0 else Suc rdma_cmd_ind)
              (others n q)))"

definition get_a_free_rdma_cmd_from_rdma_q ::
    "(nat \<Rightarrow> rmem_rdma_queue \<Rightarrow> rmem_rdma_queue) \<Rightarrow> nat \<Rightarrow> rmem_rdma_queue \<Rightarrow> (nat \<times> rmem_rdma_queue) res" where
  "get_a_free_rdma_cmd_from_rdma_q others rounds q = get_free_loop others rounds 0 0 q"

definition free_a_rdma_cmd_to_rdma_q :: "rmem_rdma_command \<Rightarrow> rmem_rdma_command" where
  "free_a_rdma_cmd_to_rdma_q c = c\<lparr>free_state := 1, io_rq := None\<rparr>"

text \<open>Returning command \<open>i\<close> of a queue in place.\<close>

definition free_cmd_at :: "nat \<Rightarrow> rmem_rdma_queue \<Rightarrow> rmem_rdma_queue" where
  "free_cmd_at i q = q\<lparr>rmem_rdma_cmd_list :=
     map_option (\<lambda>cs. cs[i := free_a_rdma_cmd_to_rdma_q (cs ! i)]) (rmem_rdma_cmd_list q)\<rparr>"

section \<open>The pool contract\<close>

locale slot_pool =
  fixes acquire :: "'p \<Rightarrow> (nat \<times> 'p) res"
    and release :: "nat \<Rightarrow> 'p \<Rightarrow> 'p"
    and free :: "'p \<Rightarrow> nat set"
    and slots :: "'p \<Rightarrow> nat set"
    and inv :: "'p \<Rightarrow> bool"
  assumes finite_free: "inv p \<Longrightarrow> finite (free p)"
    and acquire_takes: "inv p \<Longrightarrow> acquire p = Inr (i, p') \<Longrightarrow>
          inv p' \<and> slots p' = slots p \<and> i \<in> free p \<and> free p' = free p - {i}"
    and acquire_succeeds: "inv p \<Longrightarrow> free p \<noteq> {} \<Longrightarrow> \<exists>i p'. acquire p = Inr (i, p')"
    and acquire_spins: "inv p \<Longrightarrow> free p = {} \<Longrightarrow> acquire p = Inl Blocked"
    and release_returns: "inv p \<Longrightarrow> i \<in> slots p \<Longrightarrow>
          inv (release i p) \<and> slots (release i p) = slots p \<and> free (release i p) = insert i (free p)"
begin

fun acquire_n :: "nat \<Rightarrow> 'p \<Rightarrow> (nat list \<times> 'p) res" where
  "acquire_n 0 p = Inr ([], p)"
| "acquire_n (Suc n) p =
     res_bind (acquire p) (\<lambda>(i, p). res_bind (acquire_n n p) (\<lambda>(is, p). Inr (i # is, p)))"

lemma acquire_n_distinct:
  "inv p \<Longrightarrow> acquire_n n p = Inr (is, p') \<Longrightarrow>
     inv p' \<and> length is = n \<and> distinct is \<and> set is \<subseteq> free p \<and> free p' = free p - set is \<and> slots p' = slots p"
proof (induction n arbitrary: p "is")
  case 0
  then show ?case by simp
next
  case (Suc n)
  then obtain i p1 js where 1: "acquire p = Inr (i, p1)" "acquire_n n p1 = Inr (js, p')" "is = i # js"
    by (auto simp: res_bind_Inr_iff split: prod.splits)
  note t = acquire_takes [OF Suc.prems(1) 1(1)]
  then have p1: "inv p1" "slots p1 = slots p" "i \<in> free p" "free p1 = free p - {i}" by simp_all
  have js: "inv p'" "length js = n" "distinct js" "set js \<subseteq> free p1" "free p' = free p1 - set js"
      "slots p' = slots p1"
    using Suc.IH [OF p1(1) 1(2)] by simp_all
  have "i \<notin> set js" using js(4) p1(4) by blast
  moreover have "set is \<subseteq> free p" using js(4) p1(3,4) 1(3) by auto
  moreover have "free p' = free p - set is" using js(5) p1(4) 1(3) by auto
  moreover have "length is = Suc n" "distinct is" using js(2,3) \<open>i \<notin> set js\<close> 1(3) by simp_all
  moreover have "slots p' = slots p" using js(6) p1(2) by (rule trans)
  ultimately show ?case using js(1) by blast
qed

lemma acquire_n_succeeds:
  "inv p \<Longrightarrow> n \<le> card (free p) \<Longrightarrow> \<exists>is p'. acquire_n n p = Inr (is, p')"
proof (induction n arbitrary: p)
  case 0
  then show ?case by simp
next
  case (Suc n)
  then have "free p \<noteq> {}" by auto
  then obtain i p1 where 1: "acquire p = Inr (i, p1)" using acquire_succeeds Suc.prems(1) by blast
  note t = acquire_takes [OF Suc.prems(1) 1]
  then have "n \<le> card (free p1)"
    using Suc.prems finite_free [OF Suc.prems(1)] by (simp add: card_Diff_singleton)
  with t have "\<exists>js p2. acquire_n n p1 = Inr (js, p2)" by (intro Suc.IH) simp_all
  then obtain js p2 where "acquire_n n p1 = Inr (js, p2)" by blast
  with 1 show ?case by simp
qed

lemma acquire_n_exhausts:
  "inv p \<Longrightarrow> acquire_n (Suc (card (free p))) p = Inl Blocked"
proof (induction "card (free p)" arbitrary: p)
  case 0
  then have "free p = {}" using finite_free by auto
  with 0 show ?case by (simp add: acquire_spins)
next
  case (Suc k)
  then have "free p \<noteq> {}" by auto
  then obtain i p1 where 1: "acquire p = Inr (i, p1)" using acquire_succeeds Suc.prems by blast
  note t = acquire_takes [OF Suc.prems 1]
  have "k = card (free p1)"
    using t Suc.hyps(2) finite_free [OF Suc.prems] by (simp add: card_Diff_singleton)
  moreover from this t have "acquire_n (Suc (card (free p1))) p1 = Inl Blocked"
    by (intro Suc.hyps(1)) simp_all
  ultimately have "acquire_n (card (free p)) p1 = Inl Blocked" using Suc.hyps(2) by metis
  with 1 show ?case by simp
qed

lemma acquire_release:
  assumes "inv p" and "i \<in> slots p" and "acquire p = Inr (i, p')"
  shows "free (release i p') = free p \<and> inv (release i p')"
  using acquire_takes [OF assms(1,3)] release_returns [of p' i] assms(2) by auto

end

section \<open>A queue is a pool\<close>

definition wf_queue :: "rmem_rdma_queue \<Rightarrow> bool" where
  "wf_queue q \<longleftrightarrow> rdma_queue_depth q = RMEM_QUEUE_DEPTH \<and>
     (case rmem_rdma_cmd_list q of None \<Rightarrow> False | Some cs \<Rightarrow> length cs = unat RMEM_QUEUE_DEPTH)"

definition slot_free :: "rmem_rdma_queue \<Rightarrow> nat \<Rightarrow> bool" where
  "slot_free q i \<longleftrightarrow>
     (case rmem_rdma_cmd_list q of None \<Rightarrow> False | Some cs \<Rightarrow> i < length cs \<and> free_state (cs ! i) = 1)"

definition queue_slots :: "rmem_rdma_queue \<Rightarrow> nat set" where
  "queue_slots q = {..<unat (rdma_queue_depth q)}"

definition free_slots :: "rmem_rdma_queue \<Rightarrow> nat set" where
  "free_slots q = set (filter (slot_free q) [0..<unat (rdma_queue_depth q)])"

definition take_slot :: "nat \<Rightarrow> rmem_rdma_queue \<Rightarrow> rmem_rdma_queue" where
  "take_slot i q = q\<lparr>rmem_rdma_cmd_list :=
     map_option (\<lambda>cs. cs[i := (cs ! i)\<lparr>free_state := 0\<rparr>]) (rmem_rdma_cmd_list q)\<rparr>"

lemma depth_eq [simp]: "unat RMEM_QUEUE_DEPTH = 16"
  by (simp add: RMEM_QUEUE_DEPTH_def)

lemma wf_queueE:
  assumes "wf_queue q"
  obtains cs where "rmem_rdma_cmd_list q = Some cs" "length cs = 16" "rdma_queue_depth q = RMEM_QUEUE_DEPTH"
  using assms by (auto simp: wf_queue_def split: option.splits)

lemma next_index:
  "(if of_nat (k mod 16) = RMEM_QUEUE_DEPTH - 1 then 0 else Suc (k mod 16)) = Suc k mod 16"
proof -
  have "unat (of_nat (k mod 16) :: u32) = k mod 16"
    by (simp add: unat_of_nat)
  then have "of_nat (k mod 16) = RMEM_QUEUE_DEPTH - 1 \<longleftrightarrow> k mod 16 = 15"
    by (auto simp: RMEM_QUEUE_DEPTH_def word_unat_eq_iff)
  then show ?thesis by (auto simp: mod_Suc)
qed

text \<open>
  The search, over the successive states \<open>qs\<close> of the queue: round \<open>m\<close> looks at slot \<open>m mod 16\<close>
  of the queue as it then is, and the first round that finds its slot free wins.
\<close>

lemma get_free_loop_finds:
  assumes wf: "\<And>m. wf_queue (qs m)" and evolve: "\<And>m. qs (Suc m) = others m (qs m)"
  shows "get_free_loop others rounds k (k mod 16) (qs k) =
    (case find (\<lambda>m. slot_free (qs m) (m mod 16)) [k..<k + rounds] of
       None \<Rightarrow> Inl Blocked
     | Some m \<Rightarrow> Inr (m mod 16, take_slot (m mod 16) (qs m)))"
proof (induction rounds arbitrary: k)
  case 0
  then show ?case by simp
next
  case (Suc rounds)
  obtain cs where cs: "rmem_rdma_cmd_list (qs k) = Some cs" "length cs = 16"
      "rdma_queue_depth (qs k) = RMEM_QUEUE_DEPTH"
    using wf by (rule wf_queueE)
  have upt: "[k..<Suc (k + rounds)] = k # [Suc k..<Suc (k + rounds)]"
    by (simp add: upt_conv_Cons del: upt_Suc)
  show ?case
  proof (cases "free_state (cs ! (k mod 16)) = 1")
    case True
    with cs have "slot_free (qs k) (k mod 16)" by (simp add: slot_free_def)
    with True cs show ?thesis by (simp add: upt take_slot_def del: upt_Suc)
  next
    case False
    with cs have "\<not> slot_free (qs k) (k mod 16)" by (simp add: slot_free_def)
    with False cs Suc.IH [of "Suc k"] show ?thesis
      by (simp add: upt next_index evolve del: upt_Suc)
  qed
qed

lemma wf_take_slot: "wf_queue q \<Longrightarrow> wf_queue (take_slot i q)"
  by (auto simp: wf_queue_def take_slot_def split: option.splits)

lemma slot_free_take_slot: "slot_free (take_slot i q) j \<longleftrightarrow> slot_free q j \<and> j \<noteq> i"
  by (auto simp: slot_free_def take_slot_def nth_update_if split: option.splits if_splits)

lemma wf_free_cmd_at: "wf_queue q \<Longrightarrow> wf_queue (free_cmd_at i q)"
  by (auto simp: wf_queue_def free_cmd_at_def split: option.splits)

lemma slot_free_free_cmd_at:
  "wf_queue q \<Longrightarrow> i < 16 \<Longrightarrow> slot_free (free_cmd_at i q) j \<longleftrightarrow> slot_free q j \<or> j = i"
  by (auto simp: wf_queue_def slot_free_def free_cmd_at_def free_a_rdma_cmd_to_rdma_q_def
      nth_update_if split: option.splits if_splits)

lemma free_slots_iff: "wf_queue q \<Longrightarrow> i \<in> free_slots q \<longleftrightarrow> slot_free q i"
  by (auto simp: free_slots_def wf_queue_def slot_free_def split: option.splits)

lemma depth_frame [frame, simp]:
  "rdma_queue_depth (take_slot i q) = rdma_queue_depth q"
  "rdma_queue_depth (free_cmd_at i q) = rdma_queue_depth q"
  by (simp_all add: take_slot_def free_cmd_at_def)

text \<open>Without interference, sixteen rounds decide: the lowest free slot, or none.\<close>

lemma find_mod_16: "find (\<lambda>m. P (m mod 16)) [0..<16] = find P [0..<16]"
  by (rule find_cong) auto

lemma get_free_quiet:
  assumes "wf_queue q"
  shows "get_a_free_rdma_cmd_from_rdma_q (\<lambda>_ q. q) 16 q =
    (case find (slot_free q) [0..<16] of None \<Rightarrow> Inl Blocked | Some i \<Rightarrow> Inr (i, take_slot i q))"
proof -
  have "get_free_loop (\<lambda>_ q. q) 16 0 (0 mod 16) q =
    (case find (\<lambda>m. slot_free q (m mod 16)) [0..<0 + 16] of
       None \<Rightarrow> Inl Blocked | Some m \<Rightarrow> Inr (m mod 16, take_slot (m mod 16) q))"
    by (rule get_free_loop_finds [where qs = "\<lambda>_. q"]) (use assms in auto)
  then have eq: "get_a_free_rdma_cmd_from_rdma_q (\<lambda>_ q. q) 16 q =
    (case find (slot_free q) [0..<16] of
       None \<Rightarrow> Inl Blocked | Some m \<Rightarrow> Inr (m mod 16, take_slot (m mod 16) q))"
    by (simp add: get_a_free_rdma_cmd_from_rdma_q_def find_mod_16 [of "slot_free q"] del: upt_rec_numeral)
  show ?thesis
  proof (cases "find (slot_free q) [0..<16]")
    case None
    with eq show ?thesis by (simp del: upt_rec_numeral)
  next
    case (Some m)
    then have "m < 16" by (auto simp: find_Some_iff simp del: upt_rec_numeral)
    with eq Some show ?thesis by (simp del: upt_rec_numeral)
  qed
qed

interpretation cmd_pool: slot_pool "get_a_free_rdma_cmd_from_rdma_q (\<lambda>_ q. q) 16" free_cmd_at
    free_slots queue_slots wf_queue
proof (unfold_locales, goal_cases)
  case (1 p)
  then show ?case by (simp add: free_slots_def)
next
  case (2 p i p')
  then have i: "find (slot_free p) [0..<16] = Some i" and p': "p' = take_slot i p"
    by (auto simp: get_free_quiet split: option.splits simp del: upt_rec_numeral)
  from i have "slot_free p i" by (auto simp: find_Some_iff)
  with 2(1) p' show ?case
    by (auto simp: wf_take_slot free_slots_iff slot_free_take_slot queue_slots_def)
next
  case (3 p)
  then obtain i where "slot_free p i" "i < 16"
    by (auto simp: free_slots_def wf_queue_def)
  then have "find (slot_free p) [0..<16] \<noteq> None"
    by (auto simp: find_None_iff simp del: upt_rec_numeral)
  with 3(1) show ?case by (auto simp: get_free_quiet simp del: upt_rec_numeral)
next
  case (4 p)
  then have "find (slot_free p) [0..<16] = None"
    by (auto simp: free_slots_def wf_queue_def find_None_iff filter_empty_conv simp del: upt_rec_numeral)
  with 4(1) show ?case by (simp add: get_free_quiet del: upt_rec_numeral)
next
  case (5 p i)
  then have "i < 16" by (simp add: queue_slots_def wf_queue_def)
  with 5 show ?case
    by (auto simp: wf_free_cmd_at free_slots_iff slot_free_free_cmd_at queue_slots_def)
qed

text \<open>Taking commands one after the other, as successive submissions do.\<close>

fun get_cmds :: "nat \<Rightarrow> rmem_rdma_queue \<Rightarrow> (nat list \<times> rmem_rdma_queue) res" where
  "get_cmds 0 q = Inr ([], q)"
| "get_cmds (Suc n) q =
     res_bind (get_a_free_rdma_cmd_from_rdma_q (\<lambda>_ q. q) 16 q)
       (\<lambda>(i, q). res_bind (get_cmds n q) (\<lambda>(is, q). Inr (i # is, q)))"

lemma get_cmds_pool: "get_cmds n q = cmd_pool.acquire_n n q"
  by (induction n arbitrary: q) simp_all

section \<open>The lists as they are built\<close>

definition cmd_ready :: "nat \<Rightarrow> nat \<Rightarrow> rmem_rdma_command \<Rightarrow> bool" where
  "cmd_ready queue_ind i c \<longleftrightarrow> free_state c = 1 \<and> io_rq c = None \<and>
     wr_id (rdma_wr (rdma_sq_wr c)) = Some (queue_ind, i) \<and> wr_sg_list (rdma_wr (rdma_sq_wr c)) = SG_CMD \<and>
     wr_num_sge (rdma_wr (rdma_sq_wr c)) = 1 \<and> sge_addr (rdma_sgl c) = rdma_dma_addr c"

lemma init_cmds_ready:
  assumes "deref_kptr (pd (session w)) = Inr ()" and "deref_kptr (qp (session w)) = Inr ()"
    and "\<forall>i \<in> set is. i < length cs"
  shows "\<exists>cs' w'. init_cmds K queue_ind is (Some cs) w = Inr (Some cs', w') \<and> length cs' = length cs \<and>
           (\<forall>i < length cs. i \<in> set is \<or> cmd_ready queue_ind i (cs ! i) \<longrightarrow> cmd_ready queue_ind i (cs' ! i)) \<and>
           session w' = session w \<and> dev w' = dev w \<and> online_cores w' = online_cores w"
  using assms
proof (induction "is" arbitrary: cs w)
  case Nil
  then show ?case by simp
next
  case (Cons i "is")
  then obtain cs1 w1 where step: "init_cmd K queue_ind i (Some cs) w = Inr (Some cs1, w1)"
      and cs1: "length cs1 = length cs" "cmd_ready queue_ind i (cs1 ! i)"
        "\<forall>j < length cs. j \<noteq> i \<longrightarrow> cs1 ! j = cs ! j"
      and w1: "session w1 = session w" "dev w1 = dev w" "online_cores w1 = online_cores w"
    by (auto simp: init_cmd_def call_def Let_def cmd_ready_def)
  obtain cs' w' where rest: "init_cmds K queue_ind is (Some cs1) w1 = Inr (Some cs', w')"
      "length cs' = length cs1"
      "\<forall>j < length cs1. j \<in> set is \<or> cmd_ready queue_ind j (cs1 ! j) \<longrightarrow> cmd_ready queue_ind j (cs' ! j)"
      "session w' = session w1" "dev w' = dev w1" "online_cores w' = online_cores w1"
    using Cons.IH [of w1 cs1] Cons.prems cs1(1) w1 by auto
  from rest(3) cs1 have "\<forall>j < length cs. j \<in> set (i # is) \<or> cmd_ready queue_ind j (cs ! j) \<longrightarrow>
      cmd_ready queue_ind j (cs' ! j)"
    by (metis set_ConsD)
  with step rest(1,2,4-) cs1(1) w1 show ?case by simp
qed

definition fresh_queue :: "nat \<Rightarrow> rmem_rdma_queue \<Rightarrow> bool" where
  "fresh_queue queue_ind q \<longleftrightarrow> wf_queue q \<and> q_session q \<and> q_index q = 0 \<and>
     (\<forall>i < 16. case rmem_rdma_cmd_list q of None \<Rightarrow> False | Some cs \<Rightarrow> cmd_ready queue_ind i (cs ! i))"

lemma init_rdma_command_list_fresh:
  assumes "deref_kptr (pd (session w)) = Inr ()" and "deref_kptr (qp (session w)) = Inr ()"
    and "rmem_rdma_queue_list (session w) = Some qs" and "queue_ind < length qs"
    and "\<And>h. k_ret K h (Kzalloc (CmdList queue_ind)) \<noteq> 0"
  shows "\<exists>q w'. init_rdma_command_list K queue_ind w = Inr (0, w') \<and> fresh_queue queue_ind q \<and>
           session w' = (session w)\<lparr>rmem_rdma_queue_list := Some (qs[queue_ind := q])\<rparr> \<and>
           dev w' = dev w \<and> online_cores w' = online_cores w"
proof -
  let ?w = "w\<lparr>calls := calls w @ [Kzalloc (CmdList queue_ind)]\<rparr>"
  obtain cs' w' where loop: "init_cmds K queue_ind [0..<16] (Some (replicate 16 zero_cmd)) ?w = Inr (Some cs', w')"
      "length cs' = 16" "\<forall>i < 16. cmd_ready queue_ind i (cs' ! i)"
      "session w' = session w" "dev w' = dev w" "online_cores w' = online_cores w"
    using init_cmds_ready [of ?w "[0..<16]" "replicate 16 zero_cmd" K queue_ind] assms(1,2)
    by (auto simp del: upt_rec_numeral)
  let ?q = "(qs ! queue_ind)\<lparr>cmd_ptr := 0, rdma_queue_depth := RMEM_QUEUE_DEPTH, q_index := 0,
      q_session := True, rmem_rdma_cmd_list := Some cs'\<rparr>"
  have "fresh_queue queue_ind ?q"
    using loop(2,3) by (simp add: fresh_queue_def wf_queue_def)
  moreover have "init_rdma_command_list K queue_ind w =
      Inr (0, upd_session (\<lambda>s. s\<lparr>rmem_rdma_queue_list := Some (qs[queue_ind := ?q])\<rparr>) w')"
    using assms loop(1) by (simp add: init_rdma_command_list_def call_def Let_def del: upt_rec_numeral)
  ultimately show ?thesis using loop(4-) by auto
qed

lemma fresh_queue_all_free: "fresh_queue queue_ind q \<Longrightarrow> free_slots q = {..<16}"
  by (auto simp: fresh_queue_def free_slots_def wf_queue_def slot_free_def cmd_ready_def split: option.splits)

lemma init_queues_fresh:
  assumes "deref_kptr (pd (session w)) = Inr ()" and "deref_kptr (qp (session w)) = Inr ()"
    and "rmem_rdma_queue_list (session w) = Some qs" and "\<forall>i \<in> set is. i < length qs"
    and alloc: "\<And>h i. k_ret K h (Kzalloc (CmdList i)) \<noteq> 0"
  shows "\<exists>qs' w'. init_queues K is w = Inr w' \<and> length qs' = length qs \<and>
           (\<forall>i < length qs. i \<in> set is \<or> fresh_queue i (qs ! i) \<longrightarrow> fresh_queue i (qs' ! i)) \<and>
           session w' = (session w)\<lparr>rmem_rdma_queue_list := Some qs'\<rparr> \<and>
           dev w' = dev w \<and> online_cores w' = online_cores w"
  using assms(1-4)
proof (induction "is" arbitrary: qs w)
  case Nil
  then show ?case by (intro exI [of _ qs] exI [of _ w]) simp
next
  case (Cons i "is")
  obtain q w1 where step: "init_rdma_command_list K i w = Inr (0, w1)" "fresh_queue i q"
      and w1: "session w1 = (session w)\<lparr>rmem_rdma_queue_list := Some (qs[i := q])\<rparr>" "dev w1 = dev w"
        "online_cores w1 = online_cores w"
    using init_rdma_command_list_fresh [OF Cons.prems(1-3), of i K] Cons.prems(4) alloc by auto
  obtain qs' w' where rest: "init_queues K is w1 = Inr w'" "length qs' = length (qs[i := q])"
      "\<forall>j < length (qs[i := q]). j \<in> set is \<or> fresh_queue j (qs[i := q] ! j) \<longrightarrow> fresh_queue j (qs' ! j)"
      "session w' = (session w1)\<lparr>rmem_rdma_queue_list := Some qs'\<rparr>" "dev w' = dev w1"
      "online_cores w' = online_cores w1"
    using Cons.IH [of w1 "qs[i := q]"] Cons.prems w1 by auto
  have "fresh_queue j (qs' ! j)" if "j < length qs" "j \<in> set (i # is) \<or> fresh_queue j (qs ! j)" for j
    using rest(3) step(2) that by (cases "i = j") (auto simp: nth_update_if)
  with step(1) rest(1,2,4-) w1 show ?case by (intro exI [of _ qs'] exI [of _ w']) simp
qed

lemma init_queue_list_fresh:
  assumes "deref_kptr (pd (session w)) = Inr ()" and "deref_kptr (qp (session w)) = Inr ()"
    and "\<And>h b. k_ret K h (Kzalloc b) \<noteq> 0" and "0 \<le> online_cores w" and "online_cores w < 2 ^ 32"
  shows "\<exists>qs w'. init_rdma_command_queue_list K w = Inr (0, w') \<and>
           length qs = nat (online_cores w) \<and> (\<forall>i < length qs. fresh_queue i (qs ! i)) \<and>
           session w' = (session w)\<lparr>rmem_rdma_queue_list := Some qs\<rparr> \<and> dev w' = dev w \<and>
           online_cores w' = online_cores w"
proof -
  let ?n = "nat (online_cores w)"
  have n: "unat (word_of_int (online_cores w) :: u32) = ?n"
    using assms(4,5) by (simp add: unsigned_of_int take_bit_int_eq_self)
  let ?w = "upd_session (\<lambda>s. s\<lparr>rmem_rdma_queue_list := Some (replicate ?n zero_queue)\<rparr>)
      (w\<lparr>calls := calls w @ [Kzalloc QueueList]\<rparr>)"
  obtain qs w' where "init_queues K [0..<?n] ?w = Inr w'" "length qs = ?n"
      "\<forall>i < ?n. fresh_queue i (qs ! i)" "session w' = (session w)\<lparr>rmem_rdma_queue_list := Some qs\<rparr>"
      "dev w' = dev w" "online_cores w' = online_cores w"
    using init_queues_fresh [of ?w "replicate ?n zero_queue" "[0..<?n]" K] assms(1-3) by auto
  then show ?thesis
    using assms(3) by (auto simp: init_rdma_command_queue_list_def call_def Let_def n)
qed

section \<open>Properties\<close>

text \<open>A kernel in which every call succeeds and nothing interferes, for examples.\<close>

definition calm_kernel :: kernel where
  "calm_kernel = \<lparr>k_ret = (\<lambda>_ c. case c of Kzalloc _ \<Rightarrow> 1 | _ \<Rightarrow> 0), k_local_dma_lkey = 7,
     k_mr_lkey = (\<lambda>_. 8), k_in4_addr = [10, 0, 0, 2], k_cm_qp = 0x2000,
     k_undef = 0, k_others = (\<lambda>_ q. q), k_rounds = 16\<rparr>"

text \<open>
  Building the queues with a valid protection domain and queue pair and successful
  allocations gives one queue per core, each with sixteen free commands; every command is bound
  to its own scatter entry and carries its own address as work-request id.
\<close>

theorem init_rdma_command_queue_list_builds_fresh_queues:
  assumes "deref_kptr (pd (session w)) = Inr ()" and "deref_kptr (qp (session w)) = Inr ()"
    and "\<And>h b. k_ret K h (Kzalloc b) \<noteq> 0" and "0 \<le> online_cores w" and "online_cores w < 2 ^ 32"
  shows "\<exists>qs w'. init_rdma_command_queue_list K w = Inr (0, w') \<and>
           length qs = nat (online_cores w) \<and> (\<forall>i < length qs. fresh_queue i (qs ! i)) \<and>
           session w' = (session w)\<lparr>rmem_rdma_queue_list := Some qs\<rparr> \<and> dev w' = dev w"
  using init_queue_list_fresh [OF assms] by blast

theorem init_rdma_command_queue_list_builds_fresh_queues_witness:
  "\<exists>qs w'. init_rdma_command_queue_list calm_kernel
       (unloaded\<lparr>online_cores := 4, session := rdma_session_global\<lparr>pd := 1, qp := 2\<rparr>\<rparr>) = Inr (0, w') \<and>
     length qs = 4 \<and> (\<forall>i < 4. fresh_queue i (qs ! i)) \<and> rmem_rdma_queue_list (session w') = Some qs"
proof -
  let ?w = "unloaded\<lparr>online_cores := 4, session := rdma_session_global\<lparr>pd := 1, qp := 2\<rparr>\<rparr>"
  have "\<exists>qs w'. init_rdma_command_queue_list calm_kernel ?w = Inr (0, w') \<and>
      length qs = nat (online_cores ?w) \<and> (\<forall>i < length qs. fresh_queue i (qs ! i)) \<and>
      session w' = (session ?w)\<lparr>rmem_rdma_queue_list := Some qs\<rparr> \<and> dev w' = dev ?w"
    by (rule init_rdma_command_queue_list_builds_fresh_queues)
      (simp_all add: deref_kptr_def IS_ERR_def calm_kernel_def)
  then show ?thesis by auto
qed

text \<open>
  C10. As many submissions as the queue has free commands all get one, no two the same, and each
  was free before; one more spins.
\<close>

theorem command_queue_hands_out_distinct_commands:
  assumes "wf_queue q" and "n \<le> card (free_slots q)"
  shows "\<exists>is q'. get_cmds n q = Inr (is, q') \<and> length is = n \<and> distinct is \<and> set is \<subseteq> free_slots q \<and>
           free_slots q' = free_slots q - set is \<and> get_cmds (Suc (card (free_slots q))) q = Inl Blocked"
proof -
  obtain "is" q' where "get_cmds n q = Inr (is, q')"
    using cmd_pool.acquire_n_succeeds [OF assms] by (auto simp: get_cmds_pool)
  then show ?thesis
    using cmd_pool.acquire_n_distinct [OF assms(1)] cmd_pool.acquire_n_exhausts [OF assms(1)]
    unfolding get_cmds_pool by blast
qed

definition example_queue :: rmem_rdma_queue where
  "example_queue = zero_queue\<lparr>rdma_queue_depth := RMEM_QUEUE_DEPTH,
     rmem_rdma_cmd_list := Some (replicate 16 (zero_cmd\<lparr>free_state := 1\<rparr>))\<rparr>"

lemma example_queue_wf: "wf_queue example_queue" "free_slots example_queue = {..<16}"
  by (auto simp: example_queue_def wf_queue_def free_slots_def slot_free_def)

theorem command_queue_hands_out_distinct_commands_witness:
  "\<exists>is q'. get_cmds 16 example_queue = Inr (is, q') \<and> length is = 16 \<and> distinct is \<and> set is \<subseteq> {..<16} \<and>
     free_slots q' = {..<16} - set is \<and> get_cmds 17 example_queue = Inl Blocked"
  using command_queue_hands_out_distinct_commands [of example_queue 16] example_queue_wf by simp

text \<open>
  The spinning search under interference: if the queue stays well-formed whatever the other
  contexts do while the lock is released, and some observed round looks at a slot that is free
  at that moment, the search returns a command that was free when it was taken.
\<close>

theorem search_finds_command_returned_meanwhile:
  assumes "\<And>m. wf_queue (qs m)" and "\<And>m. qs (Suc m) = others m (qs m)"
    and "m < rounds" and "slot_free (qs m) (m mod 16)"
  shows "\<exists>k \<le> m. slot_free (qs k) (k mod 16) \<and>
    get_a_free_rdma_cmd_from_rdma_q others rounds (qs 0) = Inr (k mod 16, take_slot (k mod 16) (qs k))"
proof -
  let ?find = "find (\<lambda>m. slot_free (qs m) (m mod 16)) [0..<rounds]"
  from assms(3,4) have "?find \<noteq> None" by (auto simp: find_None_iff)
  then obtain k where k: "?find = Some k" by blast
  then have "slot_free (qs k) (k mod 16)" "k \<le> m"
    using assms(3,4) by (auto simp: find_Some_iff not_less [symmetric])
  moreover have "get_a_free_rdma_cmd_from_rdma_q others rounds (qs 0) = Inr (k mod 16, take_slot (k mod 16) (qs k))"
    using get_free_loop_finds [where qs = qs and others = others and rounds = rounds and k = 0] assms(1,2) k
    by (simp add: get_a_free_rdma_cmd_from_rdma_q_def)
  ultimately show ?thesis by blast
qed

theorem search_finds_command_returned_meanwhile_witness:
  "\<exists>k \<le> 3. slot_free example_queue (k mod 16) \<and>
    get_a_free_rdma_cmd_from_rdma_q (\<lambda>_ q. q) 5 example_queue =
      Inr (k mod 16, take_slot (k mod 16) example_queue)"
proof (rule search_finds_command_returned_meanwhile [where qs = "\<lambda>_. example_queue" and m = 3])
  show "wf_queue example_queue" by (rule example_queue_wf)
  show "slot_free example_queue (3 mod 16)" by (simp add: example_queue_def slot_free_def)
qed simp_all

end
