(* ===== verification/Client_Rdma.thy ===== *)
theory Client_Rdma
  imports Client_Queue
begin

text \<open>
  The messages of the client (\<^verbatim>\<open>rdma_client.c\<close>): two-sided messages that negotiate chunks with
  the server (\<^verbatim>\<open>send_message_to_remote\<close>, \<^verbatim>\<open>handle_recv_wr\<close>, \<^verbatim>\<open>octupos_requset_for_chunk\<close>) and
  one-sided reads and writes that carry block requests (\<^verbatim>\<open>post_rdma_write\<close>, \<^verbatim>\<open>post_rdma_read\<close>,
  their completions and \<^verbatim>\<open>copy_data_to_rdma_buf\<close>).
\<close>

section \<open>Queues and commands of a session\<close>

definition get_queue :: "rdma_session_context \<Rightarrow> nat \<Rightarrow> rmem_rdma_queue res" where
  "get_queue s qi = res_bind (deref (rmem_rdma_queue_list s)) (\<lambda>qs. array_get qs qi)"

definition set_queue :: "nat \<Rightarrow> rmem_rdma_queue \<Rightarrow> rdma_session_context \<Rightarrow> rdma_session_context" where
  "set_queue qi q s = s\<lparr>rmem_rdma_queue_list := map_option (\<lambda>qs. qs[qi := q]) (rmem_rdma_queue_list s)\<rparr>"

definition get_cmd :: "rdma_session_context \<Rightarrow> cmd_addr \<Rightarrow> rmem_rdma_command res" where
  "get_cmd s a = res_bind (get_queue s (fst a)) (\<lambda>q.
     res_bind (deref (rmem_rdma_cmd_list q)) (\<lambda>cs. array_get cs (snd a)))"

definition set_cmd :: "cmd_addr \<Rightarrow> rmem_rdma_command \<Rightarrow> rdma_session_context \<Rightarrow> rdma_session_context" where
  "set_cmd a c s = s\<lparr>rmem_rdma_queue_list := map_option (\<lambda>qs. qs[fst a :=
     (qs ! fst a)\<lparr>rmem_rdma_cmd_list := map_option (\<lambda>cs. cs[snd a := c]) (rmem_rdma_cmd_list (qs ! fst a))\<rparr>])
     (rmem_rdma_queue_list s)\<rparr>"

section \<open>One-sided messages\<close>

definition fill_cmd :: "ib_wr_opcode \<Rightarrow> request \<Rightarrow> remote_mapping_chunk \<Rightarrow> u64 \<Rightarrow> u64
    \<Rightarrow> rmem_rdma_command \<Rightarrow> rmem_rdma_command" where
  "fill_cmd opcode rq chunk offset len c = c\<lparr>
     io_rq := Some rq,
     rdma_sq_wr := (rdma_sq_wr c)\<lparr>wr_rkey := remote_rkey chunk,
       wr_remote_addr := remote_addr chunk + offset,
       rdma_wr := (rdma_wr (rdma_sq_wr c))\<lparr>wr_opcode := opcode\<rparr>\<rparr>,
     rdma_sgl := (rdma_sgl c)\<lparr>sge_length := ucast len\<rparr>\<rparr>"

text \<open>
  The two posting functions differ only in the opcode they store. The result of the search is
  never null, so the test for a null command is not a branch of its own.
\<close>

definition post_rdma :: "kernel \<Rightarrow> ib_wr_opcode \<Rightarrow> request \<Rightarrow> nat \<Rightarrow> remote_mapping_chunk \<Rightarrow> u64 \<Rightarrow> u64
    \<Rightarrow> client \<Rightarrow> (int \<times> client) res" where
  "post_rdma K opcode rq qi chunk offset len w =
     (if chunk_state chunk \<noteq> MAPPED then Inr (- 1, w)
      else res_bind (get_queue (session w) qi) (\<lambda>q.
           res_bind (get_a_free_rdma_cmd_from_rdma_q (k_others K) (k_rounds K) q) (\<lambda>(ci, q).
             let w = upd_session (set_queue qi q) w in
             res_bind (get_cmd (session w) (qi, ci)) (\<lambda>c.
               if wr_sg_list (rdma_wr (rdma_sq_wr c)) \<noteq> SG_CMD then Inl NullDeref
               else let c = fill_cmd opcode rq chunk offset len c;
                        w = upd_session (set_cmd (qi, ci) c) w
                    in res_bind (deref_kptr (qp (session w))) (\<lambda>_.
                         Inr (call K (IbPostRdma (rdma_sq_wr c) (rdma_sgl c)) w))))))"

definition post_rdma_write :: "kernel \<Rightarrow> request \<Rightarrow> nat \<Rightarrow> remote_mapping_chunk \<Rightarrow> u64 \<Rightarrow> u64
    \<Rightarrow> client \<Rightarrow> (int \<times> client) res" where
  "post_rdma_write K = post_rdma K IB_WR_RDMA_WRITE"

definition post_rdma_read :: "kernel \<Rightarrow> request \<Rightarrow> nat \<Rightarrow> remote_mapping_chunk \<Rightarrow> u64 \<Rightarrow> u64
    \<Rightarrow> client \<Rightarrow> (int \<times> client) res" where
  "post_rdma_read K = post_rdma K IB_WR_RDMA_READ"

text \<open>Reading the segments of a request's first bio, which the debug code does.\<close>

definition first_bio :: "request \<Rightarrow> bio res" where
  "first_bio rq = (case rq_bios rq of [] \<Rightarrow> Inl NullDeref | b # _ \<Rightarrow> Inr b)"

definition rdma_write_done :: "cmd_addr option \<Rightarrow> client \<Rightarrow> (int \<times> client) res" where
  "rdma_write_done wrid w =
     (case wrid of
        None \<Rightarrow> Inr (- 1, w)
      | Some a \<Rightarrow>
          res_bind (get_cmd (session w) a) (\<lambda>c.
          res_bind (deref (io_rq c)) (\<lambda>rq.
          res_bind (first_bio rq) (\<lambda>_.
            let w = call_void (BlkMqEndRequest (rq_tag rq) (rq_errors rq)) w
            in Inr (0, upd_session (set_cmd a (free_a_rdma_cmd_to_rdma_q c)) w)))))"

definition rdma_read_done :: "cmd_addr option \<Rightarrow> client \<Rightarrow> (int \<times> client) res" where
  "rdma_read_done wrid w =
     (case wrid of
        None \<Rightarrow> Inr (- 1, w)
      | Some a \<Rightarrow>
          res_bind (get_cmd (session w) a) (\<lambda>c.
          res_bind (deref (io_rq c)) (\<lambda>rq.
          res_bind (first_bio rq) (\<lambda>b.
            if ucast (rq_nr_phys_segments rq) \<noteq> bi_phys_segments b then Inr (- 1, w)
            else let w = call_void (BlkMqEndRequest (rq_tag rq) (rq_errors rq)) w
                 in Inr (0, upd_session (set_cmd a (free_a_rdma_cmd_to_rdma_q c)) w)))))"

text \<open>
  \<^verbatim>\<open>memcpy\<close> of pages into the buffer from page \<open>k\<close> on, faulting when it leaves the buffer, and the
  loop over the bios of a request; \<open>bi_pages\<close> are the pages that start at \<^verbatim>\<open>bio_data\<close>.
\<close>

definition copy_pages :: "nat \<Rightarrow> page list \<Rightarrow> page list \<Rightarrow> page list res" where
  "copy_pages k ps buf =
     (if k + length ps \<le> length buf then Inr (take k buf @ ps @ drop (k + length ps) buf)
      else Inl OutOfBounds)"

fun copy_bios :: "u32 \<Rightarrow> u32 \<Rightarrow> bio list \<Rightarrow> page list \<Rightarrow> page list res" where
  "copy_bios num_seg seg_ind [] buf = (if seg_ind < num_seg then Inl NullDeref else Inr buf)"
| "copy_bios num_seg seg_ind (b # bs) buf =
     (if seg_ind < num_seg
      then if length (bi_pages b) < unat (bi_phys_segments b) then Inl OutOfBounds
           else res_bind (copy_pages (unat seg_ind) (take (unat (bi_phys_segments b)) (bi_pages b)) buf)
                  (copy_bios num_seg (seg_ind + bi_phys_segments b) bs)
      else Inr buf)"

definition copy_data_to_rdma_buf :: "request \<Rightarrow> rmem_rdma_command \<Rightarrow> rmem_rdma_command res" where
  "copy_data_to_rdma_buf rq c =
     (if rq_nr_phys_segments rq = 0 then Inr c
      else res_bind (deref (rdma_buf c)) (\<lambda>buf.
           res_bind (copy_bios (ucast (rq_nr_phys_segments rq)) 0 (rq_bios rq) buf) (\<lambda>buf.
             Inr (c\<lparr>rdma_buf := Some buf\<rparr>))))"

section \<open>Two-sided messages\<close>

datatype ib_wc_opcode = IB_WC_SEND | IB_WC_RDMA_WRITE | IB_WC_RDMA_READ | IB_WC_RECV | IB_WC_OTHER int

text \<open>A work completion, with the message the adapter has placed in the receive buffer.\<close>

record ib_wc =
  wc_status :: int
  wc_opcode :: ib_wc_opcode
  wc_wr_id :: "cmd_addr option"
  wc_byte_len :: u32
  wc_payload :: message

definition count_op :: "client \<Rightarrow> client" where
  "count_op w = w\<lparr>rmda_ops_count := rmda_ops_count w + 1\<rparr>"

lemma count_op_simps [simp]:
  "session (count_op w) = session w" "dev (count_op w) = dev w" "calls (count_op w) = calls w"
  "sem_woken (count_op w) = sem_woken w" "online_cores (count_op w) = online_cores w"
  by (simp_all add: count_op_def)

definition send_message_to_remote :: "kernel \<Rightarrow> int \<Rightarrow> int \<Rightarrow> client \<Rightarrow> (int \<times> client) res" where
  "send_message_to_remote K messge_type size_gb w =
     res_bind (deref (send_buf (session w))) (\<lambda>m.
       let m = m\<lparr>msg_type := messge_type, msg_size_gb := size_gb\<rparr>;
           w = upd_session (\<lambda>s. s\<lparr>send_buf := Some m\<rparr>) w
       in res_bind (deref_kptr (qp (session w))) (\<lambda>_.
            let (ret, w) = call K (IbPostSend m) w
            in if ret \<noteq> 0 then Inr (ret, w) else Inr (ret, count_op w)))"

definition handle_recv_wr :: "kernel \<Rightarrow> ib_wc \<Rightarrow> client \<Rightarrow> (int \<times> client) res" where
  "handle_recv_wr K wc w =
     (if wc_byte_len wc \<noteq> sizeof_message then Inr (- 1, w)
      else if state (session w) < CONNECTED then Inr (- 1, w)
      else res_bind (deref (recv_buf (session w))) (\<lambda>m.
        if msg_type m = message_type_code FREE_SIZE
        then let w = upd_session (\<lambda>s. s\<lparr>remote_chunk_list :=
                   (remote_chunk_list s)\<lparr>remote_free_size_gb := word_of_int (msg_size_gb m)\<rparr>,
                   state := FREE_MEM_RECV\<rparr>) w
             in res_bind (init_remote_chunk_list K w) (\<lambda>(_, w). Inr (0, wake_up_interruptible w))
        else if msg_type m = message_type_code GOT_CHUNKS
        then res_bind (bind_remote_memory_chunks w) (\<lambda>w.
               Inr (0, wake_up_interruptible (upd_session (\<lambda>s. s\<lparr>state := RECEIVED_CHUNKS\<rparr>) w)))
        else if msg_type m = message_type_code GOT_SINGLE_CHUNK
        then res_bind (bind_remote_memory_chunks w) (\<lambda>w. Inr (0, w))
        else if msg_type m = message_type_code EVICT
        then Inr (0, upd_session (\<lambda>s. s\<lparr>state := RECV_EVICT\<rparr>) w)
        else if msg_type m = message_type_code STOP
        then Inr (0, upd_session (\<lambda>s. s\<lparr>state := RECV_STOP\<rparr>) w)
        else Inr (- 1, w)))"

definition octupos_requset_for_chunk :: "kernel \<Rightarrow> int \<Rightarrow> client \<Rightarrow> (int \<times> client) res" where
  "octupos_requset_for_chunk K num_chunk w =
     (if num_chunk = 0 then Inr (0, w)
      else res_bind (deref_kptr (qp (session w))) (\<lambda>_.
        let (ret, w) = call K IbPostRecv w
        in if ret \<noteq> 0 then Inr (ret, w)
           else send_message_to_remote K
                  (message_type_code (if num_chunk = 1 then REQUEST_SINGLE_CHUNK else REQUEST_CHUNKS))
                  (num_chunk * uint CHUNK_SIZE_GB) (count_op w)))"

section \<open>The invariant of the data path\<close>

text \<open>
  Every queue is well-formed and every command still carries its own address and its own scatter
  entry, so a completion finds the command that was posted.
\<close>

definition cmd_bound :: "cmd_addr \<Rightarrow> rmem_rdma_command \<Rightarrow> bool" where
  "cmd_bound a c \<longleftrightarrow> wr_id (rdma_wr (rdma_sq_wr c)) = Some a \<and> wr_sg_list (rdma_wr (rdma_sq_wr c)) = SG_CMD"

definition wf_queues :: "rdma_session_context \<Rightarrow> bool" where
  "wf_queues s \<longleftrightarrow> (case rmem_rdma_queue_list s of None \<Rightarrow> True
     | Some qs \<Rightarrow> \<forall>qi < length qs. wf_queue (qs ! qi) \<and>
         (\<forall>ci < 16. cmd_bound (qi, ci) (the (rmem_rdma_cmd_list (qs ! qi)) ! ci)))"

definition quiet :: "kernel \<Rightarrow> bool" where
  "quiet K \<longleftrightarrow> k_others K = (\<lambda>_ q. q) \<and> k_rounds K = 16"

lemma get_queue_Inr_iff:
  "get_queue s qi = Inr q \<longleftrightarrow> (\<exists>qs. rmem_rdma_queue_list s = Some qs \<and> qi < length qs \<and> qs ! qi = q)"
  by (auto simp: get_queue_def res_inversion)

lemma get_cmd_Inr_iff:
  "get_cmd s a = Inr c \<longleftrightarrow>
     (\<exists>q cs. get_queue s (fst a) = Inr q \<and> rmem_rdma_cmd_list q = Some cs \<and> snd a < length cs \<and> cs ! snd a = c)"
  by (auto simp: get_cmd_def res_inversion)

lemma wf_queues_get:
  assumes "wf_queues s" and "get_queue s qi = Inr q"
  obtains cs where "wf_queue q" "rmem_rdma_cmd_list q = Some cs" "length cs = 16"
    "\<forall>ci < 16. cmd_bound (qi, ci) (cs ! ci)"
proof -
  from assms obtain qs where "rmem_rdma_queue_list s = Some qs" "qi < length qs" "qs ! qi = q"
    by (auto simp: get_queue_Inr_iff)
  with assms(1) have "wf_queue q" "\<forall>ci < 16. cmd_bound (qi, ci) (the (rmem_rdma_cmd_list q) ! ci)"
    by (auto simp: wf_queues_def)
  with that show thesis by (auto elim: wf_queueE)
qed

lemma get_queue_set_queue:
  "get_queue s qi = Inr q0 \<Longrightarrow> get_queue (set_queue qi q s) qj = (if qi = qj then Inr q else get_queue s qj)"
  by (auto simp: get_queue_def set_queue_def array_get_def nth_update_if res_inversion split: if_splits)

lemma set_cmd_set_queue:
  "get_queue s qi = Inr q0 \<Longrightarrow> set_cmd (qi, ci) c (set_queue qi q s) =
     set_queue qi (q\<lparr>rmem_rdma_cmd_list := map_option (\<lambda>cs. cs[ci := c]) (rmem_rdma_cmd_list q)\<rparr>) s"
  by (auto simp: set_cmd_def set_queue_def get_queue_Inr_iff)

lemma wf_queues_set_queue:
  assumes "wf_queues s" and "get_queue s qi = Inr q0" and "wf_queue q"
    and "\<forall>ci < 16. cmd_bound (qi, ci) (the (rmem_rdma_cmd_list q) ! ci)"
  shows "wf_queues (set_queue qi q s)"
  using assms by (auto simp: wf_queues_def set_queue_def get_queue_Inr_iff nth_update_if split: option.splits)

lemma set_queue_frame [frame, simp]:
  "qp (set_queue qi q s) = qp s" "state (set_queue qi q s) = state s"
  "remote_chunk_list (set_queue qi q s) = remote_chunk_list s" "freed (set_queue qi q s) = freed s"
  "pd (set_queue qi q s) = pd s" "recv_buf (set_queue qi q s) = recv_buf s"
  by (simp_all add: set_queue_def)

lemma set_cmd_frame [frame, simp]:
  "qp (set_cmd a c s) = qp s" "state (set_cmd a c s) = state s"
  "remote_chunk_list (set_cmd a c s) = remote_chunk_list s" "freed (set_cmd a c s) = freed s"
  by (simp_all add: set_cmd_def)

section \<open>Posting and completing\<close>

lemma fill_cmd_simps [simp]:
  "io_rq (fill_cmd opcode rq chunk off len c) = Some rq"
  "free_state (fill_cmd opcode rq chunk off len c) = free_state c"
  "rdma_buf (fill_cmd opcode rq chunk off len c) = rdma_buf c"
  "sge_length (rdma_sgl (fill_cmd opcode rq chunk off len c)) = ucast len"
  "sge_addr (rdma_sgl (fill_cmd opcode rq chunk off len c)) = sge_addr (rdma_sgl c)"
  "wr_rkey (rdma_sq_wr (fill_cmd opcode rq chunk off len c)) = remote_rkey chunk"
  "wr_remote_addr (rdma_sq_wr (fill_cmd opcode rq chunk off len c)) = remote_addr chunk + off"
  "wr_opcode (rdma_wr (rdma_sq_wr (fill_cmd opcode rq chunk off len c))) = opcode"
  "wr_id (rdma_wr (rdma_sq_wr (fill_cmd opcode rq chunk off len c))) = wr_id (rdma_wr (rdma_sq_wr c))"
  "wr_sg_list (rdma_wr (rdma_sq_wr (fill_cmd opcode rq chunk off len c))) = wr_sg_list (rdma_wr (rdma_sq_wr c))"
  by (simp_all add: fill_cmd_def)

lemma cmd_bound_frame [simp]:
  "cmd_bound a (fill_cmd opcode rq chunk off len c) = cmd_bound a c"
  "cmd_bound a (c\<lparr>free_state := n\<rparr>) = cmd_bound a c"
  "cmd_bound a (free_a_rdma_cmd_to_rdma_q c) = cmd_bound a c"
  by (simp_all add: cmd_bound_def free_a_rdma_cmd_to_rdma_q_def)

text \<open>The queue after command \<open>ci\<close> has been replaced by \<open>c\<close>.\<close>

definition queue_with :: "nat \<Rightarrow> rmem_rdma_command \<Rightarrow> rmem_rdma_queue \<Rightarrow> rmem_rdma_queue" where
  "queue_with ci c q = q\<lparr>rmem_rdma_cmd_list := map_option (\<lambda>cs. cs[ci := c]) (rmem_rdma_cmd_list q)\<rparr>"

lemma queue_with_wf: "wf_queue q \<Longrightarrow> wf_queue (queue_with ci c q)"
  by (auto simp: wf_queue_def queue_with_def split: option.splits)

lemma queue_with_free:
  assumes "wf_queue q" and "ci < 16"
  shows "free_slots (queue_with ci c q) = (if free_state c = 1 then insert ci (free_slots q) else free_slots q - {ci})"
  using assms
  by (auto simp: free_slots_def queue_with_def wf_queue_def slot_free_def nth_update_if split: option.splits if_splits)

lemma wf_queues_queue_with:
  assumes "wf_queues s" and "get_queue s qi = Inr q" and "cmd_bound (qi, ci) c"
  shows "wf_queues (set_queue qi (queue_with ci c q) s)"
proof -
  obtain cs where cs: "wf_queue q" "rmem_rdma_cmd_list q = Some cs" "length cs = 16"
      "\<forall>i < 16. cmd_bound (qi, i) (cs ! i)"
    using assms(1,2) by (rule wf_queues_get)
  then have "\<forall>i < 16. cmd_bound (qi, i) (the (rmem_rdma_cmd_list (queue_with ci c q)) ! i)"
    using assms(3) by (simp add: queue_with_def nth_update_if)
  with assms(1,2) queue_with_wf [OF cs(1)] show ?thesis by (intro wf_queues_set_queue)
qed

text \<open>What a successful search followed by the filling of the command leaves behind.\<close>

lemma post_rdma_posts:
  assumes K: "quiet K" and wf: "wf_queues (session w)" and q: "get_queue (session w) qi = Inr q"
    and free: "free_slots q \<noteq> {}" and "chunk_state chunk = MAPPED"
    and qp: "deref_kptr (qp (session w)) = Inr ()"
  obtains ci c where "ci \<in> free_slots q" "ci < 16" "free_state c = 0" "io_rq c = Some rq"
    "cmd_bound (qi, ci) c"
    "wr_rkey (rdma_sq_wr c) = remote_rkey chunk" "wr_remote_addr (rdma_sq_wr c) = remote_addr chunk + off"
    "wr_opcode (rdma_wr (rdma_sq_wr c)) = opcode" "sge_length (rdma_sgl c) = ucast len"
    "rdma_buf c = rdma_buf (the (rmem_rdma_cmd_list q) ! ci)"
    "post_rdma K opcode rq qi chunk off len w =
       Inr (call K (IbPostRdma (rdma_sq_wr c) (rdma_sgl c)) (upd_session (set_queue qi (queue_with ci c q)) w))"
proof -
  obtain cs where cs: "wf_queue q" "rmem_rdma_cmd_list q = Some cs" "length cs = 16"
      "\<forall>i < 16. cmd_bound (qi, i) (cs ! i)"
    using wf q by (rule wf_queues_get)
  from cmd_pool.acquire_succeeds [OF cs(1) free]
  obtain ci q1 where get: "get_a_free_rdma_cmd_from_rdma_q (\<lambda>_ q. q) 16 q = Inr (ci, q1)" by blast
  from cmd_pool.acquire_takes [OF cs(1) get] have ci: "ci \<in> free_slots q" by simp
  then have lt: "ci < 16" using cs by (simp add: free_slots_iff slot_free_def)
  from get cs(1) have q1: "q1 = take_slot ci q"
    by (auto simp: get_free_quiet split: option.splits simp del: upt_rec_numeral)
  let ?c = "fill_cmd opcode rq chunk off len ((cs ! ci)\<lparr>free_state := 0\<rparr>)"
  have bound: "cmd_bound (qi, ci) ?c" using cs(4) lt by simp
  have cmd: "get_cmd (set_queue qi q1 (session w)) (qi, ci) = Inr ((cs ! ci)\<lparr>free_state := 0\<rparr>)"
    using q cs lt by (simp add: get_cmd_def get_queue_set_queue q1 take_slot_def)
  have sg: "wr_sg_list (rdma_wr (rdma_sq_wr (cs ! ci))) = SG_CMD"
    using cs(4) lt by (simp add: cmd_bound_def)
  have set: "set_cmd (qi, ci) ?c (set_queue qi q1 (session w)) = set_queue qi (queue_with ci ?c q) (session w)"
    using q cs by (simp add: set_cmd_set_queue queue_with_def q1 take_slot_def)
  have two: "upd_session (set_cmd (qi, ci) ?c) (upd_session (set_queue qi q1) w) =
      upd_session (set_queue qi (queue_with ci ?c q)) w"
    unfolding upd_session_def using set by simp
  have "post_rdma K opcode rq qi chunk off len w =
      Inr (call K (IbPostRdma (rdma_sq_wr ?c) (rdma_sgl ?c)) (upd_session (set_queue qi (queue_with ci ?c q)) w))"
    using assms(5) q get K cmd sg qp by (simp add: post_rdma_def quiet_def Let_def two)
  with ci lt bound cs(2) show thesis by (intro that [of ci ?c]) simp_all
qed

lemma post_rdma_spins:
  assumes "quiet K" and "wf_queues (session w)" and "get_queue (session w) qi = Inr q"
    and "free_slots q = {}" and "chunk_state chunk = MAPPED"
  shows "post_rdma K opcode rq qi chunk off len w = Inl Blocked"
proof -
  have "wf_queue q" using assms(2,3) by (rule wf_queues_get)
  from cmd_pool.acquire_spins [OF this assms(4)] assms show ?thesis
    by (simp add: post_rdma_def quiet_def)
qed

lemma set_cmd_queue_with:
  "get_queue s qi = Inr q \<Longrightarrow> set_cmd (qi, ci) c s = set_queue qi (queue_with ci c q) s"
  by (auto simp: set_cmd_def set_queue_def queue_with_def get_queue_Inr_iff)

lemma get_cmd_queue_with:
  assumes "wf_queues s" and "get_queue s qi = Inr q" and "ci < 16"
  shows "get_cmd (set_queue qi (queue_with ci c q) s) (qi, ci) = Inr c"
proof -
  obtain cs where "rmem_rdma_cmd_list q = Some cs" "length cs = 16"
    using assms(1,2) by (rule wf_queues_get)
  with assms(2,3) show ?thesis by (simp add: get_cmd_def get_queue_set_queue queue_with_def)
qed

lemma queue_with_twice [simp]: "queue_with ci c (queue_with ci c' q) = queue_with ci c q"
  by (cases "rmem_rdma_cmd_list q") (simp_all add: queue_with_def)

lemma set_queue_twice [simp]: "set_queue qi q (set_queue qi q' s) = set_queue qi q s"
  by (cases "rmem_rdma_queue_list s") (simp_all add: set_queue_def)

text \<open>The completion of a posted command, on either path.\<close>

lemma done_completes:
  assumes "get_cmd (session w) (qi, ci) = Inr c" and "io_rq c = Some rq" and "rq_bios rq = b # bs"
    and "get_queue (session w) qi = Inr q"
  shows "rdma_write_done (Some (qi, ci)) w =
      Inr (0, upd_session (set_queue qi (queue_with ci (free_a_rdma_cmd_to_rdma_q c) q))
        (call_void (BlkMqEndRequest (rq_tag rq) (rq_errors rq)) w))"
    and "ucast (rq_nr_phys_segments rq) = bi_phys_segments b \<Longrightarrow> rdma_read_done (Some (qi, ci)) w =
      Inr (0, upd_session (set_queue qi (queue_with ci (free_a_rdma_cmd_to_rdma_q c) q))
        (call_void (BlkMqEndRequest (rq_tag rq) (rq_errors rq)) w))"
  using assms
  by (simp_all add: rdma_write_done_def rdma_read_done_def first_bio_def Let_def set_cmd_queue_with upd_session_def)

text \<open>A request posted and then completed, by whichever completion handler \<open>fin\<close> serves it.\<close>

lemma post_then_done:
  assumes K: "quiet K" and wf: "wf_queues (session w)" and q: "get_queue (session w) qi = Inr q"
    and free: "free_slots q \<noteq> {}" and mapped: "chunk_state chunk = MAPPED"
    and qp: "deref_kptr (qp (session w)) = Inr ()" and bios: "rq_bios rq = b # bs"
    and fin: "fin = rdma_write_done \<or> fin = rdma_read_done \<and> ucast (rq_nr_phys_segments rq) = bi_phys_segments b"
  shows "\<exists>r w1 wr sge w2 q2. post_rdma K opcode rq qi chunk off len w = Inr (r, w1) \<and>
     calls w1 = calls w @ [IbPostRdma wr sge] \<and> fin (wr_id (rdma_wr wr)) w1 = Inr (0, w2) \<and>
     calls w2 = calls w1 @ [BlkMqEndRequest (rq_tag rq) (rq_errors rq)] \<and>
     wf_queues (session w2) \<and> get_queue (session w2) qi = Inr q2 \<and> free_slots q2 = free_slots q"
proof -
  obtain ci c where ci: "ci \<in> free_slots q" "ci < 16" and c: "free_state c = 0" "io_rq c = Some rq"
      "cmd_bound (qi, ci) c"
    and post: "post_rdma K opcode rq qi chunk off len w =
       Inr (call K (IbPostRdma (rdma_sq_wr c) (rdma_sgl c)) (upd_session (set_queue qi (queue_with ci c q)) w))"
    using K wf q free mapped qp by (rule post_rdma_posts)
  have wfq: "wf_queue q" using wf q by (rule wf_queues_get)
  let ?u = "upd_session (set_queue qi (queue_with ci c q)) w"
  let ?w1 = "?u\<lparr>calls := calls w @ [IbPostRdma (rdma_sq_wr c) (rdma_sgl c)]\<rparr>"
  let ?q2 = "queue_with ci (free_a_rdma_cmd_to_rdma_q c) q"
  have s1: "session ?w1 = set_queue qi (queue_with ci c q) (session w)" by simp
  have cmd: "get_cmd (session ?w1) (qi, ci) = Inr c"
    unfolding s1 using wf q ci(2) by (rule get_cmd_queue_with)
  have q1: "get_queue (session ?w1) qi = Inr (queue_with ci c q)"
    unfolding s1 using q by (simp add: get_queue_set_queue)
  define w2 where "w2 = upd_session (set_queue qi ?q2) (call_void (BlkMqEndRequest (rq_tag rq) (rq_errors rq)) ?w1)"
  have "fin (Some (qi, ci)) ?w1 = Inr (0, w2)"
    using fin done_completes [OF cmd c(2) bios q1] by (auto simp: w2_def)
  moreover have "wr_id (rdma_wr (rdma_sq_wr c)) = Some (qi, ci)" using c(3) by (simp add: cmd_bound_def)
  moreover have s2: "session w2 = set_queue qi ?q2 (session w)" by (simp add: w2_def)
  moreover have "wf_queues (set_queue qi ?q2 (session w))"
    using wf q by (rule wf_queues_queue_with) (simp add: c(3))
  moreover have "free_slots ?q2 = free_slots q"
    using queue_with_free [OF wfq ci(2)] ci(1) by (simp add: free_a_rdma_cmd_to_rdma_q_def insert_absorb)
  moreover have "get_queue (set_queue qi ?q2 (session w)) qi = Inr ?q2"
    using q by (simp add: get_queue_set_queue)
  moreover have "calls w2 = calls ?w1 @ [BlkMqEndRequest (rq_tag rq) (rq_errors rq)]" by (simp add: w2_def)
  ultimately show ?thesis using post
    by (intro exI [of _ "k_ret K (calls w) (IbPostRdma (rdma_sq_wr c) (rdma_sgl c))"] exI [of _ ?w1]
        exI [of _ "rdma_sq_wr c"] exI [of _ "rdma_sgl c"] exI [of _ w2] exI [of _ ?q2])
      (simp add: call_def)
qed

section \<open>Copying a request into a buffer\<close>

definition bio_full :: "bio \<Rightarrow> bool" where
  "bio_full b \<longleftrightarrow> length (bi_pages b) = unat (bi_phys_segments b)"

lemma copy_bios_concat:
  assumes "\<forall>b \<in> set bs. bio_full b"
    and "unat seg_ind + length (concat (map bi_pages bs)) = unat num_seg"
    and "unat num_seg \<le> length buf"
  shows "copy_bios num_seg seg_ind bs buf =
    Inr (take (unat seg_ind) buf @ concat (map bi_pages bs) @ drop (unat num_seg) buf)"
  using assms
proof (induction bs arbitrary: seg_ind buf)
  case Nil
  then have "seg_ind = num_seg" by (simp add: word_unat_eq_iff)
  then show ?case by simp
next
  case (Cons b bs)
  let ?n = "unat (bi_phys_segments b)"
  let ?buf = "take (unat seg_ind) buf @ bi_pages b @ drop (unat seg_ind + ?n) buf"
  from Cons.prems(1) have n: "length (bi_pages b) = ?n" by (simp add: bio_full_def)
  have "unat num_seg < 2 ^ 32" using unat_bound [of num_seg] by simp
  with Cons.prems(2) n have nxt: "unat (seg_ind + bi_phys_segments b) = unat seg_ind + ?n"
    by (intro unat_add_no_overflow) simp
  show ?case
  proof (cases "seg_ind < num_seg")
    case True
    have len: "length ?buf = length buf" using Cons.prems(2,3) n by simp
    have "copy_bios num_seg (seg_ind + bi_phys_segments b) bs ?buf =
        Inr (take (unat seg_ind + ?n) ?buf @ concat (map bi_pages bs) @ drop (unat num_seg) ?buf)"
      using Cons.IH [of "seg_ind + bi_phys_segments b" ?buf] Cons.prems n len by (simp add: nxt)
    with True n Cons.prems(2,3) show ?thesis by (simp add: copy_pages_def min_def)
  next
    case False
    then have "unat num_seg \<le> unat seg_ind" by (simp add: word_less_nat_alt)
    with Cons.prems(2) have "seg_ind = num_seg" "bi_pages b = []" "concat (map bi_pages bs) = []"
      by (simp_all add: word_unat_eq_iff flip: length_0_conv)
    then show ?thesis by (simp del: concat_eq_Nil_conv)
  qed
qed

section \<open>Negotiation messages\<close>

lemma handle_free_size:
  assumes "wc_byte_len wc = sizeof_message" and "CONNECTED \<le> state (session w)"
    and "recv_buf (session w) = Some m" and "msg_type m = message_type_code FREE_SIZE"
    and alloc: "\<And>h. k_ret K h (Kzalloc ChunkArray) \<noteq> 0"
  shows "\<exists>w' l. handle_recv_wr K wc w = Inr (0, w') \<and> sem_woken w' \<and> dev w' = dev w \<and>
     online_cores w' = online_cores w \<and> set (calls w) \<subseteq> set (calls w') \<and>
     session w' = (session w)\<lparr>remote_chunk_list := l, state := FREE_MEM_RECV\<rparr> \<and>
     wf_chunks l \<and> mapped_chunks l = [] \<and> room l = unat (word_of_int (msg_size_gb m) :: u32)"
proof -
  let ?n = "word_of_int (msg_size_gb m) :: u32"
  let ?v = "upd_session (\<lambda>s. s\<lparr>remote_chunk_list := (remote_chunk_list s)\<lparr>remote_free_size_gb := ?n\<rparr>,
      state := FREE_MEM_RECV\<rparr>) w"
  let ?l = "(remote_chunk_list (session w))\<lparr>remote_free_size_gb := ?n, chunk_ptr := 0, chunk_num := ?n,
      remote_chunk := Some (replicate (unat ?n) empty_chunk)\<rparr>"
  obtain w1 where w1: "init_remote_chunk_list K ?v = Inr (0, w1)" "calls w1 = calls w @ [Kzalloc ChunkArray]"
      "session w1 = (session w)\<lparr>remote_chunk_list := ?l, state := FREE_MEM_RECV\<rparr>"
      "dev w1 = dev w" "online_cores w1 = online_cores w"
    using alloc clear_chunks_zeroed by (simp add: init_remote_chunk_list_def call_def Let_def CHUNK_SIZE_GB_def)
  have "handle_recv_wr K wc w = Inr (0, wake_up_interruptible w1)"
    using assms(1-4) w1(1) by (simp add: handle_recv_wr_def Let_def not_less [symmetric])
  moreover have "wf_chunks ?l" "mapped_chunks ?l = []" "room ?l = unat ?n"
    by (simp_all add: wf_chunks_def empty_chunk_def mapped_chunks_def room_def)
  ultimately show ?thesis using w1
    by (intro exI [of _ "wake_up_interruptible w1"] exI [of _ ?l]) auto
qed

lemma handle_got_chunks:
  assumes "wc_byte_len wc = sizeof_message" and "CONNECTED \<le> state (session w)"
    and "recv_buf (session w) = Some m"
    and "msg_type m \<in> {message_type_code GOT_CHUNKS, message_type_code GOT_SINGLE_CHUNK}"
    and "wf_chunks (remote_chunk_list (session w))"
  shows "\<exists>w' l. handle_recv_wr K wc w = Inr (0, w') \<and> dev w' = dev w \<and> online_cores w' = online_cores w \<and>
     set (calls w) \<subseteq> set (calls w') \<and>
     wf_chunks l \<and> mapped_chunks l = mapped_chunks (remote_chunk_list (session w)) @
       take (room (remote_chunk_list (session w))) (offered m [0..<MAX_CHUNKS]) \<and>
     (if msg_type m = message_type_code GOT_CHUNKS
      then session w' = (session w)\<lparr>remote_chunk_list := l, state := RECEIVED_CHUNKS\<rparr> \<and> sem_woken w'
      else session w' = (session w)\<lparr>remote_chunk_list := l\<rparr> \<and> sem_woken w' = sem_woken w)"
proof -
  obtain w1 where w1: "bind_remote_memory_chunks w = Inr w1" "wf_chunks (remote_chunk_list (session w1))"
     "mapped_chunks (remote_chunk_list (session w1)) = mapped_chunks (remote_chunk_list (session w)) @
       take (room (remote_chunk_list (session w))) (offered m [0..<MAX_CHUNKS])"
    using bind_spec [OF assms(5,3)] by blast
  from bind_frame [OF w1(1)] obtain l where l: "w1 = upd_session (\<lambda>s. s\<lparr>remote_chunk_list := l\<rparr>) w" by blast
  let ?w = "if msg_type m = message_type_code GOT_CHUNKS
    then wake_up_interruptible (upd_session (\<lambda>s. s\<lparr>state := RECEIVED_CHUNKS\<rparr>) w1) else w1"
  have "handle_recv_wr K wc w = Inr (0, ?w)"
    using w1(1) assms(1-4) by (auto simp: handle_recv_wr_def not_less)
  then show ?thesis using w1(2,3) l by (intro exI [of _ ?w] exI [of _ l]) auto
qed

lemma handle_other:
  assumes "recv_buf (session w) = Some m"
    and "msg_type m \<notin> message_type_code ` {FREE_SIZE, GOT_CHUNKS, GOT_SINGLE_CHUNK}
         \<or> wc_byte_len wc \<noteq> sizeof_message \<or> state (session w) < CONNECTED"
  shows "\<exists>r w'. handle_recv_wr K wc w = Inr (r, w') \<and> remote_chunk_list (session w') = remote_chunk_list (session w)"
  using assms by (auto simp: handle_recv_wr_def)

section \<open>Properties\<close>

definition ready_cmd :: "nat \<Rightarrow> nat \<Rightarrow> rmem_rdma_command" where
  "ready_cmd qi ci = zero_cmd\<lparr>free_state := 1, rdma_buf := Some (replicate MAX_REQUEST_SGL zero_page),
     rdma_sq_wr := \<lparr>rdma_wr = zero_wr\<lparr>wr_id := Some (qi, ci), wr_sg_list := SG_CMD, wr_num_sge := 1\<rparr>,
       wr_remote_addr = 0, wr_rkey = 0\<rparr>\<rparr>"

definition ready_queue :: "nat \<Rightarrow> rmem_rdma_queue" where
  "ready_queue qi = zero_queue\<lparr>rdma_queue_depth := RMEM_QUEUE_DEPTH, q_session := True,
     rmem_rdma_cmd_list := Some (map (ready_cmd qi) [0..<16])\<rparr>"

definition ready_client :: client where
  "ready_client = unloaded\<lparr>session := rdma_session_global\<lparr>pd := 1, qp := 2,
     rmem_rdma_queue_list := Some [ready_queue 0, ready_queue 1]\<rparr>\<rparr>"

definition sample_chunk :: remote_mapping_chunk where
  "sample_chunk = \<lparr>remote_rkey = 77, remote_addr = 0x100000, chunk_state = MAPPED\<rparr>"

definition sample_request :: request where
  "sample_request = \<lparr>rq_tag = 3, rq_write = True, rq_pos = 8, rq_bytes = 4096, rq_nr_phys_segments = 1,
     rq_bios = [\<lparr>bi_phys_segments = 1, bi_pages = [zero_page]\<rparr>], rq_errors = 0\<rparr>"

lemma ready_queue_wf: "wf_queue (ready_queue qi)" "free_slots (ready_queue qi) = {..<16}"
  by (auto simp: ready_queue_def wf_queue_def free_slots_def slot_free_def ready_cmd_def simp del: upt_rec_numeral)

lemma sample_simps:
  "chunk_state sample_chunk = MAPPED" "remote_rkey sample_chunk = 77" "remote_addr sample_chunk = 0x100000"
  "rq_tag sample_request = 3" "rq_errors sample_request = 0" "calls ready_client = []"
  "rq_bios sample_request = [\<lparr>bi_phys_segments = 1, bi_pages = [zero_page]\<rparr>]"
  "k_ret calm_kernel h (IbPostRdma wr sge) = 0"
  by (simp_all add: sample_chunk_def sample_request_def ready_client_def unloaded_def calm_kernel_def)

lemma ready_client_wf:
  "wf_queues (session ready_client)" "get_queue (session ready_client) 1 = Inr (ready_queue 1)"
  "deref_kptr (qp (session ready_client)) = Inr ()" "quiet calm_kernel"
  by (auto simp: ready_client_def wf_queues_def ready_queue_wf get_queue_def deref_kptr_def IS_ERR_def quiet_def
      calm_kernel_def ready_queue_def ready_cmd_def cmd_bound_def wf_queue_def less_Suc_eq nth_Cons'
      simp del: upt_rec_numeral)

text \<open>
  Writing a request to a mapped chunk on a queue with a free command posts exactly one work
  request: an RDMA write with the chunk's key, to the chunk's address plus the offset, of the
  requested length, identified by the command that now holds the request.
\<close>

theorem post_rdma_write_posts_to_chunk:
  assumes "quiet K" and "wf_queues (session w)" and "get_queue (session w) qi = Inr q"
    and "free_slots q \<noteq> {}" and "chunk_state chunk = MAPPED" and "deref_kptr (qp (session w)) = Inr ()"
  shows "\<exists>ci c w'. ci \<in> free_slots q \<and>
     post_rdma_write K rq qi chunk off len w = Inr (k_ret K (calls w) (IbPostRdma (rdma_sq_wr c) (rdma_sgl c)), w') \<and>
     calls w' = calls w @ [IbPostRdma (rdma_sq_wr c) (rdma_sgl c)] \<and>
     wr_opcode (rdma_wr (rdma_sq_wr c)) = IB_WR_RDMA_WRITE \<and> wr_rkey (rdma_sq_wr c) = remote_rkey chunk \<and>
     wr_remote_addr (rdma_sq_wr c) = remote_addr chunk + off \<and> sge_length (rdma_sgl c) = ucast len \<and>
     wr_id (rdma_wr (rdma_sq_wr c)) = Some (qi, ci) \<and> get_cmd (session w') (qi, ci) = Inr c \<and>
     io_rq c = Some rq \<and> wf_queues (session w')"
proof -
  obtain ci c where "ci \<in> free_slots q" "ci < 16" "io_rq c = Some rq" "cmd_bound (qi, ci) c"
    "wr_rkey (rdma_sq_wr c) = remote_rkey chunk" "wr_remote_addr (rdma_sq_wr c) = remote_addr chunk + off"
    "wr_opcode (rdma_wr (rdma_sq_wr c)) = IB_WR_RDMA_WRITE" "sge_length (rdma_sgl c) = ucast len"
    "post_rdma K IB_WR_RDMA_WRITE rq qi chunk off len w =
       Inr (call K (IbPostRdma (rdma_sq_wr c) (rdma_sgl c)) (upd_session (set_queue qi (queue_with ci c q)) w))"
    using assms by (rule post_rdma_posts)
  then show ?thesis
    using assms(2,3) get_cmd_queue_with [OF assms(2,3)] wf_queues_queue_with [OF assms(2,3)]
    by (intro exI [of _ ci] exI [of _ c]) (simp add: post_rdma_write_def call_def cmd_bound_def)
qed

theorem post_rdma_write_posts_to_chunk_witness:
  "\<exists>ci c w'. ci < 16 \<and>
     post_rdma_write calm_kernel sample_request 1 sample_chunk 4096 512 ready_client = Inr (0, w') \<and>
     calls w' = [IbPostRdma (rdma_sq_wr c) (rdma_sgl c)] \<and>
     wr_opcode (rdma_wr (rdma_sq_wr c)) = IB_WR_RDMA_WRITE \<and> wr_rkey (rdma_sq_wr c) = 77 \<and>
     wr_remote_addr (rdma_sq_wr c) = 0x101000 \<and> sge_length (rdma_sgl c) = 512 \<and>
     wr_id (rdma_wr (rdma_sq_wr c)) = Some (1, ci) \<and> get_cmd (session w') (1, ci) = Inr c \<and>
     io_rq c = Some sample_request \<and> wf_queues (session w')"
proof -
  have "free_slots (ready_queue 1) \<noteq> {}" "chunk_state sample_chunk = MAPPED"
    by (simp_all add: ready_queue_wf sample_simps lessThan_empty_iff)
  from post_rdma_write_posts_to_chunk [OF ready_client_wf(4,1,2) this ready_client_wf(3), of sample_request 4096 512]
  show ?thesis by (simp add: ready_queue_wf sample_simps)
qed



text \<open>
  The same for a write request, which may have any number of bios.
\<close>

theorem write_request_served_and_command_returned:
  assumes "quiet K" and "wf_queues (session w)" and "get_queue (session w) qi = Inr q"
    and "free_slots q \<noteq> {}" and "chunk_state chunk = MAPPED" and "deref_kptr (qp (session w)) = Inr ()"
    and "rq_bios rq \<noteq> []"
  shows "\<exists>r w1 wr sge w2 q2. post_rdma_write K rq qi chunk off len w = Inr (r, w1) \<and>
     calls w1 = calls w @ [IbPostRdma wr sge] \<and> rdma_write_done (wr_id (rdma_wr wr)) w1 = Inr (0, w2) \<and>
     calls w2 = calls w1 @ [BlkMqEndRequest (rq_tag rq) (rq_errors rq)] \<and>
     wf_queues (session w2) \<and> get_queue (session w2) qi = Inr q2 \<and> free_slots q2 = free_slots q"
proof -
  from assms(7) obtain b bs where "rq_bios rq = b # bs" by (cases "rq_bios rq") simp_all
  with assms(1-6) show ?thesis unfolding post_rdma_write_def by (intro post_then_done) simp_all
qed

theorem write_request_served_and_command_returned_witness:
  "\<exists>r w1 wr sge w2 q2. post_rdma_write calm_kernel sample_request 1 sample_chunk 0 4096 ready_client = Inr (r, w1) \<and>
     calls w1 = [IbPostRdma wr sge] \<and> rdma_write_done (wr_id (rdma_wr wr)) w1 = Inr (0, w2) \<and>
     calls w2 = calls w1 @ [BlkMqEndRequest 3 0] \<and>
     wf_queues (session w2) \<and> get_queue (session w2) 1 = Inr q2 \<and> free_slots q2 = {..<16}"
proof -
  have "free_slots (ready_queue 1) \<noteq> {}" "chunk_state sample_chunk = MAPPED"
    by (simp_all add: ready_queue_wf sample_simps lessThan_empty_iff)
  from write_request_served_and_command_returned [OF ready_client_wf(4,1,2) this ready_client_wf(3),
      of sample_request 0 4096]
  show ?thesis by (simp add: ready_queue_wf sample_simps)
qed

text \<open>Write requests submitted one after the other, whatever each submission returned.\<close>

fun submit_all :: "kernel \<Rightarrow> nat \<Rightarrow> remote_mapping_chunk \<Rightarrow> request list \<Rightarrow> client \<Rightarrow> (int list \<times> client) res" where
  "submit_all K qi chunk [] w = Inr ([], w)"
| "submit_all K qi chunk (rq # rqs) w =
     res_bind (post_rdma_write K rq qi chunk 0 (ucast (rq_bytes rq)) w) (\<lambda>(r, w).
       res_bind (submit_all K qi chunk rqs w) (\<lambda>(rs, w). Inr (r # rs, w)))"

lemma submit_all_takes:
  assumes "quiet K" and "chunk_state chunk = MAPPED"
    and "wf_queues (session w)" and "get_queue (session w) qi = Inr q"
    and "length rqs \<le> card (free_slots q)" and "deref_kptr (qp (session w)) = Inr ()"
  shows "\<exists>rs w' q'. submit_all K qi chunk rqs w = Inr (rs, w') \<and> wf_queues (session w') \<and>
     get_queue (session w') qi = Inr q' \<and> card (free_slots q') = card (free_slots q) - length rqs \<and>
     length (calls w') = length (calls w) + length rqs"
  using assms(3-)
proof (induction rqs arbitrary: w q)
  case Nil
  then show ?case by simp
next
  case (Cons rq rqs)
  from Cons.prems(3) have "free_slots q \<noteq> {}" by auto
  with assms(1,2) Cons.prems obtain ci c where ci: "ci \<in> free_slots q" "ci < 16"
      and c: "free_state c = 0" "cmd_bound (qi, ci) c"
      and post: "post_rdma K IB_WR_RDMA_WRITE rq qi chunk 0 (ucast (rq_bytes rq)) w = Inr (call K
        (IbPostRdma (rdma_sq_wr c) (rdma_sgl c)) (upd_session (set_queue qi (queue_with ci c q)) w))"
    by (metis post_rdma_posts)
  let ?w = "snd (call K (IbPostRdma (rdma_sq_wr c) (rdma_sgl c)) (upd_session (set_queue qi (queue_with ci c q)) w))"
  have s: "session ?w = set_queue qi (queue_with ci c q) (session w)" by (simp add: call_def)
  have wfq: "wf_queue q" using Cons.prems(1,2) by (rule wf_queues_get)
  have fs: "free_slots (queue_with ci c q) = free_slots q - {ci}"
    using queue_with_free [OF wfq ci(2), of c] c(1) by simp
  then have card: "card (free_slots (queue_with ci c q)) = card (free_slots q) - 1"
    using ci(1) by (simp add: card_Diff_singleton)
  have "\<exists>rs w' q'. submit_all K qi chunk rqs ?w = Inr (rs, w') \<and> wf_queues (session w') \<and>
     get_queue (session w') qi = Inr q' \<and>
     card (free_slots q') = card (free_slots (queue_with ci c q)) - length rqs \<and>
     length (calls w') = length (calls ?w) + length rqs"
    using Cons.prems wf_queues_queue_with [OF Cons.prems(1,2) c(2)]
    by (intro Cons.IH) (simp_all add: s get_queue_set_queue card)
  with post card show ?case by (auto simp: post_rdma_write_def call_def)
qed

text \<open>
  A submission that the adapter refuses keeps its command: whatever the posts return, after as
  many submissions as the queue has free commands, with no completion in between, the next
  submission never returns.
\<close>

theorem refused_posts_exhaust_queue:
  assumes "quiet K" and "chunk_state chunk = MAPPED"
    and "wf_queues (session w)" and "get_queue (session w) qi = Inr q"
    and "length rqs = card (free_slots q)" and "deref_kptr (qp (session w)) = Inr ()"
  shows "\<exists>rs w'. submit_all K qi chunk rqs w = Inr (rs, w') \<and>
     post_rdma_write K rq qi chunk off len w' = Inl Blocked"
proof -
  obtain rs w' q' where sub: "submit_all K qi chunk rqs w = Inr (rs, w')" "wf_queues (session w')"
     "get_queue (session w') qi = Inr q'" "card (free_slots q') = card (free_slots q) - length rqs"
    using submit_all_takes [OF assms(1-4) _ assms(6), of rqs] assms(5) by auto
  have "wf_queue q'" using sub(2,3) by (rule wf_queues_get)
  then have "free_slots q' = {}" using sub(4) assms(5) cmd_pool.finite_free by fastforce
  with sub assms(1,2) show ?thesis by (auto simp: post_rdma_write_def post_rdma_spins)
qed

definition refusing_kernel :: kernel where
  "refusing_kernel = calm_kernel\<lparr>k_ret := (\<lambda>_ _. - 12)\<rparr>"

theorem refused_posts_exhaust_queue_witness:
  "\<exists>rs w'. submit_all refusing_kernel 1 sample_chunk (replicate 16 sample_request) ready_client = Inr (rs, w') \<and>
     post_rdma_write refusing_kernel sample_request 1 sample_chunk 0 4096 w' = Inl Blocked"
proof (rule refused_posts_exhaust_queue)
  show "quiet refusing_kernel" using ready_client_wf(4) by (simp add: refusing_kernel_def quiet_def)
  show "length (replicate 16 sample_request) = card (free_slots (ready_queue 1))" by (simp add: ready_queue_wf)
qed (rule ready_client_wf sample_simps)+

text \<open>
  The completion of a read whose request has more than one bio (the first bio does not hold
  all of the request's segments) is refused: the block layer is never told, and the command
  stays taken with the request in it.
\<close>

theorem multi_bio_read_is_never_completed:
  assumes "get_cmd (session w) a = Inr c" and "io_rq c = Some rq" and "rq_bios rq = b # bs"
    and "ucast (rq_nr_phys_segments rq) \<noteq> bi_phys_segments b"
  shows "rdma_read_done (Some a) w = Inr (- 1, w)"
  using assms by (simp add: rdma_read_done_def first_bio_def)

theorem multi_bio_read_is_never_completed_witness:
  "\<exists>rq w. rdma_read_done (Some (0, 3)) w = Inr (- 1, w) \<and> rq_nr_phys_segments rq = 2 \<and>
     get_cmd (session w) (0, 3) = Inr ((ready_cmd 0 3)\<lparr>io_rq := Some rq, free_state := 0\<rparr>)"
proof -
  let ?rq = "sample_request\<lparr>rq_nr_phys_segments := 2\<rparr>"
  let ?c = "(ready_cmd 0 3)\<lparr>io_rq := Some ?rq, free_state := 0\<rparr>"
  let ?w = "upd_session (set_cmd (0, 3) ?c) ready_client"
  have cmd: "get_cmd (session ?w) (0, 3) = Inr ?c"
    by (simp add: ready_client_def ready_queue_def set_cmd_def get_cmd_def get_queue_def del: upt_rec_numeral)
  have "rdma_read_done (Some (0, 3)) ?w = Inr (- 1, ?w)"
    by (rule multi_bio_read_is_never_completed [OF cmd, where rq = ?rq and b = "hd (rq_bios ?rq)" and bs = "[]"])
      (simp_all add: sample_request_def)
  with cmd show ?thesis by (intro exI [of _ ?rq] exI [of _ ?w]) simp
qed

text \<open>
  The copy routine, when the bios of a request together hold exactly its segments and fit the
  command's buffer, places their pages one after the other at the start of the buffer and leaves
  the rest of the buffer alone.
\<close>

theorem copy_data_to_rdma_buf_concatenates:
  assumes "rdma_buf c = Some buf" and "\<forall>b \<in> set (rq_bios rq). bio_full b"
    and "length (concat (map bi_pages (rq_bios rq))) = unat (rq_nr_phys_segments rq)"
    and "unat (rq_nr_phys_segments rq) \<le> length buf"
  shows "copy_data_to_rdma_buf rq c = Inr (c\<lparr>rdma_buf :=
     Some (concat (map bi_pages (rq_bios rq)) @ drop (unat (rq_nr_phys_segments rq)) buf)\<rparr>)"
proof -
  have u: "unat (ucast (rq_nr_phys_segments rq) :: u32) = unat (rq_nr_phys_segments rq)"
    by (simp add: unsigned_ucast_eq take_bit_nat_eq_self unat_bound order_less_trans [OF unat_bound])
  have "copy_bios (ucast (rq_nr_phys_segments rq)) 0 (rq_bios rq) buf =
      Inr (concat (map bi_pages (rq_bios rq)) @ drop (unat (rq_nr_phys_segments rq)) buf)"
    using copy_bios_concat [OF assms(2), of 0 "ucast (rq_nr_phys_segments rq)" buf] assms(3,4) by (simp add: u)
  moreover have "c = c\<lparr>rdma_buf := Some buf\<rparr>" using assms(1) by simp
  ultimately show ?thesis using assms(1,3) by (auto simp: copy_data_to_rdma_buf_def)
qed

theorem copy_data_to_rdma_buf_concatenates_witness:
  "copy_data_to_rdma_buf sample_request (ready_cmd 0 0) =
     Inr ((ready_cmd 0 0)\<lparr>rdma_buf := Some (zero_page # replicate 63 zero_page)\<rparr>)"
  using copy_data_to_rdma_buf_concatenates [of "ready_cmd 0 0" "replicate 64 zero_page" sample_request]
  by (simp add: ready_cmd_def sample_request_def bio_full_def MAX_REQUEST_SGL_def)



text \<open>
  A message of the wrong length, one that arrives before the connection is established, and
  one of a kind the client does not expect are refused and change nothing.
\<close>

theorem handle_recv_wr_refuses:
  assumes "recv_buf (session w) = Some m"
    and "wc_byte_len wc \<noteq> sizeof_message \<or> state (session w) < CONNECTED \<or>
         msg_type m \<notin> message_type_code ` {FREE_SIZE, GOT_CHUNKS, GOT_SINGLE_CHUNK, EVICT, STOP}"
  shows "handle_recv_wr K wc w = Inr (- 1, w)"
  using assms(2)
proof (elim disjE)
  assume "msg_type m \<notin> message_type_code ` {FREE_SIZE, GOT_CHUNKS, GOT_SINGLE_CHUNK, EVICT, STOP}"
  with assms(1) show ?thesis by (simp add: handle_recv_wr_def)
qed (simp_all add: handle_recv_wr_def)

theorem handle_recv_wr_refuses_witness:
  "handle_recv_wr calm_kernel \<lparr>wc_status = 0, wc_opcode = IB_WC_RECV, wc_wr_id = None, wc_byte_len = 100,
       wc_payload = zero_message\<rparr> two_chunk_client = Inr (- 1, two_chunk_client)"
proof (rule handle_recv_wr_refuses)
  show "recv_buf (session two_chunk_client) = Some zero_message" by (simp add: two_chunk_client_def)
qed (rule disjI1, simp add: sizeof_message_def MAX_CHUNKS_def)

end
