(* ===== verification/Client_Disk.thy ===== *)
theory Client_Disk
  imports Client_Rdma
begin

text \<open>
  The block device of the client (\<^verbatim>\<open>register_disk.c\<close>): the translation of a block request into
  a one-sided message on one chunk of remote memory, the dispatch functions of the block layer,
  and the life of the device. The arithmetic of the translation is an interface of its own, the
  locale \<open>chunked_space\<close>: an address is a chunk and an offset in it.
\<close>

section \<open>From a request to a message\<close>

definition BLK_MQ_RQ_QUEUE_OK :: int where "BLK_MQ_RQ_QUEUE_OK = 0"
definition ENOTTY :: int where "ENOTTY = 25"
definition ENOMEM :: int where "ENOMEM = 12"

definition start_addr :: "request \<Rightarrow> u64" where
  "start_addr rq = push_bit RMEM_LOGICAL_SECT_SHIFT (rq_pos rq)"

definition chunk_index :: "u64 \<Rightarrow> u32" where
  "chunk_index a = ucast (drop_bit CHUNK_SHIFT a)"

definition offset_within_chunk :: "u64 \<Rightarrow> u64" where
  "offset_within_chunk a = a AND CHUNK_MASK"

text \<open>
  The length to transfer. A request that ends in another chunk than it starts in gets its length
  reset to the size of its segments, and is refused when that length does not fit either.
\<close>

definition transfer_len :: "request \<Rightarrow> u64 option" where
  "transfer_len rq =
     (let bytes_len = ucast (rq_bytes rq);
          start_chunk_index = chunk_index (start_addr rq);
          end_chunk_index = chunk_index (start_addr rq + bytes_len - 1)
      in if start_chunk_index \<noteq> end_chunk_index
         then let bytes_len = ucast (rq_nr_phys_segments rq) * PAGE_SIZE;
                  end_chunk_index = chunk_index (start_addr rq + bytes_len)
              in if start_chunk_index \<noteq> end_chunk_index then None else Some bytes_len
         else Some bytes_len)"

text \<open>\<open>rdma_q\<close> is the dispatch queue's driver data: the index of its RDMA queue, or null.\<close>

definition transfer_requet_to_rdma_message :: "kernel \<Rightarrow> nat option \<Rightarrow> request \<Rightarrow> client \<Rightarrow> (int \<times> client) res" where
  "transfer_requet_to_rdma_message K rdma_q rq w =
     res_bind (deref rdma_q) (\<lambda>qi.
     res_bind (get_queue (session w) qi) (\<lambda>q.
       case transfer_len rq of
         None \<Rightarrow> Inr (- 1, w)
       | Some bytes_len \<Rightarrow>
           if \<not> q_session q then Inl NullDeref
           else res_bind (deref (remote_chunk (remote_chunk_list (session w)))) (\<lambda>cs.
                res_bind (array_get cs (unat (chunk_index (start_addr rq)))) (\<lambda>chunk.
                  let w = call_void (BlkMqStartRequest (rq_tag rq)) (count_op w)
                  in if rq_write rq
                     then post_rdma_write K rq qi chunk (offset_within_chunk (start_addr rq)) bytes_len w
                     else post_rdma_read K rq qi chunk (offset_within_chunk (start_addr rq)) bytes_len w))))"

definition rmem_queue_rq :: "kernel \<Rightarrow> nat option \<Rightarrow> request \<Rightarrow> client \<Rightarrow> (int \<times> client) res" where
  "rmem_queue_rq K driver_data rq w =
     res_bind (first_bio rq) (\<lambda>_.
       let (cpu, w) = call K GetCpu w
       in res_bind (transfer_requet_to_rdma_message K driver_data rq w) (\<lambda>(itnernal_ret, w).
            if itnernal_ret \<noteq> 0 then Inr (- 1, w)
            else let w = call_void PutCpu w in Inr (BLK_MQ_RQ_QUEUE_OK, w)))"

text \<open>
  The initialisation of dispatch queue \<open>hw_index\<close>: the result, and the driver data the dispatch
  queue gets, which stays null on the error path.
\<close>

definition rmem_init_hctx :: "nat \<Rightarrow> client \<Rightarrow> (int \<times> nat option \<times> client) res" where
  "rmem_init_hctx hw_index w =
     (if \<not> rdma_session (dev w) then Inl NullDeref
      else case rmem_rdma_queue_list (session w) of
        None \<Rightarrow> Inr (0, None, w)
      | Some qs \<Rightarrow> res_bind (array_get qs hw_index) (\<lambda>q.
          let q = q\<lparr>q_index := of_nat hw_index\<rparr>;
              w = upd_session (set_queue hw_index q) w
          in if rdma_queue_depth q \<noteq> queue_depth (dev w) then Inr (0, None, w)
             else Inr (0, Some hw_index, w)))"

definition rmem_end_io :: "bio \<Rightarrow> int \<Rightarrow> int" where
  "rmem_end_io b err = err"

definition rmem_dev_open :: int where "rmem_dev_open = 0"
definition rmem_dev_media_changed :: int where "rmem_dev_media_changed = 0"
definition rmem_dev_revalidate :: int where "rmem_dev_revalidate = 0"
definition rmem_dev_ioctl :: int where "rmem_dev_ioctl = - ENOTTY"
definition rmem_getgeo :: int where "rmem_getgeo = - ENOTTY"

section \<open>The life of the device\<close>

text \<open>
  There is one device control structure, a global of the module; where a function takes a pointer
  to it, the argument \<open>ctrl\<close> says whether that pointer is valid (it is null otherwise).
\<close>

definition upd_dev :: "(rmem_device_control \<Rightarrow> rmem_device_control) \<Rightarrow> client \<Rightarrow> client" where
  "upd_dev f w = w\<lparr>dev := f (dev w)\<rparr>"

definition init_blk_mq_tag_set :: "kernel \<Rightarrow> client \<Rightarrow> int \<times> client" where
  "init_blk_mq_tag_set K w =
     (let w = upd_dev (\<lambda>d. d\<lparr>tag_set := \<lparr>ts_ops = True, ts_nr_hw_queues = nr_queues d,
                ts_queue_depth = queue_depth d, ts_driver_data = True\<rparr>\<rparr>) w
      in call K (BlkMqAllocTagSet (tag_set (dev w))) w)"

definition init_blk_mq_queue :: "kernel \<Rightarrow> client \<Rightarrow> (int \<times> client) res" where
  "init_blk_mq_queue K w =
     (let (q, w) = call K BlkMqInitQueue w;
          w = upd_dev (\<lambda>d. d\<lparr>queue := q\<rparr>) w
      in if IS_ERR q then Inr (q, w)
         else if q = 0 then Inl NullDeref
         else let w = call_void (BlkQueueLogicalBlockSize RMEM_LOGICAL_SECT_SIZE) w;
                  w = call_void (BlkQueuePhysicalBlockSize RMEM_PHY_SECT_SIZE) w;
                  w = call_void (BlkQueueMaxHwSectors RMEM_QUEUE_MAX_SECT_SIZE) w
              in Inr (0, w))"

definition init_gendisk :: "kernel \<Rightarrow> client \<Rightarrow> int \<times> client" where
  "init_gendisk K w =
     (let (d, w) = call K AllocDiskNode w;
          w = upd_dev (\<lambda>c. c\<lparr>disk := d\<rparr>) w
      in if d = 0 then (- ENOMEM, call_void (DelGendisk d) w)
         else let w = call_void (SetCapacity RMEM_SIZE_IN_PHY_SECT) w;
                  w = call_void (AddDisk (take DEVICE_NAME_LEN (dev_name (dev w)))) w
              in (0, w))"

text \<open>Copying characters to the start of a buffer.\<close>

definition buf_write :: "string \<Rightarrow> string \<Rightarrow> string" where
  "buf_write s buf = s @ drop (length s) buf"

definition init_rmem_device_control :: "string option \<Rightarrow> bool \<Rightarrow> client \<Rightarrow> int \<times> client" where
  "init_rmem_device_control name ctrl w =
     (if \<not> ctrl then (- 1, w)
      else (0, upd_dev (\<lambda>d. d\<lparr>
        dev_name := (case name of
            Some s \<Rightarrow> buf_write (take (if DEVICE_NAME_LEN \<le> length s then DEVICE_NAME_LEN else length s) s) (dev_name d)
          | None \<Rightarrow> buf_write (''rmempool'' @ [CHR 0x00]) (dev_name d)),
        major := rmem_major_num w, queue_depth := RMEM_QUEUE_DEPTH,
        nr_queues := word_of_int (online_cores w), dev_freed := 0\<rparr>) w))"

definition RMEM_create_device :: "kernel \<Rightarrow> string option \<Rightarrow> bool \<Rightarrow> client \<Rightarrow> (int \<times> client) res" where
  "RMEM_create_device K name ctrl w =
     (if \<not> ctrl then Inr (- 1, w)
      else let (ret, w) = init_rmem_device_control name ctrl w
      in if ret \<noteq> 0 then Inr (ret, w)
         else let (ret, w) = init_blk_mq_tag_set K w
              in if ret \<noteq> 0 then Inr (ret, w)
                 else res_bind (init_blk_mq_queue K w) (\<lambda>(ret, w).
                   if ret \<noteq> 0 then Inr (ret, w) else Inr (init_gendisk K w)))"

definition rmem_init_disk_driver :: "kernel \<Rightarrow> bool \<Rightarrow> client \<Rightarrow> (int \<times> client) res" where
  "rmem_init_disk_driver K ctrl w =
     (let (n, w) = call K (RegisterBlkdev ''rmempool'') w;
          w = w\<lparr>rmem_major_num := n\<rparr>
      in if n < 0 then Inr (- 1, w) else RMEM_create_device K None ctrl w)"

definition octopus_free_block_devicce :: "bool \<Rightarrow> client \<Rightarrow> (int \<times> client) res" where
  "octopus_free_block_devicce ctrl w =
     (if ctrl \<and> dev_freed (dev w) \<noteq> 0 then Inr (0, w)
      else if \<not> ctrl then Inl NullDeref
      else let w = upd_dev (\<lambda>d. d\<lparr>dev_freed := 1\<rparr>) w;
               w = (if disk (dev w) \<noteq> 0 then call_void (DelGendisk (disk (dev w))) w else w);
               w = (if queue (dev w) \<noteq> 0 then call_void (BlkCleanupQueue (queue (dev w))) w else w);
               w = call_void BlkMqFreeTagSet w;
               w = (if disk (dev w) \<noteq> 0 then call_void (PutDisk (disk (dev w))) w else w);
               w = call_void (UnregisterBlkdev (major (dev w)) (c_string (dev_name (dev w)))) w
           in Inr (0, w))"

section \<open>Chunked address spaces\<close>

text \<open>
  An address space cut into chunks of one size: every address is a chunk number and an offset.
  The contract is what the translation needs: the two parts determine the address, and the
  offset stays inside a chunk.
\<close>

locale chunked_space =
  fixes chunk_of :: "'a::len word \<Rightarrow> nat"
    and offset_of :: "'a word \<Rightarrow> 'a word"
    and size :: nat
  assumes split_address: "unat a = chunk_of a * size + unat (offset_of a)"
    and offset_inside: "unat (offset_of a) < size"
begin

lemma address_unique: "chunk_of a = chunk_of b \<Longrightarrow> offset_of a = offset_of b \<Longrightarrow> a = b"
  by (simp add: word_unat_eq_iff split_address [of a] split_address [of b])

lemma chunk_of_eq_div: "chunk_of a = unat a div size"
  using split_address [of a] offset_inside [of a] by simp

lemma range_inside_chunk:
  assumes "unat a + m < 2 ^ LENGTH('a)" and "chunk_of (a + of_nat m) = chunk_of a"
  shows "unat (offset_of a) + m < size"
proof -
  have "unat (of_nat m :: 'a word) = m" using assms(1) by (simp add: unat_of_nat)
  then have "unat (a + of_nat m) = unat a + m"
    using assms(1) by (subst unat_add_no_overflow) simp_all
  then have "unat (offset_of (a + of_nat m)) = unat (offset_of a) + m"
    using split_address [of a] split_address [of "a + of_nat m"] assms(2) by simp
  with offset_inside [of "a + of_nat m"] show ?thesis by simp
qed

text \<open>Ranges that do not meet in the address space do not meet in their chunks either.\<close>

lemma disjoint_in_chunk:
  assumes "unat a + n \<le> unat b" and "chunk_of a = chunk_of b"
  shows "unat (offset_of a) + n \<le> unat (offset_of b)"
  using assms split_address [of a] split_address [of b] by simp

end

interpretation remote_space: chunked_space "\<lambda>a :: u64. unat (drop_bit CHUNK_SHIFT a)" offset_within_chunk "2 ^ 30"
  by unfold_locales
    (simp_all add: offset_within_chunk_def CHUNK_MASK_eq unat_and_mask unat_drop_bit)

section \<open>The translation on the device's sectors\<close>

lemma same_quotient_less:
  fixes a m n c :: nat
  assumes "a div c = (a + m) div c" and "a div c \<noteq> (a + n) div c"
  shows "m < n"
proof (rule ccontr)
  assume "\<not> m < n"
  then have "(a + n) div c \<le> (a + m) div c" by (intro div_le_mono) simp
  moreover have "a div c \<le> (a + n) div c" by (rule div_le_mono) simp
  ultimately show False using assms by simp
qed

lemma capacity_eq: "unat RMEM_SIZE_IN_PHY_SECT = 2 ^ 26"
  by (simp add: RMEM_SIZE_IN_PHY_SECT_def RMEM_PHY_SECT_SIZE_def MAX_REMOTE_MEMORY_SIZE_GB_def)

text \<open>A request the block layer may submit: not empty, and inside the device.\<close>

definition rq_in_device :: "request \<Rightarrow> bool" where
  "rq_in_device rq \<longleftrightarrow> 0 < unat (rq_bytes rq) \<and>
     unat (rq_pos rq) * 512 + unat (rq_bytes rq) \<le> unat RMEM_SIZE_IN_PHY_SECT * 512"

lemma start_addr_in_device:
  assumes "rq_in_device rq"
  shows "unat (start_addr rq) = unat (rq_pos rq) * 512"
proof -
  from assms have "unat (rq_pos rq) * 512 < 2 ^ 64" by (simp add: rq_in_device_def capacity_eq)
  then have "unat (push_bit 9 (rq_pos rq)) = unat (rq_pos rq) * 2 ^ 9"
    by (intro unat_push_bit_no_overflow) simp
  then show ?thesis by (simp add: start_addr_def)
qed

lemma chunk_index_no_wrap:
  assumes "unat a < 2 ^ 35"
  shows "unat (chunk_index a) = unat a div 2 ^ 30" and "unat (chunk_index a) < 32"
proof -
  have lt: "unat a div 2 ^ 30 < 32" using assms by simp
  then have "unat (drop_bit CHUNK_SHIFT a) < 2 ^ 32" by (simp add: unat_drop_bit)
  then show eq: "unat (chunk_index a) = unat a div 2 ^ 30"
    by (simp add: chunk_index_def unsigned_ucast_eq take_bit_nat_eq_self unat_drop_bit)
  show "unat (chunk_index a) < 32" using lt by (simp add: eq)
qed

lemma unat_rq_bytes: "unat (ucast (rq_bytes rq) :: u64) = unat (rq_bytes rq)"
  using unat_bound [of "rq_bytes rq"] by (simp add: unsigned_ucast_eq take_bit_nat_eq_self)

text \<open>The distance from a request's first byte to its last.\<close>

definition last_byte :: "request \<Rightarrow> nat" where
  "last_byte rq = unat (rq_bytes rq) - 1"

lemma rq_in_device_last:
  assumes "rq_in_device rq"
  shows "unat (rq_bytes rq) = Suc (last_byte rq)" and "unat (rq_pos rq) * 512 + last_byte rq < 2 ^ 35"
  using assms by (auto simp: rq_in_device_def last_byte_def capacity_eq)

lemma last_addr_in_device:
  assumes "rq_in_device rq"
  shows "start_addr rq + ucast (rq_bytes rq) - 1 = start_addr rq + of_nat (last_byte rq)"
    and "unat (start_addr rq + of_nat (last_byte rq)) = unat (rq_pos rq) * 512 + last_byte rq"
proof -
  have lt: "unat (rq_bytes rq) < 2 ^ 32" using unat_bound [of "rq_bytes rq"] by simp
  then have "unat (of_nat (Suc (last_byte rq)) :: u64) = unat (rq_bytes rq)"
    using rq_in_device_last(1) [OF assms] by (simp add: unat_of_nat del: of_nat_Suc)
  then have "(ucast (rq_bytes rq) :: u64) = of_nat (Suc (last_byte rq))"
    by (simp add: unat_rq_bytes word_unat_eq_iff del: of_nat_Suc)
  then show "start_addr rq + ucast (rq_bytes rq) - 1 = start_addr rq + of_nat (last_byte rq)" by simp
  have "unat (of_nat (last_byte rq) :: u64) = last_byte rq"
    using lt rq_in_device_last(1) [OF assms] by (simp add: unat_of_nat)
  then show "unat (start_addr rq + of_nat (last_byte rq)) = unat (rq_pos rq) * 512 + last_byte rq"
    using assms rq_in_device_last(2) [OF assms]
    by (subst unat_add_no_overflow) (simp_all add: start_addr_in_device)
qed

definition rq_in_one_chunk :: "request \<Rightarrow> bool" where
  "rq_in_one_chunk rq \<longleftrightarrow>
     unat (rq_pos rq) * 512 div 2 ^ 30 = (unat (rq_pos rq) * 512 + last_byte rq) div 2 ^ 30"

lemma chunk_indices_in_device:
  assumes "rq_in_device rq"
  shows "unat (chunk_index (start_addr rq)) = unat (rq_pos rq) * 512 div 2 ^ 30"
    and "unat (chunk_index (start_addr rq)) < 32"
    and "unat (chunk_index (start_addr rq + ucast (rq_bytes rq) - 1)) =
           (unat (rq_pos rq) * 512 + last_byte rq) div 2 ^ 30"
proof -
  from assms have "unat (start_addr rq) < 2 ^ 35"
    by (simp add: start_addr_in_device) (simp add: rq_in_device_def capacity_eq)
  from chunk_index_no_wrap [OF this] show "unat (chunk_index (start_addr rq)) = unat (rq_pos rq) * 512 div 2 ^ 30"
      "unat (chunk_index (start_addr rq)) < 32"
    using assms by (simp_all add: start_addr_in_device)
  from assms have "unat (start_addr rq + ucast (rq_bytes rq) - 1) < 2 ^ 35"
    using rq_in_device_last(2) [OF assms] by (simp add: last_addr_in_device(1)) (simp add: last_addr_in_device(2))
  from chunk_index_no_wrap(1) [OF this]
  show "unat (chunk_index (start_addr rq + ucast (rq_bytes rq) - 1)) =
      (unat (rq_pos rq) * 512 + last_byte rq) div 2 ^ 30"
    using assms by (simp add: last_addr_in_device(1)) (simp add: last_addr_in_device(2))
qed

lemma same_chunk_iff:
  "rq_in_device rq \<Longrightarrow>
     chunk_index (start_addr rq) = chunk_index (start_addr rq + ucast (rq_bytes rq) - 1) \<longleftrightarrow> rq_in_one_chunk rq"
  by (simp add: word_unat_eq_iff chunk_indices_in_device rq_in_one_chunk_def)

lemma unat_offset: "unat (offset_within_chunk a) = unat a mod 2 ^ 30"
  by (simp add: offset_within_chunk_def CHUNK_MASK_eq unat_and_mask)

lemma transfer_len_one_chunk:
  assumes "rq_in_device rq" and "rq_in_one_chunk rq"
  shows "transfer_len rq = Some (ucast (rq_bytes rq))"
    and "unat (offset_within_chunk (start_addr rq)) + unat (rq_bytes rq) \<le> 2 ^ 30"
proof -
  show "transfer_len rq = Some (ucast (rq_bytes rq))"
    using assms by (simp add: transfer_len_def same_chunk_iff)
  have "unat (offset_within_chunk (start_addr rq)) + last_byte rq < 2 ^ 30"
  proof (rule remote_space.range_inside_chunk)
    show "unat (start_addr rq) + last_byte rq < 2 ^ LENGTH(64)"
      using assms(1) rq_in_device_last(2) [OF assms(1)] by (simp add: start_addr_in_device)
    show "unat (drop_bit CHUNK_SHIFT (start_addr rq + of_nat (last_byte rq))) = unat (drop_bit CHUNK_SHIFT (start_addr rq))"
      using assms(2) unfolding unat_drop_bit last_addr_in_device(2) [OF assms(1)] start_addr_in_device [OF assms(1)]
      by (simp add: rq_in_one_chunk_def)
  qed
  then show "unat (offset_within_chunk (start_addr rq)) + unat (rq_bytes rq) \<le> 2 ^ 30"
    using rq_in_device_last(1) [OF assms(1)] by simp
qed

text \<open>The message a request in one chunk becomes, whichever direction it has.\<close>

lemma transfer_posts:
  assumes K: "quiet K" and wf: "wf_queues (session w)" and q: "get_queue (session w) qi = Inr q" "q_session q"
    and free: "free_slots q \<noteq> {}" and qp: "deref_kptr (qp (session w)) = Inr ()"
    and rq: "rq_in_device rq" "rq_in_one_chunk rq"
    and cs: "remote_chunk (remote_chunk_list (session w)) = Some cs"
      "unat (rq_pos rq) * 512 div 2 ^ 30 < length cs"
      "chunk_state (cs ! (unat (rq_pos rq) * 512 div 2 ^ 30)) = MAPPED"
  shows "\<exists>ci c w'. ci \<in> free_slots q \<and>
     transfer_requet_to_rdma_message K (Some qi) rq w =
       Inr (k_ret K (calls w @ [BlkMqStartRequest (rq_tag rq)]) (IbPostRdma (rdma_sq_wr c) (rdma_sgl c)), w') \<and>
     calls w' = calls w @ [BlkMqStartRequest (rq_tag rq), IbPostRdma (rdma_sq_wr c) (rdma_sgl c)] \<and>
     wr_opcode (rdma_wr (rdma_sq_wr c)) = (if rq_write rq then IB_WR_RDMA_WRITE else IB_WR_RDMA_READ) \<and>
     wr_rkey (rdma_sq_wr c) = remote_rkey (cs ! (unat (rq_pos rq) * 512 div 2 ^ 30)) \<and>
     wr_remote_addr (rdma_sq_wr c) = remote_addr (cs ! (unat (rq_pos rq) * 512 div 2 ^ 30))
       + of_nat (unat (rq_pos rq) * 512 mod 2 ^ 30) \<and>
     sge_length (rdma_sgl c) = rq_bytes rq \<and> wr_id (rdma_wr (rdma_sq_wr c)) = Some (qi, ci) \<and>
     get_cmd (session w') (qi, ci) = Inr c \<and> io_rq c = Some rq"
proof -
  let ?i = "unat (rq_pos rq) * 512 div 2 ^ 30" and ?w = "call_void (BlkMqStartRequest (rq_tag rq)) (count_op w)"
  let ?op = "if rq_write rq then IB_WR_RDMA_WRITE else IB_WR_RDMA_READ"
  have s: "session ?w = session w" "calls ?w = calls w @ [BlkMqStartRequest (rq_tag rq)]"
    by (simp_all add: count_op_def)
  have off: "offset_within_chunk (start_addr rq) = of_nat (unat (rq_pos rq) * 512 mod 2 ^ 30)"
    using rq(1) by (simp add: word_unat_eq_iff unat_offset start_addr_in_device unat_of_nat)
  obtain ci c where ci: "ci \<in> free_slots q" "ci < 16" and c: "io_rq c = Some rq" "cmd_bound (qi, ci) c"
    "wr_rkey (rdma_sq_wr c) = remote_rkey (cs ! ?i)"
    "wr_remote_addr (rdma_sq_wr c) = remote_addr (cs ! ?i) + offset_within_chunk (start_addr rq)"
    "wr_opcode (rdma_wr (rdma_sq_wr c)) = ?op" "sge_length (rdma_sgl c) = ucast (ucast (rq_bytes rq) :: u64)"
    and post: "post_rdma K ?op rq qi (cs ! ?i) (offset_within_chunk (start_addr rq)) (ucast (rq_bytes rq)) ?w =
       Inr (call K (IbPostRdma (rdma_sq_wr c) (rdma_sgl c)) (upd_session (set_queue qi (queue_with ci c q)) ?w))"
    using K wf [folded s(1)] q(1) [folded s(1)] free cs(3) qp [folded s(1)] by (rule post_rdma_posts)
  have "transfer_requet_to_rdma_message K (Some qi) rq w =
      post_rdma K ?op rq qi (cs ! ?i) (offset_within_chunk (start_addr rq)) (ucast (rq_bytes rq)) ?w"
    using q cs rq by (simp add: transfer_requet_to_rdma_message_def transfer_len_one_chunk chunk_indices_in_device
        post_rdma_write_def post_rdma_read_def)
  note tr = this [unfolded post]
  have "(ucast (ucast (rq_bytes rq) :: u64) :: u32) = rq_bytes rq"
    by (rule bit_word_eqI) (simp add: bit_simps)
  then show ?thesis
    using ci c get_cmd_queue_with [OF wf q(1) ci(2)]
    by (intro exI [of _ ci] exI [of _ c]) (simp add: tr call_def s cmd_bound_def off count_op_def)
qed

text \<open>The bytes of remote memory a request in one chunk touches.\<close>

definition remote_bytes :: "remote_mapping_chunk list \<Rightarrow> request \<Rightarrow> nat set" where
  "remote_bytes cs rq =
     (let a = unat (remote_addr (cs ! unat (chunk_index (start_addr rq)))) + unat (offset_within_chunk (start_addr rq))
      in {a..<a + unat (rq_bytes rq)})"

definition chunk_region :: "remote_mapping_chunk \<Rightarrow> nat set" where
  "chunk_region c = {unat (remote_addr c)..<unat (remote_addr c) + 2 ^ 30}"

lemma remote_bytes_in_chunk:
  assumes "rq_in_device rq" and "rq_in_one_chunk rq"
  shows "remote_bytes cs rq \<subseteq> chunk_region (cs ! unat (chunk_index (start_addr rq)))"
  using transfer_len_one_chunk(2) [OF assms] by (auto simp: remote_bytes_def chunk_region_def Let_def)

section \<open>Properties\<close>

definition mapped_client :: client where
  "mapped_client = upd_session (\<lambda>s. s\<lparr>remote_chunk_list := \<lparr>remote_chunk = Some
     [\<lparr>remote_rkey = 1, remote_addr = 0x40000000, chunk_state = MAPPED\<rparr>,
      \<lparr>remote_rkey = 2, remote_addr = 0x90000000, chunk_state = MAPPED\<rparr>],
     remote_free_size_gb = 2, chunk_num = 2, chunk_ptr = 2\<rparr>\<rparr>) ready_client"

lemma mapped_client_wf:
  "wf_queues (session mapped_client)" "get_queue (session mapped_client) 1 = Inr (ready_queue 1)"
  "deref_kptr (qp (session mapped_client)) = Inr ()" "q_session (ready_queue 1)" "calls mapped_client = []"
  using ready_client_wf
  by (simp_all add: mapped_client_def wf_queues_def get_queue_def ready_queue_def sample_simps)

text \<open>
  C5. A block request that lies in the device and in one chunk becomes exactly one one-sided
  message: it reads or writes as the request does, on the chunk that holds the request's sectors,
  at the offset of its first sector in that chunk, for the request's length, which stays inside
  the chunk; the request is started before the message is posted, and the command the message
  names holds it.
\<close>

theorem transfer_reaches_the_requests_sectors:
  assumes "quiet K" and "wf_queues (session w)" and "get_queue (session w) qi = Inr q" and "q_session q"
    and "free_slots q \<noteq> {}" and "deref_kptr (qp (session w)) = Inr ()"
    and "rq_in_device rq" and "rq_in_one_chunk rq"
    and "remote_chunk (remote_chunk_list (session w)) = Some cs"
    and "unat (rq_pos rq) * 512 div 2 ^ 30 < length cs"
    and "chunk_state (cs ! (unat (rq_pos rq) * 512 div 2 ^ 30)) = MAPPED"
  shows "(\<exists>ci c w'. ci \<in> free_slots q \<and>
     transfer_requet_to_rdma_message K (Some qi) rq w =
       Inr (k_ret K (calls w @ [BlkMqStartRequest (rq_tag rq)]) (IbPostRdma (rdma_sq_wr c) (rdma_sgl c)), w') \<and>
     calls w' = calls w @ [BlkMqStartRequest (rq_tag rq), IbPostRdma (rdma_sq_wr c) (rdma_sgl c)] \<and>
     wr_opcode (rdma_wr (rdma_sq_wr c)) = (if rq_write rq then IB_WR_RDMA_WRITE else IB_WR_RDMA_READ) \<and>
     wr_rkey (rdma_sq_wr c) = remote_rkey (cs ! (unat (rq_pos rq) * 512 div 2 ^ 30)) \<and>
     wr_remote_addr (rdma_sq_wr c) = remote_addr (cs ! (unat (rq_pos rq) * 512 div 2 ^ 30))
       + of_nat (unat (rq_pos rq) * 512 mod 2 ^ 30) \<and>
     sge_length (rdma_sgl c) = rq_bytes rq \<and> wr_id (rdma_wr (rdma_sq_wr c)) = Some (qi, ci) \<and>
     get_cmd (session w') (qi, ci) = Inr c \<and> io_rq c = Some rq) \<and>
    unat (rq_pos rq) * 512 mod 2 ^ 30 + unat (rq_bytes rq) \<le> 2 ^ 30"
proof
  show "unat (rq_pos rq) * 512 mod 2 ^ 30 + unat (rq_bytes rq) \<le> 2 ^ 30"
    using transfer_len_one_chunk(2) [OF assms(7,8)] by (simp only: unat_offset start_addr_in_device [OF assms(7)])
qed (rule transfer_posts [OF assms])

theorem transfer_reaches_the_requests_sectors_witness:
  "\<exists>rq ci c w'. rq_pos rq = 2097160 \<and> transfer_requet_to_rdma_message calm_kernel (Some 1) rq mapped_client = Inr (0, w') \<and>
     ci < 16 \<and> get_cmd (session w') (1, ci) = Inr c \<and> wr_rkey (rdma_sq_wr c) = 2 \<and>
     wr_remote_addr (rdma_sq_wr c) = 0x90001000"
proof -
  let ?rq = "sample_request\<lparr>rq_pos := 2097160\<rparr>"
  have "free_slots (ready_queue 1) \<noteq> {}" by (simp add: ready_queue_wf lessThan_empty_iff)
  moreover have "rq_in_device ?rq" "rq_in_one_chunk ?rq"
    by (simp_all add: rq_in_device_def capacity_eq rq_in_one_chunk_def last_byte_def sample_request_def)
  moreover have "remote_chunk (remote_chunk_list (session mapped_client)) = Some
     [\<lparr>remote_rkey = 1, remote_addr = 0x40000000, chunk_state = MAPPED\<rparr>,
      \<lparr>remote_rkey = 2, remote_addr = 0x90000000, chunk_state = MAPPED\<rparr>]" (is "_ = Some ?cs")
    by (simp add: mapped_client_def)
  moreover have "unat (rq_pos ?rq) = 2097160" by simp
  ultimately show ?thesis
    using transfer_reaches_the_requests_sectors [OF ready_client_wf(4) mapped_client_wf(1,2,4) _ mapped_client_wf(3),
        of ?rq ?cs]
    by (simp add: ready_queue_wf mapped_client_wf sample_simps) (elim exE conjE bexE, intro exI [of _ ?rq] exI conjI, simp_all)
qed

text \<open>
  C6. Requests that share no byte of the device share no byte of remote memory, and each stays in
  its own chunk's region, provided the server's chunks are disjoint.
\<close>

theorem disjoint_requests_touch_disjoint_remote_bytes:
  assumes "rq_in_device rq" and "rq_in_one_chunk rq" and "rq_in_device rq'" and "rq_in_one_chunk rq'"
    and "unat (rq_pos rq) * 512 + unat (rq_bytes rq) \<le> unat (rq_pos rq') * 512"
    and "\<And>i j. i < length cs \<Longrightarrow> j < length cs \<Longrightarrow> i \<noteq> j \<Longrightarrow> chunk_region (cs ! i) \<inter> chunk_region (cs ! j) = {}"
    and "unat (chunk_index (start_addr rq)) < length cs" and "unat (chunk_index (start_addr rq')) < length cs"
  shows "remote_bytes cs rq \<inter> remote_bytes cs rq' = {}"
proof (cases "chunk_index (start_addr rq) = chunk_index (start_addr rq')")
  case False
  then have "unat (chunk_index (start_addr rq)) \<noteq> unat (chunk_index (start_addr rq'))"
    by (simp add: word_unat_eq_iff)
  with assms(6-8) remote_bytes_in_chunk [OF assms(1,2), of cs] remote_bytes_in_chunk [OF assms(3,4), of cs]
  show ?thesis by blast
next
  case True
  have "unat (drop_bit CHUNK_SHIFT (start_addr rq)) = unat (drop_bit CHUNK_SHIFT (start_addr rq'))"
    using True chunk_indices_in_device(1) [OF assms(1)] chunk_indices_in_device(1) [OF assms(3)]
    by (simp add: unat_drop_bit start_addr_in_device assms(1,3))
  moreover have "unat (start_addr rq) + unat (rq_bytes rq) \<le> unat (start_addr rq')"
    using assms(5) by (simp add: start_addr_in_device assms(1,3))
  ultimately have "unat (offset_within_chunk (start_addr rq)) + unat (rq_bytes rq) \<le> unat (offset_within_chunk (start_addr rq'))"
    by (intro remote_space.disjoint_in_chunk)
  with True show ?thesis by (auto simp: remote_bytes_def Let_def)
qed

theorem disjoint_requests_touch_disjoint_remote_bytes_witness:
  "\<exists>rq rq' cs. rq_pos rq = 8 \<and> rq_pos rq' = 16 \<and> length cs = 1 \<and> remote_bytes cs rq \<inter> remote_bytes cs rq' = {}"
proof -
  let ?rq' = "sample_request\<lparr>rq_pos := 16\<rparr>"
  have 1: "rq_in_device sample_request" "rq_in_one_chunk sample_request"
    by (simp_all add: rq_in_device_def capacity_eq rq_in_one_chunk_def last_byte_def sample_request_def)
  have 2: "rq_in_device ?rq'" "rq_in_one_chunk ?rq'"
    by (simp_all add: rq_in_device_def capacity_eq rq_in_one_chunk_def last_byte_def sample_request_def)
  have "remote_bytes [sample_chunk] sample_request \<inter> remote_bytes [sample_chunk] ?rq' = {}"
    by (rule disjoint_requests_touch_disjoint_remote_bytes [OF 1 2])
      (use chunk_indices_in_device(1) [OF 1(1)] chunk_indices_in_device(1) [OF 2(1)] in \<open>simp_all add: sample_request_def\<close>)
  then show ?thesis by (intro exI [of _ sample_request] exI [of _ ?rq'] exI [of _ "[sample_chunk]"])
      (simp add: sample_request_def)
qed

text \<open>
  A request that spans two chunks is refused without any effect when its segments do not fit
  the first chunk; otherwise it is accepted with a length smaller than the request's, so its tail
  is never transferred although the request completes as a whole.
\<close>

theorem request_across_chunks_is_refused_or_cut_short:
  assumes "rq_in_device rq" and "\<not> rq_in_one_chunk rq" and "get_queue (session w) qi = Inr q"
  shows "case transfer_len rq of
      None \<Rightarrow> transfer_requet_to_rdma_message K (Some qi) rq w = Inr (- 1, w)
    | Some len \<Rightarrow> unat len < unat (rq_bytes rq) \<and> len = ucast (rq_nr_phys_segments rq) * 4096"
proof (cases "transfer_len rq")
  case None
  with assms(3) show ?thesis by (simp add: transfer_requet_to_rdma_message_def)
next
  case (Some len)
  let ?a = "unat (rq_pos rq) * 512"
  have "chunk_index (start_addr rq) \<noteq> chunk_index (start_addr rq + ucast (rq_bytes rq) - 1)"
    using assms(1,2) by (simp add: same_chunk_iff)
  with Some have len: "len = ucast (rq_nr_phys_segments rq) * 4096"
      and same: "chunk_index (start_addr rq) = chunk_index (start_addr rq + len)"
    by (auto simp: transfer_len_def Let_def PAGE_SIZE_def split: if_splits)
  have n: "unat (ucast (rq_nr_phys_segments rq) :: u64) < 2 ^ 16"
    using unat_bound [of "rq_nr_phys_segments rq"] by (simp add: unsigned_ucast_eq take_bit_nat_eq_self)
  then have ul: "unat len < 2 ^ 28" by (simp add: len unat_word_ariths)
  have a: "unat (start_addr rq) = ?a" "?a < 2 ^ 35"
    using assms(1) rq_in_device_last(2) [OF assms(1)] by (simp_all add: start_addr_in_device)
  then have al: "unat (start_addr rq + len) = ?a + unat len"
    using ul by (subst unat_add_no_overflow) simp_all
  have "?a div 2 ^ 30 = (?a + unat len) div 2 ^ 30"
  proof -
    have "unat (drop_bit CHUNK_SHIFT (start_addr rq + len)) < 2 ^ 32"
      using al a ul by (simp add: unat_drop_bit)
    then have "unat (chunk_index (start_addr rq + len)) = (?a + unat len) div 2 ^ 30"
      by (simp add: chunk_index_def unsigned_ucast_eq take_bit_nat_eq_self unat_drop_bit al)
    with same chunk_indices_in_device(1) [OF assms(1)] show ?thesis by simp
  qed
  moreover have "?a div 2 ^ 30 \<noteq> (?a + last_byte rq) div 2 ^ 30" using assms(2) by (simp add: rq_in_one_chunk_def)
  ultimately have "unat len < last_byte rq"
    by (rule same_quotient_less)
  with rq_in_device_last(1) [OF assms(1)] len Some show ?thesis by simp
qed

definition straddling_request :: request where
  "straddling_request = sample_request\<lparr>rq_pos := 2097144, rq_bytes := 8192\<rparr>"

theorem request_across_chunks_is_refused_or_cut_short_witness:
  "transfer_requet_to_rdma_message calm_kernel (Some 1) straddling_request mapped_client = Inr (- 1, mapped_client)
   \<and> transfer_len (straddling_request\<lparr>rq_pos := 2097143\<rparr>) = Some 4096"
proof
  have "rq_in_device straddling_request" "\<not> rq_in_one_chunk straddling_request"
    by (simp_all add: rq_in_device_def capacity_eq rq_in_one_chunk_def last_byte_def straddling_request_def)
  note this mapped_client_wf(2)
  from request_across_chunks_is_refused_or_cut_short [OF this, of calm_kernel]
  show "transfer_requet_to_rdma_message calm_kernel (Some 1) straddling_request mapped_client = Inr (- 1, mapped_client)"
    by (simp add: transfer_len_def straddling_request_def sample_request_def start_addr_def chunk_index_def PAGE_SIZE_def)
  show "transfer_len (straddling_request\<lparr>rq_pos := 2097143\<rparr>) = Some 4096"
    by (simp add: transfer_len_def straddling_request_def sample_request_def start_addr_def chunk_index_def PAGE_SIZE_def)
qed

text \<open>
  The device always announces \<open>2 ^ 26\<close> sectors (32 GB), but the table of chunks has as many
  entries as the server reported free gigabytes: a request past the end of the table, still
  inside the device, makes the driver read outside the table.
\<close>

theorem request_past_the_table_reads_out_of_bounds:
  assumes "rq_in_device rq" and "rq_in_one_chunk rq" and "get_queue (session w) qi = Inr q" and "q_session q"
    and "remote_chunk (remote_chunk_list (session w)) = Some cs" and "length cs \<le> unat (rq_pos rq) * 512 div 2 ^ 30"
  shows "transfer_requet_to_rdma_message K (Some qi) rq w = Inl OutOfBounds"
proof -
  have "length cs \<le> unat (chunk_index (start_addr rq))" using assms(6) chunk_indices_in_device(1) [OF assms(1)] by simp
  with assms show ?thesis by (simp add: transfer_requet_to_rdma_message_def transfer_len_one_chunk)
qed

theorem request_past_the_table_reads_out_of_bounds_witness:
  "transfer_requet_to_rdma_message calm_kernel (Some 1) (sample_request\<lparr>rq_pos := 4194304\<rparr>) mapped_client = Inl OutOfBounds"
proof (rule request_past_the_table_reads_out_of_bounds [OF _ _ mapped_client_wf(2,4)])
  show "rq_in_device (sample_request\<lparr>rq_pos := 4194304\<rparr>)" "rq_in_one_chunk (sample_request\<lparr>rq_pos := 4194304\<rparr>)"
    by (simp_all add: rq_in_device_def capacity_eq rq_in_one_chunk_def last_byte_def sample_request_def)
  show "remote_chunk (remote_chunk_list (session mapped_client)) = Some
     [\<lparr>remote_rkey = 1, remote_addr = 0x40000000, chunk_state = MAPPED\<rparr>,
      \<lparr>remote_rkey = 2, remote_addr = 0x90000000, chunk_state = MAPPED\<rparr>]"
    by (simp add: mapped_client_def)
qed simp

text \<open>
  A dispatched request whose translation fails returns with preemption still disabled: the
  CPU taken before the translation is given back exactly when the result is \<open>BLK_MQ_RQ_QUEUE_OK\<close>.
\<close>

theorem queue_rq_keeps_cpu_on_error:
  assumes "transfer_requet_to_rdma_message K driver_data rq (snd (call K GetCpu w)) = Inr (r, w')"
    and "rq_bios rq \<noteq> []"
  shows "rmem_queue_rq K driver_data rq w =
    Inr (if r = 0 then (BLK_MQ_RQ_QUEUE_OK, call_void PutCpu w') else (- 1, w'))"
  using assms by (cases "rq_bios rq") (auto simp: rmem_queue_rq_def first_bio_def call_def)

theorem queue_rq_keeps_cpu_on_error_witness:
  "\<exists>w'. rmem_queue_rq calm_kernel (Some 1) straddling_request mapped_client = Inr (- 1, w') \<and> calls w' = [GetCpu]"
proof -
  let ?w = "snd (call calm_kernel GetCpu mapped_client)"
  have len: "transfer_len straddling_request = None"
    by (simp add: transfer_len_def straddling_request_def sample_request_def start_addr_def chunk_index_def PAGE_SIZE_def)
  have "transfer_requet_to_rdma_message calm_kernel (Some 1) straddling_request ?w = Inr (- 1, ?w)"
    using mapped_client_wf(2) by (simp add: transfer_requet_to_rdma_message_def len call_def)
  from queue_rq_keeps_cpu_on_error [OF this] show ?thesis
    by (simp add: straddling_request_def sample_simps call_def mapped_client_wf)
qed

text \<open>
  Initialising a dispatch queue binds it to the RDMA queue of the same index when the depths
  agree. When they do not, the function still reports success and leaves the dispatch queue
  without a queue, so its first request dereferences a null pointer.
\<close>

theorem init_hctx_binds_or_leaves_null:
  assumes "rdma_session (dev w)" and "wf_queues (session w)" and "get_queue (session w) i = Inr q"
    and "rq_bios rq \<noteq> []"
  shows "\<exists>d w'. rmem_init_hctx i w = Inr (0, d, w') \<and>
     get_queue (session w') i = Inr (q\<lparr>q_index := of_nat i\<rparr>) \<and> wf_queues (session w') \<and>
     (if queue_depth (dev w) = RMEM_QUEUE_DEPTH then d = Some i
      else d = None \<and> rmem_queue_rq K d rq w' = Inl NullDeref)"
proof -
  from assms(3) obtain qs where qs: "rmem_rdma_queue_list (session w) = Some qs" "i < length qs" "qs ! i = q"
    by (auto simp: get_queue_Inr_iff)
  obtain cs where cs: "wf_queue q" "rmem_rdma_cmd_list q = Some cs" "\<forall>ci < 16. cmd_bound (i, ci) (cs ! ci)"
    using assms(2,3) by (rule wf_queues_get)
  let ?q = "q\<lparr>q_index := of_nat i\<rparr>" and ?w = "upd_session (set_queue i (q\<lparr>q_index := of_nat i\<rparr>)) w"
  have "wf_queues (set_queue i ?q (session w))"
    using assms(2,3) by (rule wf_queues_set_queue) (use cs in \<open>simp_all add: wf_queue_def\<close>)
  moreover have "get_queue (set_queue i ?q (session w)) i = Inr ?q"
    using assms(3) by (simp add: get_queue_set_queue)
  moreover have "rmem_queue_rq K None rq ?w = Inl NullDeref"
    using assms(4) by (cases "rq_bios rq")
      (simp_all add: rmem_queue_rq_def first_bio_def call_def transfer_requet_to_rdma_message_def)
  moreover have "rdma_queue_depth q = RMEM_QUEUE_DEPTH" using cs(1) by (simp add: wf_queue_def)
  ultimately show ?thesis using assms(1) qs by (simp add: rmem_init_hctx_def Let_def)
qed

theorem init_hctx_binds_or_leaves_null_witness:
  "\<exists>d w'. rmem_init_hctx 1 (upd_dev (\<lambda>d. d\<lparr>rdma_session := True, queue_depth := 16\<rparr>) mapped_client) = Inr (0, d, w') \<and>
     get_queue (session w') 1 = Inr ((ready_queue 1)\<lparr>q_index := 1\<rparr>) \<and> wf_queues (session w') \<and> d = Some 1"
  using init_hctx_binds_or_leaves_null [of "upd_dev (\<lambda>d. d\<lparr>rdma_session := True, queue_depth := 16\<rparr>) mapped_client"
      1 "ready_queue 1" sample_request] mapped_client_wf(1,2)
  by (simp add: upd_dev_def sample_simps RMEM_QUEUE_DEPTH_def)

lemma upd_dev_simps [simp]:
  "dev (upd_dev f w) = f (dev w)" "session (upd_dev f w) = session w" "calls (upd_dev f w) = calls w"
  "rmem_major_num (upd_dev f w) = rmem_major_num w" "online_cores (upd_dev f w) = online_cores w"
  by (simp_all add: upd_dev_def)

lemma c_string_buf_write: "s = ''rmempool'' @ [CHR 0x00] \<Longrightarrow> c_string (buf_write s buf) = ''rmempool''"
  by (simp add: c_string_def buf_write_def)

text \<open>A kernel whose block-layer calls all succeed.\<close>

definition block_layer_ok :: "kernel \<Rightarrow> bool" where
  "block_layer_ok K \<longleftrightarrow> (\<forall>h n ts. 0 \<le> k_ret K h (RegisterBlkdev n) \<and> k_ret K h (BlkMqAllocTagSet ts) = 0 \<and>
     \<not> IS_ERR (k_ret K h BlkMqInitQueue) \<and> k_ret K h BlkMqInitQueue \<noteq> 0 \<and> k_ret K h AllocDiskNode \<noteq> 0)"

lemma disk_driver_created:
  assumes "block_layer_ok K" and "length (dev_name (dev w)) = DEVICE_NAME_LEN"
  shows "\<exists>w1 ts. rmem_init_disk_driver K True w = Inr (0, w1) \<and>
     ts_nr_hw_queues ts = word_of_int (online_cores w) \<and> ts_queue_depth ts = RMEM_QUEUE_DEPTH \<and>
     calls w1 = calls w @ [RegisterBlkdev ''rmempool'', BlkMqAllocTagSet ts, BlkMqInitQueue,
       BlkQueueLogicalBlockSize 512, BlkQueuePhysicalBlockSize 512, BlkQueueMaxHwSectors 1024,
       AllocDiskNode, SetCapacity (2 ^ 26), AddDisk (dev_name (dev w1))] \<and>
     disk (dev w1) \<noteq> 0 \<and> queue (dev w1) \<noteq> 0 \<and> dev_freed (dev w1) = 0 \<and>
     c_string (dev_name (dev w1)) = ''rmempool'' \<and> major (dev w1) = rmem_major_num w1 \<and> session w1 = session w"
proof -
  have cap: "RMEM_SIZE_IN_PHY_SECT = 2 ^ 26"
    by (simp add: RMEM_SIZE_IN_PHY_SECT_def RMEM_PHY_SECT_SIZE_def MAX_REMOTE_MEMORY_SIZE_GB_def)
  have len: "length (buf_write (''rmempool'' @ [CHR 0x00]) (dev_name (dev w))) = DEVICE_NAME_LEN"
    using assms(2) by (simp add: buf_write_def DEVICE_NAME_LEN_def)
  have ok: "\<not> k_ret K h (RegisterBlkdev n) < 0" "k_ret K h (BlkMqAllocTagSet ts) = 0"
      "\<not> IS_ERR (k_ret K h BlkMqInitQueue)" "k_ret K h BlkMqInitQueue \<noteq> 0" "k_ret K h AllocDiskNode \<noteq> 0" for h n ts
    using assms(1) by (auto simp: block_layer_ok_def not_less)
  show ?thesis
    using ok len
    by (simp add: rmem_init_disk_driver_def RMEM_create_device_def init_rmem_device_control_def call_def
        init_blk_mq_tag_set_def init_blk_mq_queue_def init_gendisk_def Let_def cap c_string_buf_write
        RMEM_LOGICAL_SECT_SIZE_def RMEM_PHY_SECT_SIZE_def RMEM_QUEUE_MAX_SECT_SIZE_def)
qed

text \<open>
  Creating the device registers it, allocates its tag set with one queue per core and sixteen
  commands each, and announces \<open>2 ^ 26\<close> sectors; freeing it releases exactly what was acquired,
  in the code's order and under the registered name, and freeing it again does nothing.
\<close>

theorem device_created_then_freed_once:
  assumes "block_layer_ok K" and "length (dev_name (dev w)) = DEVICE_NAME_LEN"
  shows "\<exists>w1 w2 ts. rmem_init_disk_driver K True w = Inr (0, w1) \<and>
     ts_nr_hw_queues ts = word_of_int (online_cores w) \<and> ts_queue_depth ts = RMEM_QUEUE_DEPTH \<and>
     calls w1 = calls w @ [RegisterBlkdev ''rmempool'', BlkMqAllocTagSet ts, BlkMqInitQueue,
       BlkQueueLogicalBlockSize 512, BlkQueuePhysicalBlockSize 512, BlkQueueMaxHwSectors 1024,
       AllocDiskNode, SetCapacity (2 ^ 26), AddDisk (dev_name (dev w1))] \<and>
     octopus_free_block_devicce True w1 = Inr (0, w2) \<and>
     calls w2 = calls w1 @ [DelGendisk (disk (dev w1)), BlkCleanupQueue (queue (dev w1)), BlkMqFreeTagSet,
       PutDisk (disk (dev w1)), UnregisterBlkdev (rmem_major_num w1) ''rmempool''] \<and>
     octopus_free_block_devicce True w2 = Inr (0, w2)"
proof -
  obtain w1 ts where w1: "rmem_init_disk_driver K True w = Inr (0, w1)"
     "ts_nr_hw_queues ts = word_of_int (online_cores w)" "ts_queue_depth ts = RMEM_QUEUE_DEPTH"
     "calls w1 = calls w @ [RegisterBlkdev ''rmempool'', BlkMqAllocTagSet ts, BlkMqInitQueue,
       BlkQueueLogicalBlockSize 512, BlkQueuePhysicalBlockSize 512, BlkQueueMaxHwSectors 1024,
       AllocDiskNode, SetCapacity (2 ^ 26), AddDisk (dev_name (dev w1))]"
    and d: "disk (dev w1) \<noteq> 0" "queue (dev w1) \<noteq> 0" "dev_freed (dev w1) = 0"
     "c_string (dev_name (dev w1)) = ''rmempool''" "major (dev w1) = rmem_major_num w1"
    using disk_driver_created [OF assms] by blast
  obtain r w2 where w2: "octopus_free_block_devicce True w1 = Inr (r, w2)"
    using d(3) by (auto simp: octopus_free_block_devicce_def Let_def)
  then have "r = 0" "calls w2 = calls w1 @ [DelGendisk (disk (dev w1)), BlkCleanupQueue (queue (dev w1)), BlkMqFreeTagSet,
       PutDisk (disk (dev w1)), UnregisterBlkdev (rmem_major_num w1) ''rmempool'']" "dev_freed (dev w2) = 1"
    using d by (auto simp: octopus_free_block_devicce_def Let_def)
  moreover from this have "octopus_free_block_devicce True w2 = Inr (0, w2)"
    by (simp add: octopus_free_block_devicce_def)
  ultimately show ?thesis using w1 w2 by blast
qed

definition block_kernel :: kernel where
  "block_kernel = calm_kernel\<lparr>k_ret := (\<lambda>_ c. case c of RegisterBlkdev _ \<Rightarrow> 252 | BlkMqInitQueue \<Rightarrow> 4096
     | AllocDiskNode \<Rightarrow> 8192 | _ \<Rightarrow> 0)\<rparr>"

theorem device_created_then_freed_once_witness:
  "\<exists>w1 w2. rmem_init_disk_driver block_kernel True unloaded = Inr (0, w1) \<and>
     octopus_free_block_devicce True w1 = Inr (0, w2) \<and> octopus_free_block_devicce True w2 = Inr (0, w2)"
proof -
  have "block_layer_ok block_kernel" by (simp add: block_layer_ok_def block_kernel_def IS_ERR_def)
  moreover have "length (dev_name (dev unloaded)) = DEVICE_NAME_LEN"
    by (simp add: unloaded_def rmem_dev_ctrl_global_def)
  ultimately show ?thesis using device_created_then_freed_once [of block_kernel unloaded] by blast
qed

end
