(* ===== verification/Client_Connection.thy ===== *)
theory Client_Connection
  imports Client_Disk
begin

text \<open>
  The life of a session (\<^verbatim>\<open>rdma_client.c\<close>): the event handlers of the connection manager and of
  the completion queue, the construction of the verbs objects and buffers, the handshake with the
  server, the release of everything, and the module's entry points.

  The environment of the module is the sequence of events it receives. A thread that waits for a
  condition consumes events until a handler has woken it with the condition true, or a signal
  interrupts it; when no event is left it is \<open>Blocked\<close>. A handler may itself wait (the release
  function waits for the acknowledgement of the disconnection), so handlers consume events too.
\<close>

section \<open>Events\<close>

datatype rdma_cm_event_type =
    RDMA_CM_EVENT_ADDR_RESOLVED | RDMA_CM_EVENT_ADDR_ERROR | RDMA_CM_EVENT_ROUTE_RESOLVED
  | RDMA_CM_EVENT_ROUTE_ERROR | RDMA_CM_EVENT_CONNECT_REQUEST | RDMA_CM_EVENT_CONNECT_RESPONSE
  | RDMA_CM_EVENT_CONNECT_ERROR | RDMA_CM_EVENT_UNREACHABLE | RDMA_CM_EVENT_REJECTED
  | RDMA_CM_EVENT_ESTABLISHED | RDMA_CM_EVENT_DISCONNECTED | RDMA_CM_EVENT_DEVICE_REMOVAL
  | RDMA_CM_EVENT_MULTICAST_JOIN | RDMA_CM_EVENT_MULTICAST_ERROR | RDMA_CM_EVENT_ADDR_CHANGE
  | RDMA_CM_EVENT_TIMEWAIT_EXIT

datatype event = CmEvent rdma_cm_event_type | CqEvent int "ib_wc list" | Signal

type_synonym handler = "event \<Rightarrow> event list \<Rightarrow> client \<Rightarrow> (event list \<times> client) res"
type_synonym disconnect = "event list \<Rightarrow> client \<Rightarrow> (int \<times> event list \<times> client) res"

definition set_state :: "rdma_session_context_state \<Rightarrow> client \<Rightarrow> client" where
  "set_state s w = upd_session (\<lambda>c. c\<lparr>state := s\<rparr>) w"

text \<open>\<^verbatim>\<open>wait_event_interruptible\<close>; every round consumes at least one event.\<close>

fun wait_loop :: "nat \<Rightarrow> handler \<Rightarrow> (client \<Rightarrow> bool) \<Rightarrow> event list \<Rightarrow> client \<Rightarrow> (event list \<times> client) res" where
  "wait_loop 0 H cond evs w = Inl Blocked"
| "wait_loop (Suc n) H cond [] w = Inl Blocked"
| "wait_loop (Suc n) H cond (e # evs) w =
     (if e = Signal then Inr (evs, w)
      else res_bind (H e evs (w\<lparr>sem_woken := False\<rparr>)) (\<lambda>(evs, w).
             if sem_woken w \<and> cond w then Inr (evs, w) else wait_loop n H cond evs w))"

definition wait_event_interruptible :: "handler \<Rightarrow> (client \<Rightarrow> bool) \<Rightarrow> event list \<Rightarrow> client \<Rightarrow> (event list \<times> client) res" where
  "wait_event_interruptible H cond evs w =
     (if cond w then Inr (evs, w) else wait_loop (length evs) H cond evs w)"

section \<open>The event handlers\<close>

definition octopus_rdma_cm_event_handler ::
    "kernel \<Rightarrow> disconnect \<Rightarrow> rdma_cm_event_type \<Rightarrow> event list \<Rightarrow> client \<Rightarrow> (int \<times> event list \<times> client) res" where
  "octopus_rdma_cm_event_handler K disc e evs w =
     (case e of
        RDMA_CM_EVENT_ADDR_RESOLVED \<Rightarrow>
          (let (ret, w) = call K RdmaResolveRoute (set_state ADDR_RESOLVED w) in Inr (ret, evs, w))
      | RDMA_CM_EVENT_ROUTE_RESOLVED \<Rightarrow>
          Inr (k_undef K, evs, wake_up_interruptible (set_state ROUTE_RESOLVED w))
      | RDMA_CM_EVENT_CONNECT_REQUEST \<Rightarrow> Inr (k_undef K, evs, w)
      | RDMA_CM_EVENT_ESTABLISHED \<Rightarrow>
          Inr (k_undef K, evs, wake_up_interruptible (set_state CONNECTED w))
      | RDMA_CM_EVENT_ADDR_ERROR \<Rightarrow> Inr (k_undef K, evs, wake_up_interruptible (set_state ERROR w))
      | RDMA_CM_EVENT_ROUTE_ERROR \<Rightarrow> Inr (k_undef K, evs, wake_up_interruptible (set_state ERROR w))
      | RDMA_CM_EVENT_CONNECT_ERROR \<Rightarrow> Inr (k_undef K, evs, wake_up_interruptible (set_state ERROR w))
      | RDMA_CM_EVENT_UNREACHABLE \<Rightarrow> Inr (k_undef K, evs, wake_up_interruptible (set_state ERROR w))
      | RDMA_CM_EVENT_REJECTED \<Rightarrow> Inr (k_undef K, evs, wake_up_interruptible (set_state ERROR w))
      | RDMA_CM_EVENT_DISCONNECTED \<Rightarrow>
          if freed (session w) \<noteq> 0 then Inr (k_undef K, evs, w)
          else res_bind (disc evs (snd (call K RdmaDisconnect w))) (\<lambda>(_, evs, w).
               res_bind (octopus_free_block_devicce (rmem_dev_ctrl (session w)) w) (\<lambda>(_, w).
                 Inr (k_undef K, evs, w)))
      | RDMA_CM_EVENT_TIMEWAIT_EXIT \<Rightarrow>
          Inr (k_undef K, evs, wake_up_interruptible (set_state CM_DISCONNECT w))
      | RDMA_CM_EVENT_DEVICE_REMOVAL \<Rightarrow> Inr (- 1, evs, w)
      | _ \<Rightarrow> Inr (k_undef K, evs, wake_up_interruptible w))"

text \<open>The adapter has placed a received message in the receive buffer before its completion is polled.\<close>

definition deliver :: "ib_wc \<Rightarrow> client \<Rightarrow> client" where
  "deliver wc w =
     (if wc_opcode wc = IB_WC_RECV \<and> wc_status wc = 0
      then upd_session (\<lambda>s. s\<lparr>recv_buf := map_option (\<lambda>_. wc_payload wc) (recv_buf s)\<rparr>) w else w)"

text \<open>One round of the polling loop: whether the loop goes on, or takes the error exit.\<close>

definition handle_wc :: "kernel \<Rightarrow> ib_wc \<Rightarrow> client \<Rightarrow> (bool \<times> client) res" where
  "handle_wc K wc w =
     (if wc_status wc \<noteq> 0 then Inr (False, w)
      else case wc_opcode wc of
          IB_WC_RECV \<Rightarrow> res_bind (handle_recv_wr K wc (deliver wc w)) (\<lambda>(ret, w). Inr (ret = 0, w))
        | IB_WC_SEND \<Rightarrow> Inr (True, w)
        | IB_WC_RDMA_READ \<Rightarrow> res_bind (rdma_read_done (wc_wr_id wc) w) (\<lambda>(ret, w). Inr (ret = 0, w))
        | IB_WC_RDMA_WRITE \<Rightarrow> res_bind (rdma_write_done (wc_wr_id wc) w) (\<lambda>(ret, w). Inr (ret = 0, w))
        | IB_WC_OTHER _ \<Rightarrow> Inr (False, w))"

fun poll_loop :: "kernel \<Rightarrow> ib_wc list \<Rightarrow> client \<Rightarrow> (bool \<times> client) res" where
  "poll_loop K [] w = Inr (True, w)"
| "poll_loop K (wc # wcs) w =
     res_bind (handle_wc K wc w) (\<lambda>(go, w). if go then poll_loop K wcs w else Inr (False, w))"

definition cq_error :: "disconnect \<Rightarrow> event list \<Rightarrow> client \<Rightarrow> (event list \<times> client) res" where
  "cq_error disc evs w = res_bind (disc evs (set_state ERROR w)) (\<lambda>(_, evs, w). Inr (evs, w))"

definition octopus_cq_event_handler ::
    "kernel \<Rightarrow> disconnect \<Rightarrow> int \<Rightarrow> ib_wc list \<Rightarrow> event list \<Rightarrow> client \<Rightarrow> (event list \<times> client) res" where
  "octopus_cq_event_handler K disc c wcs evs w =
     (if cq (session w) \<noteq> c then Inl BugOn
      else if state (session w) = ERROR then Inr (evs, w)
      else let w = w\<lparr>cq_get_count := cq_get_count w + 1\<rparr>;
               (ret, w) = call K IbReqNotifyCq w
           in if ret \<noteq> 0 then cq_error disc evs w
              else let w = w\<lparr>cq_notify_count := cq_notify_count w + 1\<rparr>
                   in res_bind (poll_loop K wcs w) (\<lambda>(ok, w).
                        if ok then Inr (evs, w) else cq_error disc evs w))"

definition handle_event :: "kernel \<Rightarrow> disconnect \<Rightarrow> handler" where
  "handle_event K disc e evs w =
     (case e of
        CmEvent c \<Rightarrow> res_bind (octopus_rdma_cm_event_handler K disc c evs w) (\<lambda>(_, evs, w). Inr (evs, w))
      | CqEvent c wcs \<Rightarrow> octopus_cq_event_handler K disc c wcs evs w
      | Signal \<Rightarrow> Inr (evs, w))"

section \<open>Release\<close>

fun free_cmd_bufs :: "nat \<Rightarrow> nat list \<Rightarrow> rmem_rdma_command list \<Rightarrow> client \<Rightarrow> client res" where
  "free_cmd_bufs i [] cs w = Inr w"
| "free_cmd_bufs i (j # js) cs w =
     res_bind (array_get cs j) (\<lambda>c.
       free_cmd_bufs i js cs (if rdma_buf c \<noteq> None then call_void (Kfree (CmdBuf i j)) w else w))"

fun free_queues :: "nat list \<Rightarrow> rmem_rdma_queue list \<Rightarrow> client \<Rightarrow> client res" where
  "free_queues [] qs w = Inr w"
| "free_queues (i # is) qs w =
     res_bind (array_get qs i) (\<lambda>q.
       case rmem_rdma_cmd_list q of
         None \<Rightarrow> free_queues is qs w
       | Some cs \<Rightarrow> res_bind (free_cmd_bufs i [0..<unat (rdma_queue_depth q)] cs w) (\<lambda>w.
                      free_queues is qs (call_void (Kfree (CmdList i)) w)))"

definition octopus_free_buffers :: "client \<Rightarrow> client res" where
  "octopus_free_buffers w =
     (let rdma_q_num = unat (word_of_int (online_cores w) :: u32);
          w = (if recv_buf (session w) \<noteq> None then call_void (Kfree RecvBuf) w else w);
          w = (if send_buf (session w) \<noteq> None then call_void (Kfree SendBuf) w else w)
      in res_bind (case rmem_rdma_queue_list (session w) of
             None \<Rightarrow> Inr w
           | Some qs \<Rightarrow> res_bind (free_queues [0..<rdma_q_num] qs w) (\<lambda>w. Inr (call_void (Kfree QueueList) w)))
           (\<lambda>w. Inr (if remote_chunk (remote_chunk_list (session w)) \<noteq> None
                     then call_void (Kfree ChunkArray) w else w)))"

definition octopus_free_rdma_structure :: "client \<Rightarrow> client" where
  "octopus_free_rdma_structure w =
     (let w = (if cm_id (session w) \<noteq> 0 then call_void RdmaDestroyId w else w);
          w = (if qp (session w) \<noteq> 0 then call_void IbDestroyQp w else w);
          w = (if cq (session w) \<noteq> 0 then call_void IbDestroyCq w else w);
          w = (if pd (session w) \<noteq> 0 then call_void IbDeallocPd w else w)
      in w)"

definition disconnect_with :: "kernel \<Rightarrow> handler \<Rightarrow> disconnect" where
  "disconnect_with K H evs w =
     (if freed (session w) \<noteq> 0 then Inr (0, evs, w)
      else let w = upd_session (\<lambda>s. s\<lparr>freed := freed s + 1\<rparr>) w
           in res_bind
                (if state (session w) \<noteq> CM_DISCONNECT
                 then let (ret, w) = call K RdmaDisconnect w
                      in res_bind (wait_event_interruptible H (\<lambda>w. state (session w) = CM_DISCONNECT) evs w)
                           (\<lambda>(evs, w). Inr (ret, evs, w))
                 else Inr (0, evs, w))
                (\<lambda>(ret, evs, w). res_bind (octopus_free_buffers w) (\<lambda>w.
                   Inr (ret, evs, octopus_free_rdma_structure w))))"

text \<open>
  The release function calls nothing that calls it again but through the handlers that run while
  it waits, and by then the session is marked freed: the call it would make returns at once
  (\<open>freed_disconnect\<close>). Two levels therefore describe it completely.
\<close>

definition freed_disconnect :: disconnect where
  "freed_disconnect evs w = (if freed (session w) \<noteq> 0 then Inr (0, evs, w) else Inl Blocked)"

definition octopus_disconenct_and_collect_resource :: "kernel \<Rightarrow> disconnect" where
  "octopus_disconenct_and_collect_resource K = disconnect_with K (handle_event K freed_disconnect)"

definition client_handler :: "kernel \<Rightarrow> handler" where
  "client_handler K = handle_event K (octopus_disconenct_and_collect_resource K)"

section \<open>Construction and handshake\<close>

definition EINTR :: int where "EINTR = 4"
definition AF_INET :: int where "AF_INET = 2"

definition htons :: "u16 \<Rightarrow> u16" where
  "htons x = push_bit 8 x OR drop_bit 8 x"

definition rdma_resolve_ip_to_ib_device :: "kernel \<Rightarrow> event list \<Rightarrow> client \<Rightarrow> (int \<times> event list \<times> client) res" where
  "rdma_resolve_ip_to_ib_device K evs w =
     (let (ret, w) = call K RdmaResolveAddr w
      in if ret \<noteq> 0 then Inr (ret, evs, w)
         else res_bind (wait_event_interruptible (client_handler K) (\<lambda>w. ROUTE_RESOLVED \<le> state (session w)) evs w)
                (\<lambda>(evs, w). if state (session w) \<noteq> ROUTE_RESOLVED then Inr (- EINTR, evs, w) else Inr (ret, evs, w)))"

definition octopus_create_qp :: "kernel \<Rightarrow> client \<Rightarrow> int \<times> client" where
  "octopus_create_qp K w =
     (let (ret, w) = call K (RdmaCreateQp (txdepth (session w)) (cq (session w))) w
      in (ret, if ret = 0 then upd_session (\<lambda>s. s\<lparr>qp := k_cm_qp K\<rparr>) w else w))"

definition octopus_create_rdma_queues :: "kernel \<Rightarrow> client \<Rightarrow> (int \<times> client) res" where
  "octopus_create_rdma_queues K w =
     res_bind (deref_kptr (cm_id (session w))) (\<lambda>_.
       let (p, w) = call K IbAllocPd w;
           w = upd_session (\<lambda>s. s\<lparr>pd := p\<rparr>) w
       in if IS_ERR p then Inr (p, w)
          else let (c, w) = call K (IbCreateCq (txdepth (session w) * 2)) w;
                   w = upd_session (\<lambda>s. s\<lparr>cq := c\<rparr>) w
               in if IS_ERR c then Inr (c, w) else Inr (octopus_create_qp K w))"

text \<open>The key a message buffer gets: the device's, else that of the DMA memory region.\<close>

definition message_lkey :: "kernel \<Rightarrow> rdma_session_context \<Rightarrow> u32 \<Rightarrow> u32 res" where
  "message_lkey K s old =
     (if k_local_dma_lkey K \<noteq> 0 then Inr (k_local_dma_lkey K)
      else if mem s = DMA then res_bind (deref_kptr (dma_mr s)) (\<lambda>_. Inr (k_mr_lkey K (dma_mr s)))
      else Inr old)"

definition octopus_setup_message_wr :: "kernel \<Rightarrow> client \<Rightarrow> client res" where
  "octopus_setup_message_wr K w =
     res_bind (deref_kptr (qp (session w))) (\<lambda>_.
     res_bind (message_lkey K (session w) (sge_lkey (recv_sgl (session w)))) (\<lambda>rk.
     res_bind (message_lkey K (session w) (sge_lkey (send_sgl (session w)))) (\<lambda>sk.
       Inr (upd_session (\<lambda>s. s\<lparr>
         recv_sgl := \<lparr>sge_addr = recv_dma_addr s, sge_length = sizeof_message, sge_lkey = rk\<rparr>,
         rq_wr := (rq_wr s)\<lparr>wr_sg_list := SG_RECV, wr_num_sge := 1\<rparr>,
         send_sgl := \<lparr>sge_addr = send_dma_addr s, sge_length = sizeof_message, sge_lkey = sk\<rparr>,
         sq_wr := (sq_wr s)\<lparr>wr_opcode := IB_WR_SEND, wr_signaled := True, wr_sg_list := SG_SEND, wr_num_sge := 1\<rparr>\<rparr>) w))))"

definition octopus_setup_buffers :: "kernel \<Rightarrow> client \<Rightarrow> (int \<times> client) res" where
  "octopus_setup_buffers K w =
     (let (r, w) = call K (Kzalloc RecvBuf) w;
          (s, w) = call K (Kzalloc SendBuf) w;
          w = upd_session (\<lambda>c. c\<lparr>recv_buf := (if r = 0 then None else Some zero_message),
                send_buf := (if s = 0 then None else Some zero_message), mem := DMA\<rparr>) w
      in res_bind (deref_kptr (pd (session w))) (\<lambda>_.
           let (ra, w) = call K (IbDmaMapSingle RecvBuf) w;
               (sa, w) = call K (IbDmaMapSingle SendBuf) w;
               (mr, w) = call K GetDmaMr w;
               w = upd_session (\<lambda>c. c\<lparr>recv_dma_addr := word_of_int ra, send_dma_addr := word_of_int sa,
                     dma_mr := mr\<rparr>) w
           in if IS_ERR mr then Inr (mr, w)
              else res_bind (octopus_setup_message_wr K w) (\<lambda>w. Inr (k_undef K, w))))"

definition octopus_connect_remote_memory_server :: "kernel \<Rightarrow> event list \<Rightarrow> client \<Rightarrow> (int \<times> event list \<times> client) res" where
  "octopus_connect_remote_memory_server K evs w =
     (let (ret, w) = call K RdmaConnect w
      in if ret \<noteq> 0 then Inr (ret, evs, w)
         else res_bind (wait_event_interruptible (client_handler K) (\<lambda>w. CONNECTED \<le> state (session w)) evs w)
                (\<lambda>(evs, w). Inr (ret, evs, w)))"

text \<open>\<^verbatim>\<open>octopus_RDMA_connect\<close>, in its stages: the session's fields,\<close>

definition connect_init :: "kernel \<Rightarrow> client \<Rightarrow> client" where
  "connect_init K w =
     (let (p, w) = call K RdmaCreateId w;
          (n, w) = call K NumOnlineCpus w;
          (r, w) = call K (In4Pton ''10.0.0.2'') w
      in upd_session (\<lambda>s. s\<lparr>cm_id := p, state := IDLE, txdepth := RDMA_READ_WRITE_QUEUE_DEPTH * n + 1,
           freed := 0, port := htons 9400, addr := (if r = 0 then addr s else k_in4_addr K),
           addr_type := AF_INET\<rparr>) w)"

text \<open>the verbs objects and buffers, whose errors are only printed,\<close>

definition connect_setup :: "kernel \<Rightarrow> client \<Rightarrow> (int \<times> client) res" where
  "connect_setup K w =
     res_bind (octopus_create_rdma_queues K w) (\<lambda>(_, w).
     res_bind (octopus_setup_buffers K w) (\<lambda>(_, w).
       init_rdma_command_queue_list K w))"

text \<open>the connection and the negotiation of chunks,\<close>

definition connect_negotiate :: "kernel \<Rightarrow> event list \<Rightarrow> client \<Rightarrow> (int \<times> event list \<times> client) res" where
  "connect_negotiate K evs w =
     res_bind (deref_kptr (qp (session w))) (\<lambda>_.
       let (ret, w) = call K IbPostRecv w
       in if ret \<noteq> 0 then Inr (ret, evs, w)
          else res_bind (octopus_connect_remote_memory_server K evs (count_op w)) (\<lambda>(ret, evs, w).
            if ret \<noteq> 0 then Inr (ret, evs, w)
            else let (ret, w) = call K IbReqNotifyCq w
                 in if ret \<noteq> 0 then Inr (ret, evs, w)
                    else let w = w\<lparr>cq_notify_count := cq_notify_count w + 1\<rparr>
                    in res_bind (wait_event_interruptible (client_handler K) (\<lambda>w. state (session w) = FREE_MEM_RECV) evs w) (\<lambda>(evs, w).
                       res_bind (octupos_requset_for_chunk K (uint (MAX_REMOTE_MEMORY_SIZE_GB div CHUNK_SIZE_GB)) w) (\<lambda>(ret, w).
                         if ret \<noteq> 0 then Inr (ret, evs, w)
                         else res_bind (wait_event_interruptible (client_handler K) (\<lambda>w. state (session w) = RECEIVED_CHUNKS) evs w)
                                (\<lambda>(evs, w). Inr (0, evs, w))))))"

text \<open>and the whole, which ends with the creation of the block device.\<close>

definition octopus_RDMA_connect :: "kernel \<Rightarrow> event list \<Rightarrow> client \<Rightarrow> (int \<times> event list \<times> client) res" where
  "octopus_RDMA_connect K evs w =
     res_bind (rdma_resolve_ip_to_ib_device K evs (connect_init K w)) (\<lambda>(ret, evs, w).
       if ret \<noteq> 0 then Inr (ret, evs, w)
       else res_bind (connect_setup K w) (\<lambda>(ret, w).
         if ret \<noteq> 0 then Inr (ret, evs, w)
         else res_bind (connect_negotiate K evs w) (\<lambda>(ret, evs, w).
           if ret \<noteq> 0 then Inr (ret, evs, w)
           else let w = upd_dev (\<lambda>d. d\<lparr>rdma_session := True\<rparr>) (upd_session (\<lambda>s. s\<lparr>rmem_dev_ctrl := True\<rparr>) w)
                in res_bind (rmem_init_disk_driver K True w) (\<lambda>(ret, w). Inr (ret, evs, w)))))"

definition octopus_rdma_client_init_module :: "kernel \<Rightarrow> event list \<Rightarrow> client \<Rightarrow> (int \<times> event list \<times> client) res" where
  "octopus_rdma_client_init_module K evs w =
     (let (n, w) = call K NumOnlineCpus w
      in res_bind (octopus_RDMA_connect K evs (w\<lparr>online_cores := n\<rparr>)) (\<lambda>(ret, evs, w).
           Inr (ret, evs, call_void HrtimerInit w)))"

definition octopus_rdma_client_cleanup_module :: "kernel \<Rightarrow> event list \<Rightarrow> client \<Rightarrow> (event list \<times> client) res" where
  "octopus_rdma_client_cleanup_module K evs w =
     res_bind (octopus_disconenct_and_collect_resource K evs w) (\<lambda>(_, evs, w).
     res_bind (octopus_free_block_devicce True w) (\<lambda>(_, w). Inr (evs, w)))"

section \<open>The invariant of the client\<close>

text \<open>
  The command queues are well-formed with every command bound to its address, and the chunk table
  is a mapped prefix followed by empty slots.
\<close>

definition inv_client :: "client \<Rightarrow> bool" where
  "inv_client w \<longleftrightarrow> wf_queues (session w) \<and> wf_chunks (remote_chunk_list (session w))"

lemma wf_queues_frame [simp]:
  "wf_queues (s\<lparr>state := x1\<rparr>) = wf_queues s" "wf_queues (s\<lparr>freed := x2\<rparr>) = wf_queues s"
  "wf_queues (s\<lparr>recv_buf := x3\<rparr>) = wf_queues s" "wf_queues (s\<lparr>send_buf := x4\<rparr>) = wf_queues s"
  "wf_queues (s\<lparr>remote_chunk_list := x5\<rparr>) = wf_queues s"
  by (simp_all add: wf_queues_def)

lemma set_state_simps [simp]:
  "session (set_state st w) = (session w)\<lparr>state := st\<rparr>" "dev (set_state st w) = dev w"
  "calls (set_state st w) = calls w" "sem_woken (set_state st w) = sem_woken w"
  "online_cores (set_state st w) = online_cores w"
  by (simp_all add: set_state_def)

lemma snd_call [simp]:
  "session (snd (call K c w)) = session w" "dev (snd (call K c w)) = dev w"
  "calls (snd (call K c w)) = calls w @ [c]" "sem_woken (snd (call K c w)) = sem_woken w"
  "online_cores (snd (call K c w)) = online_cores w"
  by (simp_all add: call_def)

text \<open>What each operation of the handlers keeps: the freed mark, and the invariant.\<close>

definition keeps :: "client \<Rightarrow> client \<Rightarrow> bool" where
  "keeps w w' \<longleftrightarrow> freed (session w') = freed (session w) \<and> (inv_client w \<longrightarrow> inv_client w')"

lemma keeps_refl [simp]: "keeps w w"
  by (simp add: keeps_def)

lemma keeps_trans: "keeps u v \<Longrightarrow> keeps v w \<Longrightarrow> keeps u w"
  by (simp add: keeps_def)

lemma keeps_basic [simp]:
  "keeps w (set_state st w)" "keeps w (wake_up_interruptible w)" "keeps w (call_void c w)"
  "keeps w (w\<lparr>sem_woken := b\<rparr>)" "keeps w (snd (call K c w))"
  by (simp_all add: keeps_def inv_client_def)

lemma bind_loop_wf:
  "wf_chunks l \<Longrightarrow> bind_loop m is l = Inr l' \<Longrightarrow> wf_chunks l'"
proof (cases m)
  case None
  then show "wf_chunks l \<Longrightarrow> bind_loop m is l = Inr l' \<Longrightarrow> wf_chunks l'"
    by (cases "is") (auto split: if_splits)
next
  case (Some msg)
  then show "wf_chunks l \<Longrightarrow> bind_loop m is l = Inr l' \<Longrightarrow> wf_chunks l'"
    using bind_loop_spec [of l msg "is"] by auto
qed

lemma wf_chunks_close: "wf_chunks l \<Longrightarrow> wf_chunks (l\<lparr>chunk_num := chunk_ptr l\<rparr>)"
  by (auto simp: wf_chunks_def word_le_nat_alt unat_eq_0 split: option.splits)

lemma wf_chunks_free_size [simp]: "wf_chunks (l\<lparr>remote_free_size_gb := n\<rparr>) = wf_chunks l"
  by (cases "remote_chunk l") (simp_all add: wf_chunks_def)

lemma keeps_bind: "bind_remote_memory_chunks w = Inr w' \<Longrightarrow> keeps w w'"
  by (auto simp: bind_remote_memory_chunks_def res_inversion keeps_def inv_client_def
      intro!: wf_chunks_close dest: bind_loop_wf)

lemma keeps_init_chunks:
  assumes "init_remote_chunk_list K w = Inr (r, w')"
  shows "keeps w w'"
proof -
  let ?n = "remote_free_size_gb (remote_chunk_list (session w)) div ucast CHUNK_SIZE_GB"
  let ?cs = "if k_ret K (calls w) (Kzalloc ChunkArray) = 0 then None else Some (replicate (unat ?n) empty_chunk)"
  from assms obtain cs where cs: "clear_chunks (unat ?n) ?cs = Inr cs"
      and w': "session w' = (session w)\<lparr>remote_chunk_list := (remote_chunk_list (session w))
              \<lparr>chunk_ptr := 0, chunk_num := ?n, remote_chunk := cs\<rparr>\<rparr>"
    by (auto simp: init_remote_chunk_list_def call_def Let_def res_inversion)
  have "cs = Some (replicate (unat ?n) empty_chunk) \<or> cs = None \<and> ?n = 0"
    using cs clear_chunks_zeroed [of "unat ?n"]
    by (auto simp: clear_chunks_def unat_eq_0 split: if_splits)
  then show ?thesis by (auto simp: keeps_def inv_client_def w' wf_chunks_def empty_chunk_def)
qed

lemma keeps_handle_recv:
  assumes "handle_recv_wr K wc w = Inr (r, w')"
  shows "keeps w w'"
proof -
  have k: "keeps w (upd_session (\<lambda>s. s\<lparr>remote_chunk_list := (remote_chunk_list s)\<lparr>remote_free_size_gb := n\<rparr>,
      state := FREE_MEM_RECV\<rparr>) w)" for n by (simp add: keeps_def inv_client_def)
  have u: "keeps w (upd_session (\<lambda>s. s\<lparr>state := st\<rparr>) w)" for w st by (simp add: keeps_def inv_client_def)
  note t = keeps_trans [OF keeps_trans [OF k keeps_init_chunks] keeps_basic(2)]
    keeps_trans [OF keeps_trans [OF keeps_bind u] keeps_basic(2)] keeps_bind u
  show ?thesis
    using assms by (auto simp: handle_recv_wr_def res_inversion Let_def split: if_splits intro: t)
qed

lemma keeps_set_cmd:
  assumes "get_cmd (session w) a = Inr c" and "\<And>b. cmd_bound b c \<Longrightarrow> cmd_bound b c'"
  shows "keeps w (upd_session (set_cmd a c') w)"
proof -
  obtain qi ci where a: "a = (qi, ci)" by (cases a)
  from assms(1) obtain q cs where q: "get_queue (session w) qi = Inr q" "rmem_rdma_cmd_list q = Some cs"
      "ci < length cs" "cs ! ci = c"
    by (auto simp: get_cmd_Inr_iff a)
  have "wf_queues (set_cmd a c' (session w))" if wf: "wf_queues (session w)"
  proof -
    obtain cs' where "rmem_rdma_cmd_list q = Some cs'" "length cs' = 16" "\<forall>i < 16. cmd_bound (qi, i) (cs' ! i)"
      using wf q(1) by (rule wf_queues_get)
    with q have "cmd_bound (qi, ci) c'" by (intro assms(2)) auto
    with wf q(1) show ?thesis by (simp add: a set_cmd_queue_with wf_queues_queue_with)
  qed
  then show ?thesis by (simp add: keeps_def inv_client_def)
qed

lemma keeps_done:
  "rdma_write_done i w = Inr (r, w') \<Longrightarrow> keeps w w'" "rdma_read_done i w = Inr (r, w') \<Longrightarrow> keeps w w'"
proof -
  have k: "keeps w (upd_session (set_cmd a (free_a_rdma_cmd_to_rdma_q c)) (call_void x w))"
    if "get_cmd (session w) a = Inr c" for a c x
    by (rule keeps_trans [OF keeps_basic(3) keeps_set_cmd]) (use that in simp_all)
  show "rdma_write_done i w = Inr (r, w') \<Longrightarrow> keeps w w'"
    by (auto simp: rdma_write_done_def res_inversion Let_def intro: k split: option.splits)
  show "rdma_read_done i w = Inr (r, w') \<Longrightarrow> keeps w w'"
    by (auto simp: rdma_read_done_def res_inversion Let_def intro: k split: option.splits if_splits)
qed

lemma keeps_deliver [simp]: "keeps w (deliver wc w)"
  by (simp add: deliver_def keeps_def inv_client_def)

lemma keeps_handle_wc: "handle_wc K wc w = Inr (b, w') \<Longrightarrow> keeps w w'"
  by (auto simp: handle_wc_def res_inversion intro: keeps_done keeps_trans [OF keeps_deliver keeps_handle_recv]
      split: if_splits ib_wc_opcode.splits)

lemma keeps_poll: "poll_loop K wcs w = Inr (b, w') \<Longrightarrow> keeps w w'"
proof (induction wcs arbitrary: w)
  case Nil
  then show ?case by simp
next
  case (Cons wc wcs)
  then show ?case
    by (auto simp: res_inversion split: prod.splits if_splits dest: keeps_handle_wc intro: keeps_trans)
qed

text \<open>
  What holds of anything that consumes events: it never invents one, keeps the invariant, and
  never clears the freed mark.
\<close>

definition consumes :: "event list \<Rightarrow> client \<Rightarrow> event list \<times> client \<Rightarrow> bool" where
  "consumes evs w r \<longleftrightarrow> length (fst r) \<le> length evs \<and> (inv_client w \<longrightarrow> inv_client (snd r)) \<and>
     (freed (session w) \<noteq> 0 \<longrightarrow> freed (session (snd r)) \<noteq> 0)"

definition good_disconnect :: "disconnect \<Rightarrow> bool" where
  "good_disconnect disc \<longleftrightarrow> (\<forall>evs w ret r. disc evs w = Inr (ret, r) \<longrightarrow> consumes evs w r)"

definition good_handler :: "handler \<Rightarrow> bool" where
  "good_handler H \<longleftrightarrow> (\<forall>e evs w r. H e evs w = Inr r \<longrightarrow> consumes evs w r)"

lemma consumes_keeps: "keeps w w' \<Longrightarrow> consumes evs w (evs, w')"
  by (simp add: keeps_def consumes_def)

lemma keeps_consumes: "keeps u w \<Longrightarrow> consumes evs w r \<Longrightarrow> consumes evs u r"
  by (auto simp: keeps_def consumes_def)

lemma consumes_trans: "consumes evs w (evs', w') \<Longrightarrow> consumes evs' w' r \<Longrightarrow> consumes evs w r"
  by (auto simp: consumes_def)

lemma keeps_free_block: "octopus_free_block_devicce c w = Inr (r, w') \<Longrightarrow> keeps w w'"
  by (auto simp: octopus_free_block_devicce_def Let_def keeps_def inv_client_def split: if_splits)

lemma keeps_counts [simp]:
  "keeps w (w\<lparr>cq_get_count := n\<rparr>)" "keeps w (w\<lparr>cq_notify_count := n\<rparr>)"
  by (simp_all add: keeps_def inv_client_def)

lemma good_disconnectD:
  "good_disconnect disc \<Longrightarrow> disc evs w = Inr (ret, evs', w') \<Longrightarrow> consumes evs w (evs', w')"
  by (auto simp: good_disconnect_def)

lemma cm_handler_consumes:
  assumes disc: "good_disconnect disc" and res: "octopus_rdma_cm_event_handler K disc e evs w = Inr (ret, evs', w')"
  shows "consumes evs w (evs', w')"
proof (cases "e = RDMA_CM_EVENT_DISCONNECTED \<and> freed (session w) = 0")
  case True
  with res obtain r1 w1 r2 where d: "disc evs (snd (call K RdmaDisconnect w)) = Inr (r1, evs', w1)"
      and b: "octopus_free_block_devicce (rmem_dev_ctrl (session w1)) w1 = Inr (r2, w')"
    by (auto simp: octopus_rdma_cm_event_handler_def res_inversion)
  show ?thesis
    using keeps_consumes [OF keeps_basic(5) good_disconnectD [OF disc d]] consumes_keeps [OF keeps_free_block [OF b]]
    by (rule consumes_trans)
next
  case False
  with res have "evs' = evs \<and> keeps w w'"
    by (auto simp: octopus_rdma_cm_event_handler_def call_def keeps_def inv_client_def
        split: rdma_cm_event_type.splits)
  then show ?thesis by (simp add: consumes_keeps)
qed

lemma cq_error_consumes:
  "good_disconnect disc \<Longrightarrow> cq_error disc evs w = Inr r \<Longrightarrow> consumes evs w r"
  by (auto simp: cq_error_def res_inversion intro: keeps_consumes [OF keeps_basic(1)] dest: good_disconnectD)

text \<open>The client when polling starts: the notification is re-armed and both events are counted.\<close>

definition rearmed :: "kernel \<Rightarrow> client \<Rightarrow> client" where
  "rearmed K w = (snd (call K IbReqNotifyCq (w\<lparr>cq_get_count := cq_get_count w + 1\<rparr>)))
     \<lparr>cq_notify_count := cq_notify_count w + 1\<rparr>"

lemma keeps_rearmed: "keeps w (rearmed K w)" "session (rearmed K w) = session w"
  by (simp_all add: rearmed_def keeps_def inv_client_def)

lemma cq_handler_polls:
  assumes "cq (session w) = c" and "state (session w) \<noteq> ERROR" and "k_ret K (calls w) IbReqNotifyCq = 0"
  shows "octopus_cq_event_handler K disc c wcs evs w =
    res_bind (poll_loop K wcs (rearmed K w)) (\<lambda>(ok, w1). if ok then Inr (evs, w1) else cq_error disc evs w1)"
  using assms by (simp add: octopus_cq_event_handler_def Let_def call_def rearmed_def)

lemma cq_handler_no_notify:
  assumes "cq (session w) = c" and "state (session w) \<noteq> ERROR" and "k_ret K (calls w) IbReqNotifyCq \<noteq> 0"
  shows "octopus_cq_event_handler K disc c wcs evs w =
    cq_error disc evs (snd (call K IbReqNotifyCq (w\<lparr>cq_get_count := cq_get_count w + 1\<rparr>)))"
  using assms by (simp add: octopus_cq_event_handler_def Let_def call_def)

lemma cq_handler_consumes:
  assumes disc: "good_disconnect disc" and res: "octopus_cq_event_handler K disc c wcs evs w = Inr r"
  shows "consumes evs w r"
proof -
  from res have c: "cq (session w) = c" by (simp add: octopus_cq_event_handler_def split: if_splits)
  consider "state (session w) = ERROR" | "state (session w) \<noteq> ERROR" "k_ret K (calls w) IbReqNotifyCq = 0"
    | "state (session w) \<noteq> ERROR" "k_ret K (calls w) IbReqNotifyCq \<noteq> 0" by blast
  then show ?thesis
  proof cases
    case 1
    with res c show ?thesis by (auto simp: octopus_cq_event_handler_def consumes_keeps)
  next
    case 2
    with res c obtain ok w1 where poll: "poll_loop K wcs (rearmed K w) = Inr (ok, w1)"
        and rest: "(if ok then Inr (evs, w1) else cq_error disc evs w1) = Inr r"
      by (auto simp: cq_handler_polls res_bind_Inr_iff)
    have "keeps w w1" using keeps_rearmed(1) keeps_poll [OF poll] by (rule keeps_trans)
    show ?thesis
    proof (cases ok)
      case True
      with rest \<open>keeps w w1\<close> show ?thesis by (auto simp: consumes_keeps)
    next
      case False
      with rest have "cq_error disc evs w1 = Inr r" by simp
      with \<open>keeps w w1\<close> show ?thesis by (rule keeps_consumes [OF _ cq_error_consumes [OF disc]])
    qed
  next
    case 3
    let ?v = "snd (call K IbReqNotifyCq (w\<lparr>cq_get_count := cq_get_count w + 1\<rparr>))"
    have "keeps w ?v" by (rule keeps_trans [OF keeps_counts(1) keeps_basic(5)])
    moreover have "cq_error disc evs ?v = Inr r" using res unfolding cq_handler_no_notify [OF c 3] .
    ultimately show ?thesis by (rule keeps_consumes [OF _ cq_error_consumes [OF disc]])
  qed
qed

lemma good_handle_event: "good_disconnect disc \<Longrightarrow> good_handler (handle_event K disc)"
  by (auto simp: good_handler_def handle_event_def res_inversion consumes_keeps
      dest: cm_handler_consumes cq_handler_consumes split: event.splits)

lemma wait_loop_consumes:
  assumes H: "good_handler H"
  shows "wait_loop n H cond evs w = Inr r \<Longrightarrow> consumes evs w r"
proof (induction n arbitrary: evs w)
  case 0
  then show ?case by simp
next
  case (Suc n)
  then obtain e evs0 where evs: "evs = e # evs0" by (cases evs) simp_all
  show ?case
  proof (cases "e = Signal")
    case True
    with Suc.prems evs show ?thesis by (auto simp: consumes_def)
  next
    case False
    with Suc.prems evs obtain evs1 w1 where 1: "H e evs0 (w\<lparr>sem_woken := False\<rparr>) = Inr (evs1, w1)"
        "(if sem_woken w1 \<and> cond w1 then Inr (evs1, w1) else wait_loop n H cond evs1 w1) = Inr r"
      by (auto simp: res_inversion)
    then have "consumes evs0 (w\<lparr>sem_woken := False\<rparr>) (evs1, w1)" using H by (simp add: good_handler_def)
    then have "consumes evs0 w (evs1, w1)" by (rule keeps_consumes [OF keeps_basic(4)])
    then have c: "consumes evs w (evs1, w1)" by (simp add: evs consumes_def)
    show ?thesis
    proof (cases "sem_woken w1 \<and> cond w1")
      case True
      with 1(2) c show ?thesis by simp
    next
      case False
      with 1(2) have "consumes evs1 w1 r" by (intro Suc.IH) (simp only: if_False)
      with c show ?thesis by (rule consumes_trans)
    qed
  qed
qed

lemma wait_event_consumes:
  "good_handler H \<Longrightarrow> wait_event_interruptible H cond evs w = Inr r \<Longrightarrow> consumes evs w r"
  by (auto simp: wait_event_interruptible_def consumes_keeps split: if_splits dest: wait_loop_consumes)

text \<open>The releasing functions only make calls.\<close>

lemma free_cmd_bufs_frame: "free_cmd_bufs i js cs w = Inr w' \<Longrightarrow> session w' = session w \<and> dev w' = dev w \<and> online_cores w' = online_cores w"
  by (induction js arbitrary: w) (auto simp: res_inversion split: if_splits)

lemma free_queues_frame: "free_queues is qs w = Inr w' \<Longrightarrow> session w' = session w \<and> dev w' = dev w \<and> online_cores w' = online_cores w"
  by (induction "is" arbitrary: w) (auto simp: res_inversion dest!: free_cmd_bufs_frame split: option.splits)

lemma free_buffers_frame: "octopus_free_buffers w = Inr w' \<Longrightarrow> session w' = session w \<and> dev w' = dev w \<and> online_cores w' = online_cores w"
  by (auto simp: octopus_free_buffers_def Let_def res_inversion dest!: free_queues_frame split: option.splits if_splits)

lemma free_structure_frame [simp]:
  "session (octopus_free_rdma_structure w) = session w" "dev (octopus_free_rdma_structure w) = dev w"
  by (simp_all add: octopus_free_rdma_structure_def Let_def)

lemma good_disconnect_with:
  assumes "good_handler H"
  shows "good_disconnect (disconnect_with K H)"
  unfolding good_disconnect_def
proof (intro allI impI)
  fix evs w ret r
  assume res: "disconnect_with K H evs w = Inr (ret, r)"
  show "consumes evs w r"
  proof (cases "freed (session w) = 0")
    case False
    with res show ?thesis by (auto simp: disconnect_with_def consumes_keeps)
  next
    case True
    let ?v = "upd_session (\<lambda>s. s\<lparr>freed := freed s + 1\<rparr>) w"
    have v: "consumes evs w (evs, ?v)" using True by (simp add: consumes_def inv_client_def)
    from res True obtain evs1 w1 w2 where w2: "octopus_free_buffers w1 = Inr w2"
        and r: "r = (evs1, octopus_free_rdma_structure w2)"
        and or: "evs1 = evs \<and> w1 = ?v \<or>
          wait_event_interruptible H (\<lambda>w. state (session w) = CM_DISCONNECT) evs (snd (call K RdmaDisconnect ?v)) = Inr (evs1, w1)"
      by (auto simp: disconnect_with_def Let_def res_inversion call_def split: if_splits prod.splits)
    from or have "consumes evs w (evs1, w1)"
    proof
      assume "evs1 = evs \<and> w1 = ?v"
      with v show ?thesis by simp
    next
      assume "wait_event_interruptible H (\<lambda>w. state (session w) = CM_DISCONNECT) evs (snd (call K RdmaDisconnect ?v)) = Inr (evs1, w1)"
      from wait_event_consumes [OF assms this] have "consumes evs ?v (evs1, w1)"
        by (rule keeps_consumes [OF keeps_basic(5)])
      with v show ?thesis by (rule consumes_trans)
    qed
    moreover have "consumes evs1 w1 r"
      using free_buffers_frame [OF w2] r by (simp add: consumes_def inv_client_def)
    ultimately show ?thesis by (rule consumes_trans)
  qed
qed

lemma good_freed_disconnect: "good_disconnect freed_disconnect"
  by (simp add: good_disconnect_def freed_disconnect_def consumes_keeps)

lemma good_client:
  "good_disconnect (octopus_disconenct_and_collect_resource K)" "good_handler (client_handler K)"
proof -
  show "good_disconnect (octopus_disconenct_and_collect_resource K)"
    unfolding octopus_disconenct_and_collect_resource_def
    by (intro good_disconnect_with good_handle_event good_freed_disconnect)
  then show "good_handler (client_handler K)" by (simp add: client_handler_def good_handle_event)
qed

text \<open>Once the session is marked freed, every event is handled as if release returned at once.\<close>

lemma handle_event_freed:
  assumes "freed (session w) \<noteq> 0" and "\<And>evs w. freed (session w) \<noteq> 0 \<Longrightarrow> disc evs w = Inr (0, evs, w)"
  shows "handle_event K disc e evs w = handle_event K freed_disconnect e evs w"
proof (cases e)
  case (CmEvent c)
  with assms(1) show ?thesis
    by (cases c) (simp_all add: handle_event_def octopus_rdma_cm_event_handler_def)
next
  case (CqEvent c wcs)
  have err: "cq_error disc evs u = cq_error freed_disconnect evs u" if "freed (session u) \<noteq> 0" for u
    using that assms(2) by (simp add: cq_error_def freed_disconnect_def)
  have "(case r of (ok, w1) \<Rightarrow> if ok then Inr (evs, w1) else cq_error disc evs w1) =
      (case r of (ok, w1) \<Rightarrow> if ok then Inr (evs, w1) else cq_error freed_disconnect evs w1)"
    if "poll_loop K wcs (rearmed K w) = Inr r" for r
  proof (cases r)
    case (Pair ok w1)
    with that keeps_poll have "keeps (rearmed K w) w1" by blast
    with Pair assms(1) err [of w1] show ?thesis by (simp add: keeps_def keeps_rearmed)
  qed
  then have polls: "res_bind (poll_loop K wcs (rearmed K w)) (\<lambda>(ok, w1). if ok then Inr (evs, w1) else cq_error disc evs w1) =
      res_bind (poll_loop K wcs (rearmed K w)) (\<lambda>(ok, w1). if ok then Inr (evs, w1) else cq_error freed_disconnect evs w1)"
    by (intro res_bind_cong) simp_all
  consider "cq (session w) \<noteq> c \<or> state (session w) = ERROR"
    | "cq (session w) = c" "state (session w) \<noteq> ERROR" "k_ret K (calls w) IbReqNotifyCq = 0"
    | "cq (session w) = c" "state (session w) \<noteq> ERROR" "k_ret K (calls w) IbReqNotifyCq \<noteq> 0" by blast
  then have "octopus_cq_event_handler K disc c wcs evs w = octopus_cq_event_handler K freed_disconnect c wcs evs w"
  proof cases
    case 1
    then show ?thesis by (auto simp: octopus_cq_event_handler_def)
  next
    case 2
    show ?thesis unfolding cq_handler_polls [OF 2] by (rule polls)
  next
    case 3
    show ?thesis unfolding cq_handler_no_notify [OF 3] by (rule err) (simp add: assms(1))
  qed
  then show ?thesis by (simp add: CqEvent handle_event_def)
next
  case Signal
  then show ?thesis by (simp add: handle_event_def)
qed

lemma wait_loop_freed:
  assumes "good_handler H" and same: "\<And>e evs w. freed (session w) \<noteq> 0 \<Longrightarrow> H' e evs w = H e evs w"
  shows "freed (session w) \<noteq> 0 \<Longrightarrow> wait_loop n H' cond evs w = wait_loop n H cond evs w"
proof (induction n arbitrary: evs w)
  case 0
  then show ?case by simp
next
  case (Suc n)
  show ?case
  proof (cases evs)
    case Nil
    then show ?thesis by simp
  next
    case (Cons e es)
    have eq: "H' e es (w\<lparr>sem_woken := False\<rparr>) = H e es (w\<lparr>sem_woken := False\<rparr>)" using Suc.prems by (intro same) simp
    have "wait_loop n H' cond evs1 w1 = wait_loop n H cond evs1 w1"
      if "H e es (w\<lparr>sem_woken := False\<rparr>) = Inr (evs1, w1)" for evs1 w1
    proof (rule Suc.IH)
      from assms(1) that have "consumes es (w\<lparr>sem_woken := False\<rparr>) (evs1, w1)" by (simp add: good_handler_def)
      with Suc.prems show "freed (session w1) \<noteq> 0" by (simp add: consumes_def)
    qed
    then show ?thesis using Cons eq by (auto intro!: res_bind_cong)
  qed
qed

section \<open>The client as a machine\<close>

lemma post_rdma_freed: "post_rdma K opcode rq qi chunk off len w = Inr (r, w') \<Longrightarrow>
    freed (session w') = freed (session w) \<and> remote_chunk_list (session w') = remote_chunk_list (session w)"
  by (auto simp: post_rdma_def res_inversion Let_def call_def split: if_splits)

lemma keeps_post:
  assumes K: "quiet K" and post: "post_rdma K opcode rq qi chunk off len w = Inr (r, w')"
  shows "keeps w w'"
proof -
  have "wf_queues (session w')" if wf: "wf_queues (session w)"
  proof (cases "chunk_state chunk = MAPPED")
    case False
    with post wf show ?thesis by (simp add: post_rdma_def)
  next
    case True
    with post obtain q where q: "get_queue (session w) qi = Inr q" by (auto simp: post_rdma_def res_inversion)
    have free: "free_slots q \<noteq> {}" using post_rdma_spins [OF K wf q _ True] post by auto
    have qp: "deref_kptr (qp (session w)) = Inr ()"
      using post True by (auto simp: post_rdma_def res_inversion Let_def split: if_splits)
    obtain ci c where c: "cmd_bound (qi, ci) c" and eq: "post_rdma K opcode rq qi chunk off len w =
         Inr (call K (IbPostRdma (rdma_sq_wr c) (rdma_sgl c)) (upd_session (set_queue qi (queue_with ci c q)) w))"
      using K wf q free True qp by (rule post_rdma_posts)
    from eq post have "session w' = set_queue qi (queue_with ci c q) (session w)" by (auto simp: call_def)
    with wf_queues_queue_with [OF wf q c] show ?thesis by simp
  qed
  with post_rdma_freed [OF post] show ?thesis by (simp add: keeps_def inv_client_def)
qed

lemma keeps_transfer:
  assumes "quiet K" and "transfer_requet_to_rdma_message K d rq w = Inr (r, w')"
  shows "keeps w w'"
proof -
  have c: "keeps w (call_void x (count_op w))" for x by (simp add: keeps_def inv_client_def)
  show ?thesis
    using assms(2) keeps_trans [OF c keeps_post [OF assms(1)]]
    by (auto simp: transfer_requet_to_rdma_message_def res_inversion Let_def post_rdma_write_def post_rdma_read_def
        split: option.splits if_splits)
qed

lemma keeps_queue_rq:
  assumes "quiet K" and "rmem_queue_rq K d rq w = Inr (r, w')"
  shows "keeps w w'"
proof -
  from assms(2) obtain r1 w1 where t: "transfer_requet_to_rdma_message K d rq (snd (call K GetCpu w)) = Inr (r1, w1)"
      and w': "w' = w1 \<or> w' = call_void PutCpu w1"
    by (auto simp: rmem_queue_rq_def res_inversion Let_def call_def split: if_splits)
  have "keeps w w1" by (rule keeps_trans [OF keeps_basic(5) keeps_transfer [OF assms(1) t]])
  with w' show ?thesis by (auto intro: keeps_trans)
qed

text \<open>
  What the loaded module reacts to: a request dispatched by the block layer, or an interrupt of
  the connection manager or the completion queue with the events that follow it.
\<close>

datatype client_event = Dispatch "nat option" request | Interrupt event "event list"

fun serve :: "client_event \<Rightarrow> kernel \<times> client \<Rightarrow> (kernel \<times> client) res" where
  "serve (Dispatch d rq) (K, w) = res_bind (rmem_queue_rq K d rq w) (\<lambda>(_, w). Inr (K, w))"
| "serve (Interrupt e evs) (K, w) = res_bind (client_handler K e evs w) (\<lambda>(_, w). Inr (K, w))"

fun serve_all :: "client_event list \<Rightarrow> kernel \<times> client \<Rightarrow> (kernel \<times> client) res" where
  "serve_all [] s = Inr s"
| "serve_all (e # es) s = res_bind (serve e s) (serve_all es)"

definition loaded :: "kernel \<times> client \<Rightarrow> bool" where
  "loaded s \<longleftrightarrow> quiet (fst s) \<and> remote_chunk_list (session (snd s)) = zero_chunk_list \<and>
     (case rmem_rdma_queue_list (session (snd s)) of None \<Rightarrow> False
      | Some qs \<Rightarrow> \<forall>i < length qs. fresh_queue i (qs ! i))"

lemma fresh_queue_bound:
  "fresh_queue i q \<Longrightarrow> ci < 16 \<Longrightarrow> cmd_bound (i, ci) (the (rmem_rdma_cmd_list q) ! ci)"
  by (cases "rmem_rdma_cmd_list q") (auto simp: fresh_queue_def cmd_ready_def cmd_bound_def)

lemma fresh_queues_wf:
  assumes "rmem_rdma_queue_list s = Some qs" and "\<forall>i < length qs. fresh_queue i (qs ! i)"
  shows "wf_queues s"
  using assms fresh_queue_bound by (auto simp: wf_queues_def fresh_queue_def)

interpretation client_machine: invariant_machine loaded serve "\<lambda>s. quiet (fst s) \<and> inv_client (snd s)"
proof (unfold_locales, goal_cases)
  case (1 s)
  then show ?case by (auto simp: loaded_def inv_client_def wf_zero_chunk_list fresh_queues_wf split: option.splits)
next
  case (2 s e s')
  obtain K w where s: "s = (K, w)" by (cases s)
  show ?case
  proof (cases e)
    case (Dispatch d rq)
    with 2 s keeps_queue_rq [of K d rq w] show ?thesis by (auto simp: res_inversion keeps_def)
  next
    case (Interrupt x evs)
    with 2 s good_client(2) [of K] show ?thesis by (auto simp: res_inversion good_handler_def consumes_def)
  qed
qed

lemma serve_all_run: "serve_all es s = client_machine.run es s"
  by (induction es arbitrary: s) (simp_all cong: res_bind_cong)

section \<open>What release gives back\<close>

definition cmd_bufs_present :: "rmem_rdma_queue \<Rightarrow> bool" where
  "cmd_bufs_present q \<longleftrightarrow>
     (case rmem_rdma_cmd_list q of None \<Rightarrow> False | Some cs \<Rightarrow> \<forall>c \<in> set cs. rdma_buf c \<noteq> None)"

text \<open>Every object the construction of \<open>n\<close> queues, buffers and a chunk table allocates.\<close>

definition queue_objects :: "nat \<Rightarrow> kobj list" where
  "queue_objects i = map (CmdBuf i) [0..<16] @ [CmdList i]"

definition session_objects :: "nat \<Rightarrow> kobj list" where
  "session_objects n = [RecvBuf, SendBuf] @ concat (map queue_objects [0..<n]) @ [QueueList, ChunkArray]"

lemma session_objects_distinct: "distinct (session_objects n)"
proof -
  have "distinct (queue_objects i)" for i
    by (auto simp: queue_objects_def distinct_map inj_on_def simp del: upt_rec_numeral)
  moreover have "i = j" if "x \<in> set (queue_objects i)" "x \<in> set (queue_objects j)" for i j x
    using that by (auto simp: queue_objects_def simp del: upt_rec_numeral)
  ultimately have "distinct (concat (map queue_objects [0..<n]))"
    by (induction n) (auto, blast)
  then show ?thesis by (auto simp: session_objects_def queue_objects_def simp del: upt_rec_numeral)
qed

lemma free_cmd_bufs_calls:
  "\<forall>j \<in> set js. j < length cs \<Longrightarrow> \<forall>c \<in> set cs. rdma_buf c \<noteq> None \<Longrightarrow>
     free_cmd_bufs i js cs w = Inr (w\<lparr>calls := calls w @ map (\<lambda>j. Kfree (CmdBuf i j)) js\<rparr>)"
  by (induction js arbitrary: w) (auto simp: call_void_def)

lemma free_queues_calls:
  assumes "\<forall>i < length qs. wf_queue (qs ! i) \<and> cmd_bufs_present (qs ! i)" and "\<forall>i \<in> set is. i < length qs"
  shows "free_queues is qs w = Inr (w\<lparr>calls := calls w @ map Kfree (concat (map queue_objects is))\<rparr>)"
  using assms(2)
proof (induction "is" arbitrary: w)
  case Nil
  then show ?case by simp
next
  case (Cons i "is")
  with assms(1) obtain cs where cs: "rmem_rdma_cmd_list (qs ! i) = Some cs" "length cs = 16"
      "\<forall>c \<in> set cs. rdma_buf c \<noteq> None" "rdma_queue_depth (qs ! i) = RMEM_QUEUE_DEPTH"
    by (auto simp: wf_queue_def cmd_bufs_present_def split: option.splits)
  then have "free_cmd_bufs i [0..<16] cs w = Inr (w\<lparr>calls := calls w @ map (\<lambda>j. Kfree (CmdBuf i j)) [0..<16]\<rparr>)"
    by (intro free_cmd_bufs_calls) auto
  with Cons cs show ?case
    by (simp add: queue_objects_def call_void_def comp_def del: upt_rec_numeral)
qed

text \<open>A session in which everything has been allocated.\<close>

definition fully_built :: "client \<Rightarrow> bool" where
  "fully_built w \<longleftrightarrow> recv_buf (session w) \<noteq> None \<and> send_buf (session w) \<noteq> None \<and>
     remote_chunk (remote_chunk_list (session w)) \<noteq> None \<and>
     cm_id (session w) \<noteq> 0 \<and> qp (session w) \<noteq> 0 \<and> cq (session w) \<noteq> 0 \<and> pd (session w) \<noteq> 0 \<and>
     (case rmem_rdma_queue_list (session w) of None \<Rightarrow> False
      | Some qs \<Rightarrow> online_cores w = int (length qs) \<and> length qs < 2 ^ 32 \<and>
          (\<forall>i < length qs. wf_queue (qs ! i) \<and> cmd_bufs_present (qs ! i)))"

lemma free_all_calls:
  assumes "fully_built w"
  shows "\<exists>w1. octopus_free_buffers w = Inr w1 \<and> session w1 = session w \<and>
     calls (octopus_free_rdma_structure w1) = calls w @ map Kfree (session_objects (nat (online_cores w)))
       @ [RdmaDestroyId, IbDestroyQp, IbDestroyCq, IbDeallocPd]"
proof -
  from assms obtain qs where qs: "rmem_rdma_queue_list (session w) = Some qs" "online_cores w = int (length qs)"
      "length qs < 2 ^ 32" "\<forall>i < length qs. wf_queue (qs ! i) \<and> cmd_bufs_present (qs ! i)"
    by (auto simp: fully_built_def split: option.splits)
  have n: "unat (word_of_int (int (length qs)) :: u32) = length qs"
    using qs(3) by (simp add: unat_of_nat)
  note fq = free_queues_calls [OF qs(4), of "[0..<length qs]"]
  show ?thesis
    using assms qs n fq
    by (auto simp: octopus_free_buffers_def octopus_free_rdma_structure_def Let_def fully_built_def
        session_objects_def call_void_def)
qed

lemma release_returns:
  assumes "fully_built w" and "freed (session w) = 0" and "state (session w) \<noteq> CM_DISCONNECT"
  shows "\<exists>w'. octopus_disconenct_and_collect_resource K (CmEvent RDMA_CM_EVENT_TIMEWAIT_EXIT # evs) w =
       Inr (k_ret K (calls w) RdmaDisconnect, evs, w') \<and>
     calls w' = calls w @ [RdmaDisconnect, WakeUp] @ map Kfree (session_objects (nat (online_cores w)))
       @ [RdmaDestroyId, IbDestroyQp, IbDestroyCq, IbDeallocPd] \<and>
     rmem_dev_ctrl (session w') = rmem_dev_ctrl (session w) \<and>
     octopus_disconenct_and_collect_resource K evs w' = Inr (0, evs, w')"
proof -
  let ?H = "handle_event K freed_disconnect"
  let ?v = "upd_session (\<lambda>s. s\<lparr>freed := freed s + 1\<rparr>) w"
  let ?w1 = "wake_up_interruptible (set_state CM_DISCONNECT ((snd (call K RdmaDisconnect ?v))\<lparr>sem_woken := False\<rparr>))"
  have "wait_event_interruptible ?H (\<lambda>w. state (session w) = CM_DISCONNECT)
      (CmEvent RDMA_CM_EVENT_TIMEWAIT_EXIT # evs) (snd (call K RdmaDisconnect ?v)) = Inr (evs, ?w1)"
    using assms(3) by (simp add: wait_event_interruptible_def handle_event_def octopus_rdma_cm_event_handler_def)
  moreover have "fully_built ?w1" using assms(1) by (auto simp: fully_built_def split: option.splits)
  then obtain w2 where w2: "octopus_free_buffers ?w1 = Inr w2" "session w2 = session ?w1"
     "calls (octopus_free_rdma_structure w2) = calls ?w1 @ map Kfree (session_objects (nat (online_cores ?w1)))
       @ [RdmaDestroyId, IbDestroyQp, IbDestroyCq, IbDeallocPd]"
    using free_all_calls by blast
  ultimately have "octopus_disconenct_and_collect_resource K (CmEvent RDMA_CM_EVENT_TIMEWAIT_EXIT # evs) w =
      Inr (k_ret K (calls w) RdmaDisconnect, evs, octopus_free_rdma_structure w2)"
    using assms(2,3) by (simp add: octopus_disconenct_and_collect_resource_def disconnect_with_def call_def Let_def)
  moreover have "octopus_disconenct_and_collect_resource K evs (octopus_free_rdma_structure w2) =
      Inr (0, evs, octopus_free_rdma_structure w2)"
    using w2(2) assms(2) by (simp add: octopus_disconenct_and_collect_resource_def disconnect_with_def)
  ultimately show ?thesis using w2(2,3) by simp
qed

section \<open>The handshake\<close>

definition valid_ptr :: "int \<Rightarrow> bool" where
  "valid_ptr p \<longleftrightarrow> p \<noteq> 0 \<and> \<not> IS_ERR p"

lemma deref_valid [simp]: "valid_ptr p \<Longrightarrow> deref_kptr p = Inr ()"
  by (simp add: valid_ptr_def deref_kptr_def)

text \<open>A kernel and an adapter in which every call of the handshake succeeds; \<open>c\<close> is the completion queue.\<close>

definition adapter_ok :: "kernel \<Rightarrow> int \<Rightarrow> bool" where
  "adapter_ok K c \<longleftrightarrow> valid_ptr c \<and> valid_ptr (k_cm_qp K) \<and>
     (\<forall>h n b m x. valid_ptr (k_ret K h RdmaCreateId) \<and> k_ret K h RdmaResolveAddr = 0 \<and> valid_ptr (k_ret K h IbAllocPd) \<and>
       k_ret K h (IbCreateCq n) = c \<and> k_ret K h (RdmaCreateQp n x) = 0 \<and> k_ret K h (Kzalloc b) \<noteq> 0 \<and>
       valid_ptr (k_ret K h GetDmaMr) \<and> k_ret K h IbPostRecv = 0 \<and> k_ret K h RdmaConnect = 0 \<and>
       k_ret K h IbReqNotifyCq = 0 \<and> k_ret K h (IbPostSend m) = 0)"

lemma adapter_okD:
  assumes "adapter_ok K c"
  shows "valid_ptr c" "valid_ptr (k_cm_qp K)" "valid_ptr (k_ret K h RdmaCreateId)" "k_ret K h RdmaResolveAddr = 0"
    "valid_ptr (k_ret K h IbAllocPd)" "k_ret K h (IbCreateCq n) = c" "k_ret K h (RdmaCreateQp n x) = 0"
    "k_ret K h (Kzalloc b) \<noteq> 0" "valid_ptr (k_ret K h GetDmaMr)" "k_ret K h IbPostRecv = 0"
    "k_ret K h RdmaConnect = 0" "k_ret K h IbReqNotifyCq = 0" "k_ret K h (IbPostSend m) = 0"
  using assms unfolding adapter_ok_def by blast+

lemma valid_not_err: "valid_ptr p \<Longrightarrow> \<not> IS_ERR p" "valid_ptr p \<Longrightarrow> p \<noteq> 0"
  by (simp_all add: valid_ptr_def)

lemma resolve_succeeds:
  assumes "adapter_ok K c" and "state (session w) = IDLE"
  shows "\<exists>w'. rdma_resolve_ip_to_ib_device K
       (CmEvent RDMA_CM_EVENT_ADDR_RESOLVED # CmEvent RDMA_CM_EVENT_ROUTE_RESOLVED # evs) w = Inr (0, evs, w') \<and>
     session w' = (session w)\<lparr>state := ROUTE_RESOLVED\<rparr> \<and> dev w' = dev w \<and> online_cores w' = online_cores w"
  using assms adapter_okD(4) [OF assms(1)]
  by (auto simp: rdma_resolve_ip_to_ib_device_def call_def wait_event_interruptible_def client_handler_def
      handle_event_def octopus_rdma_cm_event_handler_def session_state_order Let_def)

text \<open>What the construction leaves in the session.\<close>

definition session_set_up :: "int \<Rightarrow> client \<Rightarrow> bool" where
  "session_set_up c w \<longleftrightarrow> cq (session w) = c \<and> valid_ptr (qp (session w)) \<and> valid_ptr (pd (session w)) \<and>
     recv_buf (session w) \<noteq> None \<and> send_buf (session w) \<noteq> None \<and>
     (case rmem_rdma_queue_list (session w) of None \<Rightarrow> False | Some qs \<Rightarrow>
        int (length qs) = online_cores w \<and> (\<forall>i < length qs. fresh_queue i (qs ! i)))"

lemma create_queues_succeeds:
  assumes "adapter_ok K c" and "valid_ptr (cm_id (session w))"
  shows "\<exists>w' p. octopus_create_rdma_queues K w = Inr (0, w') \<and> valid_ptr p \<and>
     session w' = (session w)\<lparr>pd := p, cq := c, qp := k_cm_qp K\<rparr> \<and> dev w' = dev w \<and> online_cores w' = online_cores w"
proof -
  note ok = adapter_okD [OF assms(1)]
  have "\<not> IS_ERR (k_ret K h IbAllocPd)" "\<not> IS_ERR c" for h using ok(1,5) by (simp_all add: valid_not_err)
  with assms(2) ok(5,6,7) show ?thesis
    by (simp add: octopus_create_rdma_queues_def octopus_create_qp_def call_def Let_def)
      (rule exI [of _ "k_ret K (calls w) IbAllocPd"], simp)
qed

lemma setup_buffers_succeeds:
  assumes "adapter_ok K c" and "valid_ptr (pd (session w))" and "valid_ptr (qp (session w))"
  shows "\<exists>w'. octopus_setup_buffers K w = Inr (k_undef K, w') \<and>
     recv_buf (session w') = Some zero_message \<and> send_buf (session w') = Some zero_message \<and>
     pd (session w') = pd (session w) \<and> qp (session w') = qp (session w) \<and> cq (session w') = cq (session w) \<and>
     state (session w') = state (session w) \<and> remote_chunk_list (session w') = remote_chunk_list (session w) \<and>
     dev w' = dev w \<and> online_cores w' = online_cores w"
proof -
  note ok = adapter_okD [OF assms(1)]
  have mr: "\<not> IS_ERR (k_ret K h GetDmaMr)" "deref_kptr (k_ret K h GetDmaMr) = Inr ()" for h
    using ok(9) [of h] by (simp_all add: valid_not_err)
  have "\<exists>k. message_lkey K s old = Inr k" if "dma_mr s = k_ret K h GetDmaMr" for s old h
    using mr(2) that by (auto simp: message_lkey_def)
  with assms(2,3) mr ok(8) show ?thesis
    by (auto simp: octopus_setup_buffers_def octopus_setup_message_wr_def call_def Let_def message_lkey_def)
qed

lemma connect_setup_succeeds:
  assumes "adapter_ok K c" and "valid_ptr (cm_id (session w))" and "0 \<le> online_cores w" and "online_cores w < 2 ^ 32"
  shows "\<exists>w'. connect_setup K w = Inr (0, w') \<and> session_set_up c w' \<and> state (session w') = state (session w) \<and>
     remote_chunk_list (session w') = remote_chunk_list (session w) \<and> dev w' = dev w \<and> online_cores w' = online_cores w"
proof -
  note ok = adapter_okD [OF assms(1)]
  obtain w1 p where w1: "octopus_create_rdma_queues K w = Inr (0, w1)" "valid_ptr p"
     "session w1 = (session w)\<lparr>pd := p, cq := c, qp := k_cm_qp K\<rparr>" "dev w1 = dev w" "online_cores w1 = online_cores w"
    using create_queues_succeeds [OF assms(1,2)] by blast
  then have "valid_ptr (pd (session w1))" "valid_ptr (qp (session w1))" using ok(2) by simp_all
  from setup_buffers_succeeds [OF assms(1) this] obtain w2 where w2: "octopus_setup_buffers K w1 = Inr (k_undef K, w2)"
     "recv_buf (session w2) = Some zero_message" "send_buf (session w2) = Some zero_message"
     "pd (session w2) = p" "qp (session w2) = k_cm_qp K" "cq (session w2) = c"
     "state (session w2) = state (session w)" "remote_chunk_list (session w2) = remote_chunk_list (session w)"
     "dev w2 = dev w" "online_cores w2 = online_cores w"
    using w1 by auto
  obtain qs w3 where w3: "init_rdma_command_queue_list K w2 = Inr (0, w3)" "length qs = nat (online_cores w2)"
     "\<forall>i < length qs. fresh_queue i (qs ! i)" "session w3 = (session w2)\<lparr>rmem_rdma_queue_list := Some qs\<rparr>"
     "dev w3 = dev w2" "online_cores w3 = online_cores w2"
    using init_queue_list_fresh [of w2 K] w2 w1(2) ok(2,8) assms(3,4) by auto
  with w1 w2 ok(2) assms(3) show ?thesis
    by (simp add: connect_setup_def session_set_up_def)
qed

lemma handshake_message:
  assumes "adapter_ok K c" and "cq (session w) = c" and "CONNECTED \<le> state (session w)" "state (session w) \<noteq> ERROR"
    and "poll_loop K wcs (rearmed K w) = Inr (True, w')"
  shows "client_handler K (CqEvent c wcs) evs w = Inr (evs, w')"
  using assms adapter_okD(12) [OF assms(1)] by (simp add: client_handler_def handle_event_def cq_handler_polls)

text \<open>A completion of a two-sided message, received or sent.\<close>

definition recv_wc :: "message \<Rightarrow> ib_wc" where
  "recv_wc m = \<lparr>wc_status = 0, wc_opcode = IB_WC_RECV, wc_wr_id = None, wc_byte_len = sizeof_message, wc_payload = m\<rparr>"

definition send_wc :: ib_wc where
  "send_wc = \<lparr>wc_status = 0, wc_opcode = IB_WC_SEND, wc_wr_id = None, wc_byte_len = 0, wc_payload = zero_message\<rparr>"

lemma free_size_arrives:
  assumes ok: "adapter_ok K c" and w: "cq (session w) = c" "CONNECTED \<le> state (session w)" "state (session w) \<noteq> ERROR"
      "recv_buf (session w) \<noteq> None" and m: "msg_type m = message_type_code FREE_SIZE"
  shows "\<exists>w' l. client_handler K (CqEvent c [recv_wc m]) evs w = Inr (evs, w') \<and> sem_woken w' \<and> dev w' = dev w \<and>
     online_cores w' = online_cores w \<and> set (calls w) \<subseteq> set (calls w') \<and>
     session w' = (session w)\<lparr>recv_buf := Some m, remote_chunk_list := l, state := FREE_MEM_RECV\<rparr> \<and>
     wf_chunks l \<and> mapped_chunks l = [] \<and> room l = unat (word_of_int (msg_size_gb m) :: u32)"
proof -
  let ?v = "deliver (recv_wc m) (rearmed K w)"
  have v: "session ?v = (session w)\<lparr>recv_buf := Some m\<rparr>" "dev ?v = dev w" "online_cores ?v = online_cores w"
      "set (calls w) \<subseteq> set (calls ?v)"
    using w(4) by (auto simp: deliver_def recv_wc_def rearmed_def)
  have "wc_byte_len (recv_wc m) = sizeof_message" by (simp add: recv_wc_def)
  moreover have "CONNECTED \<le> state (session ?v)" "recv_buf (session ?v) = Some m" using w v by simp_all
  ultimately obtain w' l where w': "handle_recv_wr K (recv_wc m) ?v = Inr (0, w')" "sem_woken w'" "dev w' = dev ?v"
      "online_cores w' = online_cores ?v" "set (calls ?v) \<subseteq> set (calls w')"
      "session w' = (session ?v)\<lparr>remote_chunk_list := l, state := FREE_MEM_RECV\<rparr>"
      "wf_chunks l" "mapped_chunks l = []" "room l = unat (word_of_int (msg_size_gb m) :: u32)"
    using handle_free_size [OF _ _ _ m, of "recv_wc m" ?v K] adapter_okD(8) [OF ok] by blast
  from w'(1) have "poll_loop K [recv_wc m] (rearmed K w) = Inr (True, w')"
    by (simp add: handle_wc_def recv_wc_def)
  from handshake_message [OF ok w(1-3) this] w' v show ?thesis by auto
qed

lemma chunks_arrive:
  assumes ok: "adapter_ok K c" and w: "cq (session w) = c" "CONNECTED \<le> state (session w)" "state (session w) \<noteq> ERROR"
      "recv_buf (session w) \<noteq> None" "wf_chunks (remote_chunk_list (session w))"
    and m: "msg_type m = message_type_code GOT_CHUNKS"
  shows "\<exists>w' l. client_handler K (CqEvent c [send_wc, recv_wc m]) evs w = Inr (evs, w') \<and> sem_woken w' \<and> dev w' = dev w \<and>
     online_cores w' = online_cores w \<and> set (calls w) \<subseteq> set (calls w') \<and>
     session w' = (session w)\<lparr>recv_buf := Some m, remote_chunk_list := l, state := RECEIVED_CHUNKS\<rparr> \<and> wf_chunks l \<and>
     mapped_chunks l = mapped_chunks (remote_chunk_list (session w)) @
       take (room (remote_chunk_list (session w))) (offered m [0..<MAX_CHUNKS])"
proof -
  let ?v = "deliver (recv_wc m) (rearmed K w)"
  have v: "session ?v = (session w)\<lparr>recv_buf := Some m\<rparr>" "dev ?v = dev w" "online_cores ?v = online_cores w"
      "set (calls w) \<subseteq> set (calls ?v)"
    using w(4) by (auto simp: deliver_def recv_wc_def rearmed_def)
  have "wc_byte_len (recv_wc m) = sizeof_message" by (simp add: recv_wc_def)
  moreover have "CONNECTED \<le> state (session ?v)" "recv_buf (session ?v) = Some m"
      "wf_chunks (remote_chunk_list (session ?v))" using w v by simp_all
  ultimately obtain w' l where w': "handle_recv_wr K (recv_wc m) ?v = Inr (0, w')" "sem_woken w'" "dev w' = dev ?v"
      "online_cores w' = online_cores ?v" "set (calls ?v) \<subseteq> set (calls w')"
      "session w' = (session ?v)\<lparr>remote_chunk_list := l, state := RECEIVED_CHUNKS\<rparr>"
      "wf_chunks l" "mapped_chunks l = mapped_chunks (remote_chunk_list (session ?v)) @
         take (room (remote_chunk_list (session ?v))) (offered m [0..<MAX_CHUNKS])"
    using handle_got_chunks [of "recv_wc m" ?v m K] m by auto
  from w'(1) have "poll_loop K [send_wc, recv_wc m] (rearmed K w) = Inr (True, w')"
    by (simp add: handle_wc_def recv_wc_def send_wc_def)
  from handshake_message [OF ok w(1-3) this] w' v show ?thesis by auto
qed

text \<open>The events of a handshake with a server that reports \<open>m1\<close> and then sends the chunks \<open>m2\<close>.\<close>

definition negotiation_events :: "int \<Rightarrow> message \<Rightarrow> message \<Rightarrow> event list" where
  "negotiation_events c m1 m2 =
     [CmEvent RDMA_CM_EVENT_ESTABLISHED, CqEvent c [recv_wc m1], CqEvent c [send_wc, recv_wc m2]]"

definition handshake_events :: "int \<Rightarrow> message \<Rightarrow> message \<Rightarrow> event list" where
  "handshake_events c m1 m2 =
     [CmEvent RDMA_CM_EVENT_ADDR_RESOLVED, CmEvent RDMA_CM_EVENT_ROUTE_RESOLVED] @ negotiation_events c m1 m2"

lemma wait_one:
  assumes "\<not> cond w" and "e \<noteq> Signal" and "H e evs (w\<lparr>sem_woken := False\<rparr>) = Inr (evs, w')" and "sem_woken w'" and "cond w'"
  shows "wait_event_interruptible H cond (e # evs) w = Inr (evs, w')"
  using assms by (simp add: wait_event_interruptible_def)

lemma request_succeeds:
  assumes "adapter_ok K c" and "valid_ptr (qp (session w))" and "send_buf (session w) = Some m" and "n \<noteq> 0" "n \<noteq> 1"
  shows "\<exists>w' m'. octupos_requset_for_chunk K n w = Inr (0, w') \<and> IbPostSend m' \<in> set (calls w') \<and>
     msg_type m' = message_type_code REQUEST_CHUNKS \<and> msg_size_gb m' = n \<and>
     session w' = (session w)\<lparr>send_buf := Some m'\<rparr> \<and> dev w' = dev w \<and> online_cores w' = online_cores w"
  using assms adapter_okD(10,13) [OF assms(1)]
  by (simp add: octupos_requset_for_chunk_def send_message_to_remote_def call_def Let_def CHUNK_SIZE_GB_def)
    (rule exI [of _ "m\<lparr>msg_type := 8, msg_size_gb := n\<rparr>"], simp)

lemma negotiation_succeeds:
  assumes ok: "adapter_ok K c" and w: "session_set_up c w" "state (session w) = ROUTE_RESOLVED"
    and m: "msg_type m1 = message_type_code FREE_SIZE" "msg_type m2 = message_type_code GOT_CHUNKS"
  shows "\<exists>w' l m. connect_negotiate K (negotiation_events c m1 m2 @ evs) w = Inr (0, evs, w') \<and>
     session w' = (session w)\<lparr>recv_buf := Some m2, send_buf := Some m, remote_chunk_list := l, state := RECEIVED_CHUNKS\<rparr> \<and>
     wf_chunks l \<and> mapped_chunks l = take (unat (word_of_int (msg_size_gb m1) :: u32)) (offered m2 [0..<MAX_CHUNKS]) \<and>
     msg_type m = message_type_code REQUEST_CHUNKS \<and> msg_size_gb m = 32 \<and> IbPostSend m \<in> set (calls w') \<and>
     dev w' = dev w \<and> online_cores w' = online_cores w"
proof -
  note ok' = adapter_okD [OF ok]
  let ?H = "client_handler K"
  let ?q1 = "CqEvent c [recv_wc m1]" and ?q2 = "CqEvent c [send_wc, recv_wc m2]"
  define w1 where "w1 = snd (call K RdmaConnect (count_op (snd (call K IbPostRecv w))))"
  define w2 where "w2 = wake_up_interruptible (set_state CONNECTED (w1\<lparr>sem_woken := False\<rparr>))"
  have s1: "session w1 = session w" "dev w1 = dev w" "online_cores w1 = online_cores w" by (simp_all add: w1_def)
  have s2: "session w2 = (session w)\<lparr>state := CONNECTED\<rparr>" "dev w2 = dev w" "online_cores w2 = online_cores w"
    by (simp_all add: w2_def s1)
  have "wait_event_interruptible ?H (\<lambda>w. CONNECTED \<le> state (session w)) (CmEvent RDMA_CM_EVENT_ESTABLISHED # ?q1 # ?q2 # evs) w1
      = Inr (?q1 # ?q2 # evs, w2)"
    using w(2) by (intro wait_one) (simp_all add: s1 session_state_order w2_def client_handler_def handle_event_def
        octopus_rdma_cm_event_handler_def)
  then have conn: "octopus_connect_remote_memory_server K (negotiation_events c m1 m2 @ evs) (count_op (snd (call K IbPostRecv w)))
      = Inr (0, ?q1 # ?q2 # evs, w2)"
    using ok'(11) by (simp add: octopus_connect_remote_memory_server_def negotiation_events_def w1_def call_def Let_def)
  define w3 where "w3 = (snd (call K IbReqNotifyCq w2))\<lparr>cq_notify_count := cq_notify_count w2 + 1\<rparr>"
  have s3: "session w3 = session w2" "dev w3 = dev w" "online_cores w3 = online_cores w" by (simp_all add: w3_def s2)
  obtain w4 l4 where w4: "?H ?q1 (?q2 # evs) (w3\<lparr>sem_woken := False\<rparr>) = Inr (?q2 # evs, w4)" "sem_woken w4" "dev w4 = dev w"
     "online_cores w4 = online_cores w"
     "session w4 = (session w3)\<lparr>recv_buf := Some m1, remote_chunk_list := l4, state := FREE_MEM_RECV\<rparr>"
     "wf_chunks l4" "mapped_chunks l4 = []" "room l4 = unat (word_of_int (msg_size_gb m1) :: u32)"
    using free_size_arrives [OF ok _ _ _ _ m(1), of "w3\<lparr>sem_woken := False\<rparr>" "?q2 # evs"] w(1) s2 s3
    by (auto simp: session_set_up_def session_state_order)
  have wait1: "wait_event_interruptible ?H (\<lambda>w. state (session w) = FREE_MEM_RECV) (?q1 # ?q2 # evs) w3 = Inr (?q2 # evs, w4)"
    using w4 s3 s2 by (intro wait_one) simp_all
  obtain sb where "send_buf (session w4) = Some sb" "valid_ptr (qp (session w4))"
    using w(1) w4(5) s3 s2 by (auto simp: session_set_up_def)
  from request_succeeds [OF ok this(2,1), of 32] obtain w5 m where w5: "octupos_requset_for_chunk K 32 w4 = Inr (0, w5)"
      "IbPostSend m \<in> set (calls w5)" "msg_type m = message_type_code REQUEST_CHUNKS" "msg_size_gb m = 32"
      "session w5 = (session w4)\<lparr>send_buf := Some m\<rparr>" "dev w5 = dev w4" "online_cores w5 = online_cores w4"
    by auto
  obtain w6 l6 where w6: "?H ?q2 evs (w5\<lparr>sem_woken := False\<rparr>) = Inr (evs, w6)" "sem_woken w6" "dev w6 = dev w5"
     "online_cores w6 = online_cores w5" "set (calls w5) \<subseteq> set (calls w6)"
     "session w6 = (session w5)\<lparr>recv_buf := Some m2, remote_chunk_list := l6, state := RECEIVED_CHUNKS\<rparr>" "wf_chunks l6"
     "mapped_chunks l6 = take (room l4) (offered m2 [0..<MAX_CHUNKS])"
    using chunks_arrive [OF ok _ _ _ _ _ m(2), of "w5\<lparr>sem_woken := False\<rparr>" evs] w(1) s2 s3 w4 w5(5)
    by (auto simp: session_set_up_def session_state_order)
  have wait2: "wait_event_interruptible ?H (\<lambda>w. state (session w) = RECEIVED_CHUNKS) (?q2 # evs) w5 = Inr (evs, w6)"
    using w6 w5(5) w4(5) by (intro wait_one) simp_all
  have "connect_negotiate K (negotiation_events c m1 m2 @ evs) w = Inr (0, evs, w6)"
    using w(1) ok'(10,12) conn wait1 wait2 w5(1)
    by (simp add: connect_negotiate_def session_set_up_def call_def Let_def w3_def MAX_REMOTE_MEMORY_SIZE_GB_def CHUNK_SIZE_GB_def)
  with w6 w5 w4 s3 s2 show ?thesis by (intro exI [of _ w6] exI [of _ l6] exI [of _ m]) auto
qed

section \<open>Properties\<close>


lemma ready_queue_fresh: "fresh_queue i (ready_queue i)"
  by (auto simp: fresh_queue_def ready_queue_wf) 
    (auto simp: ready_queue_def ready_cmd_def cmd_ready_def zero_queue_def zero_cmd_def zero_sge_def simp del: upt_rec_numeral)


text \<open>
  Release and the handlers call each other: release waits, and an interrupt handled meanwhile
  may ask for release again. Two levels describe the mutual recursion completely: release
  satisfies the equation of the code, in which the interrupts that arrive while it waits are
  handled by the full handlers.
\<close>

theorem release_satisfies_its_recursion:
  "octopus_disconenct_and_collect_resource K evs w =
     disconnect_with K (handle_event K (octopus_disconenct_and_collect_resource K)) evs w"
proof (cases "freed (session w) = 0")
  case False
  then show ?thesis by (simp add: octopus_disconenct_and_collect_resource_def disconnect_with_def)
next
  case True
  let ?H0 = "handle_event K freed_disconnect" and ?H1 = "handle_event K (octopus_disconenct_and_collect_resource K)"
  have same: "?H1 e evs w = ?H0 e evs w" if "freed (session w) \<noteq> 0" for e evs w
    using that by (rule handle_event_freed) (simp add: octopus_disconenct_and_collect_resource_def disconnect_with_def)
  have "wait_event_interruptible ?H1 c evs v = wait_event_interruptible ?H0 c evs v" if "freed (session v) \<noteq> 0" for c v
    using wait_loop_freed [OF good_handle_event [OF good_freed_disconnect], of ?H1] same that
    by (simp add: wait_event_interruptible_def)
  with True show ?thesis
    by (simp add: octopus_disconenct_and_collect_resource_def disconnect_with_def Let_def call_def)
qed


definition built_client :: client where
  "built_client = (upd_session (\<lambda>s. s\<lparr>cm_id := 5, cq := 6, recv_buf := Some zero_message,
     send_buf := Some zero_message\<rparr>) mapped_client)\<lparr>online_cores := 2\<rparr>"

lemma built_client_built:
  "fully_built built_client" "freed (session built_client) = 0" "state (session built_client) \<noteq> CM_DISCONNECT"
  "calls built_client = []" "online_cores built_client = 2"
proof -
  have "cmd_bufs_present (ready_queue i)" for i
    by (auto simp: cmd_bufs_present_def ready_queue_def ready_cmd_def simp del: upt_rec_numeral)
  then show "fully_built built_client"
    using ready_queue_wf(1)
    by (simp add: fully_built_def built_client_def mapped_client_def ready_client_def less_Suc_eq nth_Cons')
qed (simp_all add: built_client_def mapped_client_def ready_client_def rdma_session_global_def unloaded_def)


text \<open>
  A connection lost before the block device is registered is fatal: the handler releases the
  session and then follows the session's null pointer to the device.
\<close>

theorem disconnect_before_device_faults:
  assumes "fully_built w" and "freed (session w) = 0" and "state (session w) \<noteq> CM_DISCONNECT"
    and "\<not> rmem_dev_ctrl (session w)"
  shows "client_handler K (CmEvent RDMA_CM_EVENT_DISCONNECTED) (CmEvent RDMA_CM_EVENT_TIMEWAIT_EXIT # evs) w = Inl NullDeref"
proof -
  let ?u = "snd (call K RdmaDisconnect w)"
  have "fully_built ?u" "freed (session ?u) = 0" "state (session ?u) \<noteq> CM_DISCONNECT"
    using assms(1-3) by (auto simp: fully_built_def split: option.splits)
  from release_returns [OF this, of K evs] obtain ret w' where
      "octopus_disconenct_and_collect_resource K (CmEvent RDMA_CM_EVENT_TIMEWAIT_EXIT # evs) ?u = Inr (ret, evs, w')"
      "rmem_dev_ctrl (session w') = rmem_dev_ctrl (session ?u)" by blast
  with assms(2,4) show ?thesis
    by (simp add: client_handler_def handle_event_def octopus_rdma_cm_event_handler_def octopus_free_block_devicce_def)
qed

theorem disconnect_before_device_faults_witness:
  "client_handler calm_kernel (CmEvent RDMA_CM_EVENT_DISCONNECTED) [CmEvent RDMA_CM_EVENT_TIMEWAIT_EXIT] built_client = Inl NullDeref"
  by (rule disconnect_before_device_faults [OF built_client_built(1-3)])
    (simp add: built_client_def mapped_client_def ready_client_def rdma_session_global_def)

lemma handshake_spec:
  assumes ok: "adapter_ok K c" and bl: "block_layer_ok K" and nm: "length (dev_name (dev w)) = DEVICE_NAME_LEN"
    and cores: "0 \<le> online_cores w" "online_cores w < 2 ^ 32"
    and m: "msg_type m1 = message_type_code FREE_SIZE" "msg_type m2 = message_type_code GOT_CHUNKS"
  shows "\<exists>w' m. octopus_RDMA_connect K (handshake_events c m1 m2 @ evs) w = Inr (0, evs, w') \<and>
     state (session w') = RECEIVED_CHUNKS \<and> inv_client w' \<and>
     mapped_chunks (remote_chunk_list (session w')) =
       take (unat (word_of_int (msg_size_gb m1) :: u32)) (offered m2 [0..<MAX_CHUNKS]) \<and>
     IbPostSend m \<in> set (calls w') \<and> msg_type m = message_type_code REQUEST_CHUNKS \<and> msg_size_gb m = 32 \<and>
     rmem_dev_ctrl (session w') \<and> dev_freed (dev w') = 0"
proof -
  note ok' = adapter_okD [OF ok]
  have i: "state (session (connect_init K w)) = IDLE" "valid_ptr (cm_id (session (connect_init K w)))"
      "dev (connect_init K w) = dev w" "online_cores (connect_init K w) = online_cores w"
    using ok'(3) by (simp_all add: connect_init_def call_def Let_def)
  obtain w1 where w1: "rdma_resolve_ip_to_ib_device K (handshake_events c m1 m2 @ evs) (connect_init K w) =
        Inr (0, negotiation_events c m1 m2 @ evs, w1)"
     "session w1 = (session (connect_init K w))\<lparr>state := ROUTE_RESOLVED\<rparr>" "dev w1 = dev w" "online_cores w1 = online_cores w"
    using resolve_succeeds [OF ok i(1), of "negotiation_events c m1 m2 @ evs"] i by (auto simp: handshake_events_def)
  obtain w2 where w2: "connect_setup K w1 = Inr (0, w2)" "session_set_up c w2" "state (session w2) = ROUTE_RESOLVED"
     "dev w2 = dev w" "online_cores w2 = online_cores w"
    using connect_setup_succeeds [OF ok, of w1] w1 i cores by auto
  obtain w3 l m where w3: "connect_negotiate K (negotiation_events c m1 m2 @ evs) w2 = Inr (0, evs, w3)"
     "session w3 = (session w2)\<lparr>recv_buf := Some m2, send_buf := Some m, remote_chunk_list := l, state := RECEIVED_CHUNKS\<rparr>"
     "wf_chunks l" "mapped_chunks l = take (unat (word_of_int (msg_size_gb m1) :: u32)) (offered m2 [0..<MAX_CHUNKS])"
     "msg_type m = message_type_code REQUEST_CHUNKS" "msg_size_gb m = 32" "IbPostSend m \<in> set (calls w3)" "dev w3 = dev w2"
    using negotiation_succeeds [OF ok w2(2,3) m, of evs] by blast
  let ?v = "upd_dev (\<lambda>d. d\<lparr>rdma_session := True\<rparr>) (upd_session (\<lambda>s. s\<lparr>rmem_dev_ctrl := True\<rparr>) w3)"
  have "length (dev_name (dev ?v)) = DEVICE_NAME_LEN" using nm w3(8) w2(4) by simp
  then obtain w4 cs where w4: "rmem_init_disk_driver K True ?v = Inr (0, w4)"
      "session w4 = session ?v" "calls w4 = calls ?v @ cs" "dev_freed (dev w4) = 0"
    using disk_driver_created [OF bl, of ?v] by blast
  have "octopus_RDMA_connect K (handshake_events c m1 m2 @ evs) w = Inr (0, evs, w4)"
    using w1(1) w2(1) w3(1) w4(1) by (simp add: octopus_RDMA_connect_def)
  moreover have "wf_queues (session w2)" using w2(2) by (auto simp: session_set_up_def intro: fresh_queues_wf split: option.splits)
  then have "inv_client w4" using w3(2,3) w4(2) by (simp add: inv_client_def wf_queues_def)
  ultimately show ?thesis using w3 w4 by (intro exI [of _ w4] exI [of _ m]) auto
qed

text \<open>
  C9. The whole handshake: when every call succeeds and the events of a connection arrive in
  order, the connection function returns zero, has asked for 32 chunks, holds in its table
  exactly the chunks of the server's message, in order, cut to the size the server reported
  first, satisfies the client's invariant, and has linked the session with the block device.
\<close>

theorem handshake_maps_the_servers_chunks:
  assumes ok: "adapter_ok K c" and bl: "block_layer_ok K" and nm: "length (dev_name (dev w)) = DEVICE_NAME_LEN"
    and cores: "0 \<le> online_cores w" "online_cores w < 2 ^ 32"
    and m: "msg_type m1 = message_type_code FREE_SIZE" "msg_type m2 = message_type_code GOT_CHUNKS"
  shows "\<exists>w' m. octopus_RDMA_connect K (handshake_events c m1 m2 @ evs) w = Inr (0, evs, w') \<and>
     state (session w') = RECEIVED_CHUNKS \<and> inv_client w' \<and>
     mapped_chunks (remote_chunk_list (session w')) =
       take (unat (word_of_int (msg_size_gb m1) :: u32)) (offered m2 [0..<MAX_CHUNKS]) \<and>
     IbPostSend m \<in> set (calls w') \<and> msg_type m = message_type_code REQUEST_CHUNKS \<and> msg_size_gb m = 32 \<and>
     rmem_dev_ctrl (session w') \<and> dev_freed (dev w') = 0"
  using assms by (rule handshake_spec)

definition full_kernel :: kernel where
  "full_kernel = calm_kernel\<lparr>k_ret := (\<lambda>_ c. case c of
       RegisterBlkdev _ \<Rightarrow> 252 | BlkMqInitQueue \<Rightarrow> 4096 | AllocDiskNode \<Rightarrow> 8192
     | RdmaCreateId \<Rightarrow> 1 | IbAllocPd \<Rightarrow> 2 | IbCreateCq _ \<Rightarrow> 3 | GetDmaMr \<Rightarrow> 4 | Kzalloc _ \<Rightarrow> 5 | _ \<Rightarrow> 0)\<rparr>"

lemma full_kernel_ok: "adapter_ok full_kernel 3" "block_layer_ok full_kernel"
  by (simp_all add: adapter_ok_def block_layer_ok_def full_kernel_def calm_kernel_def valid_ptr_def IS_ERR_def)

theorem handshake_maps_the_servers_chunks_witness:
  "\<exists>w' m. octopus_RDMA_connect full_kernel (handshake_events 3 (zero_message\<lparr>msg_type := 4, msg_size_gb := 2\<rparr>)
       (zero_message\<lparr>msg_type := 2\<rparr>)) (unloaded\<lparr>online_cores := 2\<rparr>) = Inr (0, [], w') \<and>
     state (session w') = RECEIVED_CHUNKS \<and> inv_client w' \<and> IbPostSend m \<in> set (calls w') \<and> msg_size_gb m = 32"
proof -
  have "length (dev_name (dev (unloaded\<lparr>online_cores := 2\<rparr>))) = DEVICE_NAME_LEN"
    by (simp add: unloaded_def rmem_dev_ctrl_global_def)
  from handshake_maps_the_servers_chunks [OF full_kernel_ok this, of "zero_message\<lparr>msg_type := 4, msg_size_gb := 2\<rparr>"
      "zero_message\<lparr>msg_type := 2\<rparr>" "[]"]
  show ?thesis by auto
qed

text \<open>
  C38. A server that rejects the connection is not noticed: the connection step still returns
  zero, and the client goes on to wait for a free-size message that never comes.
\<close>

theorem rejected_connection_hangs:
  assumes "adapter_ok K c" and "session_set_up c w" and "state (session w) = ROUTE_RESOLVED"
  shows "(\<exists>w'. octopus_connect_remote_memory_server K [CmEvent RDMA_CM_EVENT_REJECTED] w = Inr (0, [], w') \<and>
       state (session w') = ERROR) \<and>
     connect_negotiate K [CmEvent RDMA_CM_EVENT_REJECTED] w = Inl Blocked"
proof -
  have conn: "\<exists>w'. octopus_connect_remote_memory_server K [CmEvent RDMA_CM_EVENT_REJECTED] v = Inr (0, [], w') \<and>
       state (session w') = ERROR" if "state (session v) = ROUTE_RESOLVED" for v
  proof -
    let ?v = "snd (call K RdmaConnect v)"
    let ?w = "wake_up_interruptible (set_state ERROR (?v\<lparr>sem_woken := False\<rparr>))"
    have "wait_event_interruptible (client_handler K) (\<lambda>w. CONNECTED \<le> state (session w)) [CmEvent RDMA_CM_EVENT_REJECTED] ?v = Inr ([], ?w)"
      using that by (intro wait_one)
        (simp_all add: session_state_order client_handler_def handle_event_def octopus_rdma_cm_event_handler_def)
    with adapter_okD(11) [OF assms(1)] show ?thesis
      by (simp add: octopus_connect_remote_memory_server_def call_def Let_def)
  qed
  obtain w' where w': "octopus_connect_remote_memory_server K [CmEvent RDMA_CM_EVENT_REJECTED]
      (count_op (snd (call K IbPostRecv w))) = Inr (0, [], w')" "state (session w') = ERROR"
    using conn [of "count_op (snd (call K IbPostRecv w))"] assms(3) by auto
  have "connect_negotiate K [CmEvent RDMA_CM_EVENT_REJECTED] w = Inl Blocked"
    using w' assms(2) adapter_okD(10,12) [OF assms(1)]
    by (simp add: connect_negotiate_def session_set_up_def call_def Let_def wait_event_interruptible_def)
  with conn [OF assms(3)] show ?thesis by blast
qed

theorem rejected_connection_hangs_witness:
  "\<exists>w. connect_negotiate full_kernel [CmEvent RDMA_CM_EVENT_REJECTED] w = Inl Blocked"
proof -
  let ?w = "unloaded\<lparr>session := rdma_session_global\<lparr>cq := 3, qp := 7, pd := 8, recv_buf := Some zero_message,
     send_buf := Some zero_message, rmem_rdma_queue_list := Some [], state := ROUTE_RESOLVED\<rparr>\<rparr>"
  have "session_set_up 3 ?w" by (simp add: session_set_up_def valid_ptr_def IS_ERR_def unloaded_def)
  from rejected_connection_hangs [OF full_kernel_ok(1) this] show ?thesis by auto
qed

text \<open>
  The errors of the construction are printed and ignored: when the protection domain cannot be
  allocated, or the queue pair cannot be created, the very next step dereferences an invalid
  pointer.
\<close>

theorem ignored_setup_errors_fault:
  assumes "valid_ptr (cm_id (session w))" and "qp (session w) = 0"
    and "IS_ERR (k_ret K (calls w) IbAllocPd) \<or>
      (\<forall>h n x b. valid_ptr (k_ret K h IbAllocPd) \<and> valid_ptr (k_ret K h (IbCreateCq n)) \<and>
         k_ret K h (RdmaCreateQp n x) \<noteq> 0 \<and> valid_ptr (k_ret K h GetDmaMr))"
  shows "connect_setup K w = Inl NullDeref"
  using assms(3)
proof
  assume "IS_ERR (k_ret K (calls w) IbAllocPd)"
  with assms(1) show ?thesis
    by (simp add: connect_setup_def octopus_create_rdma_queues_def octopus_setup_buffers_def call_def Let_def deref_kptr_def)
next
  assume ok: "\<forall>h n x b. valid_ptr (k_ret K h IbAllocPd) \<and> valid_ptr (k_ret K h (IbCreateCq n)) \<and>
         k_ret K h (RdmaCreateQp n x) \<noteq> 0 \<and> valid_ptr (k_ret K h GetDmaMr)"
  then have "\<not> IS_ERR (k_ret K h IbAllocPd)" "deref_kptr (k_ret K h IbAllocPd) = Inr ()"
      "\<not> IS_ERR (k_ret K h (IbCreateCq n))" "k_ret K h (RdmaCreateQp n x) \<noteq> 0" "\<not> IS_ERR (k_ret K h GetDmaMr)" for h n x
    by (auto simp: valid_not_err)
  with assms(1,2) show ?thesis
    by (simp add: connect_setup_def octopus_create_rdma_queues_def octopus_create_qp_def octopus_setup_buffers_def
        octopus_setup_message_wr_def call_def Let_def deref_kptr_def [of 0])
qed

theorem ignored_setup_errors_fault_witness:
  "connect_setup (full_kernel\<lparr>k_ret := (\<lambda>_ c. if c = IbAllocPd then - 12 else 0)\<rparr>)
     (upd_session (\<lambda>s. s\<lparr>cm_id := 1\<rparr>) unloaded) = Inl NullDeref"
  by (rule ignored_setup_errors_fault)
    (simp_all add: valid_ptr_def IS_ERR_def unloaded_def rdma_session_global_def)

end
