(* ===== verification/Client_Names.thy ===== *)
theory Client_Names
  imports Client_Connection
begin

text \<open>
  The names the client prints for connection events, completion statuses, messages and session
  states (the debug functions of \<^verbatim>\<open>rdma_client.c\<close>). Each allocates 32 zeroed bytes and copies a
  name into them: the question is whether every name fits, and which values share a name. The first version of the
  client (the header \<^verbatim>\<open>rdma_client.h\<close>) has two of them, with another name for one state.
\<close>

section \<open>The naming functions\<close>

text \<open>The result \<open>p\<close> of the allocation is a parameter; copying into a null buffer faults, and so does
  a name that does not fit with its terminating null.\<close>

definition NAME_LEN :: nat where "NAME_LEN = 32"

definition name_buffer :: "int \<Rightarrow> string \<Rightarrow> string res" where
  "name_buffer p s =
     (if p = 0 then Inl NullDeref
      else if NAME_LEN < Suc (length s) then Inl OutOfBounds
      else Inr (buf_write (s @ [CHR 0x00]) (replicate NAME_LEN (CHR 0x00))))"

definition lookup_name :: "(int \<times> string) list \<Rightarrow> string \<Rightarrow> int \<Rightarrow> string" where
  "lookup_name names dflt i = (case map_of names i of None \<Rightarrow> dflt | Some s \<Rightarrow> s)"

definition cm_message_names :: "(int \<times> string) list" where
  "cm_message_names = [
    (0, ''RDMA_CM_EVENT_ADDR_RESOLVED''), (1, ''RDMA_CM_EVENT_ADDR_ERROR''),
    (2, ''RDMA_CM_EVENT_ROUTE_RESOLVED''), (3, ''RDMA_CM_EVENT_ROUTE_ERROR''),
    (4, ''RDMA_CM_EVENT_CONNECT_REQUEST''), (5, ''RDMA_CM_EVENT_CONNECT_RESPONSE''),
    (6, ''RDMA_CM_EVENT_CONNECT_ERROR''), (7, ''RDMA_CM_EVENT_UNREACHABLE''),
    (8, ''RDMA_CM_EVENT_REJECTED''), (9, ''RDMA_CM_EVENT_ESTABLISHED''),
    (10, ''RDMA_CM_EVENT_DISCONNECTED''), (11, ''RDMA_CM_EVENT_DEVICE_REMOVAL''),
    (12, ''RDMA_CM_EVENT_MULTICAST_JOIN''), (13, ''RDMA_CM_EVENT_MULTICAST_ERROR''),
    (14, ''RDMA_CM_EVENT_ADDR_CHANGE''), (15, ''RDMA_CM_EVENT_TIMEWAIT_EXIT'')]"

definition rdma_cm_message_print :: "int \<Rightarrow> int \<Rightarrow> string res" where
  "rdma_cm_message_print p i = name_buffer p (lookup_name cm_message_names ''ERROR Message Type'' i)"

definition wc_status_names :: "(int \<times> string) list" where
  "wc_status_names = [
    (0, ''IB_WC_SUCCESS''), (1, ''IB_WC_LOC_LEN_ERR''), (2, ''IB_WC_LOC_QP_OP_ERR''),
    (3, ''IB_WC_LOC_EEC_OP_ERR''), (4, ''IB_WC_LOC_PROT_ERR''), (5, ''IB_WC_WR_FLUSH_ERR''),
    (6, ''IB_WC_MW_BIND_ERR''), (7, ''IB_WC_BAD_RESP_ERR''), (8, ''IB_WC_LOC_ACCESS_ERR''),
    (9, ''IB_WC_REM_INV_REQ_ERR''), (10, ''IB_WC_REM_ACCESS_ERR''), (11, ''IB_WC_REM_OP_ERR''),
    (12, ''IB_WC_RETRY_EXC_ERR''), (13, ''IB_WC_RNR_RETRY_EXC_ERR''), (14, ''IB_WC_LOC_RDD_VIOL_ERR''),
    (15, ''IB_WC_REM_INV_RD_REQ_ERR''), (16, ''IB_WC_REM_ABORT_ERR''), (17, ''IB_WC_INV_EECN_ERR''),
    (18, ''IB_WC_INV_EEC_STATE_ERR''), (19, ''IB_WC_FATAL_ERR''), (20, ''IB_WC_RESP_TIMEOUT_ERR''),
    (21, ''IB_WC_GENERAL_ERR'')]"

definition rdma_wc_status_name :: "int \<Rightarrow> int \<Rightarrow> string res" where
  "rdma_wc_status_name p i = name_buffer p (lookup_name wc_status_names ''ERROR Message Type'' i)"

definition message_names :: "(int \<times> string) list" where
  "message_names = [
    (1, ''DONE''), (2, ''GOT_CHUNKS''), (3, ''GOT_SINGLE_CHUNK''), (4, ''FREE_SIZE''), (5, ''EVICT''),
    (6, ''ACTIVITY''), (7, ''STOP''), (8, ''REQUEST_CHUNKS''), (9, ''REQUEST_SINGLE_CHUNK''),
    (10, ''QUERY'')]"

definition rdma_message_print :: "int \<Rightarrow> int \<Rightarrow> string res" where
  "rdma_message_print p i = name_buffer p (lookup_name message_names ''ERROR Message Type'' i)"

definition session_state_names :: "(int \<times> string) list" where
  "session_state_names = [
    (1, ''IDLE''), (2, ''CONNECT_REQUEST''), (3, ''ADDR_RESOLVED''), (4, ''ROUTE_RESOLVED''),
    (5, ''CONNECTED''), (6, ''FREE_MEM_RECV''), (7, ''RECEIVED_CHUNKS''), (8, ''RDMA_BUF_ADV''),
    (9, ''WAIT_OPS''), (10, ''RECV_STOP''), (11, ''RECV_EVICT''), (12, ''RDMA_WRITE_RUNNING''),
    (13, ''RDMA_READ_RUNNING''), (14, ''SEND_DONE''), (15, ''RDMA_DONE''), (16, ''RDMA_READ_ADV''),
    (17, ''RDMA_WRITE_ADV''), (18, ''CM_DISCONNECT''), (19, ''ERROR'')]"

definition rdma_session_context_state_print :: "int \<Rightarrow> int \<Rightarrow> string res" where
  "rdma_session_context_state_print p i = name_buffer p (lookup_name session_state_names ''Un-defined state.'' i)"

section \<open>Properties\<close>

lemma name_buffer_holds:
  assumes "p \<noteq> 0" and "length s < NAME_LEN" and "CHR 0x00 \<notin> set s"
  shows "\<exists>buf. name_buffer p s = Inr buf \<and> length buf = NAME_LEN \<and> c_string buf = s"
proof -
  have "takeWhile (\<lambda>c. c \<noteq> CHR 0x00) (s @ CHR 0x00 # xs) = s" for xs
    using assms(3) by (subst takeWhile_append2) auto
  with assms(1,2) show ?thesis by (simp add: name_buffer_def buf_write_def c_string_def)
qed

lemma lookup_name_ok:
  assumes "\<forall>s \<in> set (dflt # map snd names). P s"
  shows "P (lookup_name names dflt i)"
  using assms by (auto simp: lookup_name_def split: option.splits dest!: map_of_SomeD)

lemma names_fit:
  "P = (\<lambda>s. length s < NAME_LEN \<and> CHR 0x00 \<notin> set s) \<Longrightarrow> \<forall>s \<in> set (''ERROR Message Type'' # map snd cm_message_names). P s"
  "P = (\<lambda>s. length s < NAME_LEN \<and> CHR 0x00 \<notin> set s) \<Longrightarrow> \<forall>s \<in> set (''ERROR Message Type'' # map snd wc_status_names). P s"
  "P = (\<lambda>s. length s < NAME_LEN \<and> CHR 0x00 \<notin> set s) \<Longrightarrow> \<forall>s \<in> set (''ERROR Message Type'' # map snd message_names). P s"
  "P = (\<lambda>s. length s < NAME_LEN \<and> CHR 0x00 \<notin> set s) \<Longrightarrow> \<forall>s \<in> set (''Un-defined state.'' # map snd session_state_names). P s"
  by (simp_all add: cm_message_names_def wc_status_names_def message_names_def session_state_names_def NAME_LEN_def)

text \<open>
  Every name fits its 32-byte buffer with the terminating null, for every value, known or not,
  of each of the four functions, and the buffer reads back as the name of the table.
\<close>

theorem every_name_fits_its_buffer:
  assumes "p \<noteq> 0"
  shows "\<exists>b1 b2 b3 b4.
     rdma_cm_message_print p i = Inr b1 \<and> c_string b1 = lookup_name cm_message_names ''ERROR Message Type'' i \<and>
     rdma_wc_status_name p i = Inr b2 \<and> c_string b2 = lookup_name wc_status_names ''ERROR Message Type'' i \<and>
     rdma_message_print p i = Inr b3 \<and> c_string b3 = lookup_name message_names ''ERROR Message Type'' i \<and>
     rdma_session_context_state_print p i = Inr b4 \<and> c_string b4 = lookup_name session_state_names ''Un-defined state.'' i \<and>
     length b1 = 32 \<and> length b2 = 32 \<and> length b3 = 32 \<and> length b4 = 32"
proof -
  have "\<exists>b. name_buffer p (lookup_name names d i) = Inr b \<and> length b = NAME_LEN \<and> c_string b = lookup_name names d i"
    if "\<forall>s \<in> set (d # map snd names). length s < NAME_LEN \<and> CHR 0x00 \<notin> set s" for names d
    using name_buffer_holds [OF assms] lookup_name_ok [OF that] by blast
  note this [OF names_fit(1) [OF refl]] this [OF names_fit(2) [OF refl]]
    this [OF names_fit(3) [OF refl]] this [OF names_fit(4) [OF refl]]
  then show ?thesis
    unfolding rdma_cm_message_print_def rdma_wc_status_name_def rdma_message_print_def
      rdma_session_context_state_print_def NAME_LEN_def by metis
qed

theorem every_name_fits_its_buffer_witness:
  "\<exists>b. rdma_cm_message_print 1 5 = Inr b \<and> c_string b = ''RDMA_CM_EVENT_CONNECT_RESPONSE'' \<and> length b = 32"
  using every_name_fits_its_buffer [of 1 5] by (auto simp: lookup_name_def cm_message_names_def)

text \<open>
  The printed name identifies the session state, except for \<^verbatim>\<open>TEST_DONE\<close>, which the table
  lacks and which prints like a value that is no state at all.
\<close>

theorem session_state_names_identify_all_but_one:
  "lookup_name session_state_names d (session_state_code TEST_DONE) = lookup_name session_state_names d 0 \<and>
   (\<forall>s t. s \<noteq> TEST_DONE \<and> t \<noteq> TEST_DONE \<and>
      lookup_name session_state_names d (session_state_code s) = lookup_name session_state_names d (session_state_code t)
      \<longrightarrow> s = t)"
proof (intro conjI allI impI)
  show "lookup_name session_state_names d (session_state_code TEST_DONE) = lookup_name session_state_names d 0"
    by (simp add: lookup_name_def session_state_names_def)
  have name: "lookup_name session_state_names d (session_state_code s) = the (map_of session_state_names (session_state_code s))"
    if "s \<noteq> TEST_DONE" for s
    using that by (cases s) (simp_all add: lookup_name_def session_state_names_def)
  have "distinct (map snd session_state_names)" by (simp add: session_state_names_def)
  then have d: "inj_on snd (set session_state_names)" by (simp add: distinct_map)
  have mem: "(session_state_code s, the (map_of session_state_names (session_state_code s))) \<in> set session_state_names"
    if "s \<noteq> TEST_DONE" for s
    using that by (cases s) (simp_all add: session_state_names_def)
  fix s t assume st: "s \<noteq> TEST_DONE \<and> t \<noteq> TEST_DONE \<and>
      lookup_name session_state_names d (session_state_code s) = lookup_name session_state_names d (session_state_code t)"
  then have "session_state_code s = session_state_code t"
    using inj_onD [OF d _ mem mem, of s t] name [of s] name [of t] by simp
  then show "s = t" by (rule session_state_code_inject)
qed

theorem session_state_names_identify_all_but_one_witness:
  "lookup_name session_state_names ''Un-defined state.'' (session_state_code TEST_DONE) = ''Un-defined state.''"
  using session_state_names_identify_all_but_one [of "''Un-defined state.''"]
  by (simp add: lookup_name_def session_state_names_def)

section \<open>The names of the first version\<close>

definition early_message_names :: "(int \<times> string) list" where
  "early_message_names = [
    (1, ''DONE''), (2, ''GOT_CHUNKS''), (3, ''GOT_SINGLE_CHUNK''), (4, ''FREE_SIZE''), (5, ''EVICT''),
    (6, ''ACTIVITY''), (7, ''STOP''), (8, ''REQUEST_CHUNKS''), (9, ''REQUEST_SINGLE_CHUNK''), (10, ''QUERY'')]"

definition early_rdma_message_print :: "int \<Rightarrow> int \<Rightarrow> string res" where
  "early_rdma_message_print p message_id = name_buffer p (lookup_name early_message_names ''ERROR Message Type'' message_id)"

definition early_session_state_names :: "(int \<times> string) list" where
  "early_session_state_names = [
    (1, ''IDLE''), (2, ''CONNECT_REQUEST''), (3, ''ADDR_RESOLVED''), (4, ''ROUTE_RESOLVED''),
    (5, ''CONNECTED''), (6, ''FREE_MEM_RECV''), (7, ''AFTER_FREE_MEM''), (8, ''RDMA_BUF_ADV''),
    (9, ''WAIT_OPS''), (10, ''RECV_STOP''), (11, ''RECV_EVICT''), (12, ''RDMA_WRITE_RUNNING''),
    (13, ''RDMA_READ_RUNNING''), (14, ''SEND_DONE''), (15, ''RDMA_DONE''), (16, ''RDMA_READ_ADV''),
    (17, ''RDMA_WRITE_ADV''), (18, ''CM_DISCONNECT''), (19, ''ERROR'')]"

definition early_session_state_print :: "int \<Rightarrow> int \<Rightarrow> string res" where
  "early_session_state_print p i = name_buffer p (lookup_name early_session_state_names ''Un-defined state.'' i)"

text \<open>Both versions print the same names, but for the state numbered seven.\<close>

lemma early_names_differ_in_one_state:
  "early_rdma_message_print p i = rdma_message_print p i"
  "i \<noteq> 7 \<Longrightarrow> early_session_state_print p i = rdma_session_context_state_print p i"
  "p \<noteq> 0 \<Longrightarrow> \<exists>b. early_session_state_print p 7 = Inr b \<and> c_string b = ''AFTER_FREE_MEM''"
proof -
  show "early_rdma_message_print p i = rdma_message_print p i"
    by (simp add: early_rdma_message_print_def rdma_message_print_def early_message_names_def message_names_def)
  show "early_session_state_print p i = rdma_session_context_state_print p i" if "i \<noteq> 7"
    using that by (simp add: early_session_state_print_def rdma_session_context_state_print_def lookup_name_def
        early_session_state_names_def session_state_names_def)
  show "\<exists>b. early_session_state_print p 7 = Inr b \<and> c_string b = ''AFTER_FREE_MEM''" if "p \<noteq> 0"
    using name_buffer_holds [OF that, of "''AFTER_FREE_MEM''"]
    by (auto simp: early_session_state_print_def lookup_name_def early_session_state_names_def NAME_LEN_def)
qed

end
