(* ===== verification/Memory_Server.thy ===== *)
theory Memory_Server
  imports Wire
begin

text \<open>
  The memory server (\<^verbatim>\<open>rdma-common.c\<close>, \<^verbatim>\<open>infiniswap-daemon.c\<close>): its table of one-gigabyte chunks,
  the connections of its clients, the messages it answers, and the adaptation of its offer to the
  memory that is free. The host (verbs library, allocator, random numbers, memory information) is
  a parameter.
\<close>

section \<open>Data\<close>

definition MAX_CLIENT :: nat where "MAX_CLIENT = 1"
definition EXTRA_CHUNK_NUM :: int where "EXTRA_CHUNK_NUM = 2"
definition MAX_FREE_MEM_GB :: nat where "MAX_FREE_MEM_GB = 32"
definition MAX_MR_SIZE_GB :: nat where "MAX_MR_SIZE_GB = 32"
definition ONE_MB :: int where "ONE_MB = 1048576"
definition FREE_MEM_EVICT_THRESHOLD :: int where "FREE_MEM_EVICT_THRESHOLD = 8"
definition FREE_MEM_EXPAND_THRESHOLD :: int where "FREE_MEM_EXPAND_THRESHOLD = 16"
definition MEM_EVICT_HIT_THRESHOLD :: int where "MEM_EVICT_HIT_THRESHOLD = 1"
definition MEM_EXPAND_HIT_THRESHOLD :: int where "MEM_EXPAND_HIT_THRESHOLD = 20"
definition CQ_QP_BUSY :: int where "CQ_QP_BUSY = 1"
definition CQ_QP_IDLE :: int where "CQ_QP_IDLE = 0"
definition CHUNK_MALLOCED :: int where "CHUNK_MALLOCED = 1"
definition CHUNK_EMPTY :: int where "CHUNK_EMPTY = 0"

datatype server_state = S_WAIT | S_BIND | S_STATE_DONE
datatype send_state = SS_INIT | SS_MR_SENT | SS_STOP_SENT | SS_DONE_SENT
datatype recv_state = RS_INIT | RS_STOPPED_RECV | RS_DONE_RECV
datatype conn_state = CONN_IDLE | CONN_CONNECTED | CONN_MAPPED | CONN_FAILED

record connection =
  conn_index :: int
  sess_chunk_map :: "int list"
  mapped_chunk_size :: int
  evict_sem :: nat
  stop_sem :: nat
  connected :: int
  recv_msg :: message
  send_msg :: message
  cq_qp_state :: int
  conn_server_state :: server_state
  conn_send_state :: send_state
  conn_recv_state :: recv_state

record rdma_remote_mem =
  region_list :: "u64 list"
  mr_list :: "(u64 \<times> u32) list"
  size_gb :: int
  mapped_size :: int
  conn_map :: "int list"
  malloc_map :: "int list"
  conn_chunk_map :: "int list"

record qp_attr =
  max_send_wr :: int
  max_recv_wr :: int
  max_send_sge :: int
  max_recv_sge :: int

record conn_param =
  initiator_depth :: int
  responder_resources :: int
  rnr_retry_count :: int

text \<open>What the server asks of its host, in the order in which it asks.\<close>

datatype scall =
    AllocPd | CreateCompChannel | CreateCq | ReqNotifyCq | PthreadCreate | CreateQp nat qp_attr
  | RegMsgMr nat | DeregMsgMr nat | RegMr u64 | DeregMr "u64 \<times> u32" | PostRecv nat | PostSend nat message
  | Accept nat conn_param | DestroyQp nat | DestroyId nat
  | FreeRegion u64
  | CreateEventChannel | CreateListener | BindAddr string string | Listen int | StartFreeMemThread
  | DestroyListener | DestroyEventChannel

text \<open>
  The connections that exist are in \<open>conn_heap\<close>, by the number of the connection identifier whose
  context they are; \<open>conns\<close> holds the pointers the session keeps.
\<close>

record server =
  conn_heap :: "connection option list"
  conns :: "nat option list"
  conns_state :: "conn_state list"
  conn_num :: int
  rdma_remote :: rdma_remote_mem
  running :: int
  s_ctx :: "int option"
  s_calls :: "scall list"

text \<open>
  The host: results of the checked calls (the asserting macros only distinguish zero), the key
  and address of a registered region, the address an allocation returns for chunk \<open>i\<close>, random
  numbers, the smoothing of the free-memory measurements (floating point), and the values of
  uninitialised memory.
\<close>

record host =
  h_ret :: "scall list \<Rightarrow> scall \<Rightarrow> int"
  h_rkey :: "scall list \<Rightarrow> u64 \<Rightarrow> u32"
  h_alloc :: "scall list \<Rightarrow> nat \<Rightarrow> u64"
  h_rand :: "nat \<Rightarrow> nat"
  h_filter :: "int \<Rightarrow> int \<Rightarrow> int"
  h_undef :: int
  h_raw_message :: message

section \<open>Arrays indexed by C integers\<close>

definition int_get :: "'a list \<Rightarrow> int \<Rightarrow> 'a res" where
  "int_get xs i = (if 0 \<le> i \<and> i < int (length xs) then Inr (xs ! nat i) else Inl OutOfBounds)"

definition int_set :: "'a list \<Rightarrow> int \<Rightarrow> 'a \<Rightarrow> 'a list res" where
  "int_set xs i x = (if 0 \<le> i \<and> i < int (length xs) then Inr (xs[nat i := x]) else Inl OutOfBounds)"

lemma int_get_Inr_iff: "int_get xs i = Inr x \<longleftrightarrow> 0 \<le> i \<and> i < int (length xs) \<and> xs ! nat i = x"
  by (auto simp: int_get_def)

lemma int_set_Inr_iff: "int_set xs i x = Inr ys \<longleftrightarrow> 0 \<le> i \<and> i < int (length xs) \<and> ys = xs[nat i := x]"
  by (auto simp: int_set_def)

lemmas server_inversion = res_inversion int_get_Inr_iff int_set_Inr_iff

section \<open>Calls and connections\<close>

definition s_call :: "scall \<Rightarrow> server \<Rightarrow> server" where
  "s_call c s = s\<lparr>s_calls := s_calls s @ [c]\<rparr>"

text \<open>\<^verbatim>\<open>TEST_NZ\<close> ends the program on a non-zero result, \<^verbatim>\<open>TEST_Z\<close> on a zero one.\<close>

definition test_nz :: "host \<Rightarrow> scall \<Rightarrow> server \<Rightarrow> server res" where
  "test_nz H c s = (if h_ret H (s_calls s) c \<noteq> 0 then Inl (Exit ''returned non-zero'') else Inr (s_call c s))"

definition test_z :: "host \<Rightarrow> scall \<Rightarrow> server \<Rightarrow> server res" where
  "test_z H c s = (if h_ret H (s_calls s) c = 0 then Inl (Exit ''returned zero/null'') else Inr (s_call c s))"

definition get_conn :: "server \<Rightarrow> nat \<Rightarrow> connection res" where
  "get_conn s k = res_bind (array_get (conn_heap s) k) deref"

definition upd_conn :: "nat \<Rightarrow> (connection \<Rightarrow> connection) \<Rightarrow> server \<Rightarrow> server" where
  "upd_conn k f s = s\<lparr>conn_heap := (conn_heap s)[k := map_option f (conn_heap s ! k)]\<rparr>"

definition upd_remote :: "(rdma_remote_mem \<Rightarrow> rdma_remote_mem) \<Rightarrow> server \<Rightarrow> server" where
  "upd_remote f s = s\<lparr>rdma_remote := f (rdma_remote s)\<rparr>"

definition atomic_init :: int where
  "atomic_init = - 1"

definition atomic_set :: "int \<Rightarrow> connection \<Rightarrow> connection" where
  "atomic_set v c = c\<lparr>cq_qp_state := v\<rparr>"

definition atomic_read :: "connection \<Rightarrow> int" where
  "atomic_read c = cq_qp_state c"

definition die :: "string \<Rightarrow> 'a res" where
  "die reason = Inl (Exit reason)"

section \<open>Free memory\<close>

text \<open>
  The number in the second line of the memory information, read character by character from the
  60 bytes of the line buffer (the line, then nulls).
\<close>

definition digit_step :: "char \<Rightarrow> int \<Rightarrow> int" where
  "digit_step c res = (if 48 \<le> (of_char c :: int) \<and> (of_char c :: int) \<le> 57 then res * 10 + (of_char c - 48) else res)"

definition get_free_mem :: "string \<Rightarrow> int" where
  "get_free_mem result = fold digit_step (take 60 result) 0"

definition free_mem_in_gb :: "string \<Rightarrow> int" where
  "free_mem_in_gb line = get_free_mem line div ONE_MB"

text \<open>How much of the free memory is offered at the start.\<close>

definition initial_offer :: "int \<Rightarrow> int" where
  "initial_offer free_mem_g =
     (let free_mem_g =
        (if free_mem_g > FREE_MEM_EXPAND_THRESHOLD
         then free_mem_g - (FREE_MEM_EVICT_THRESHOLD + FREE_MEM_EXPAND_THRESHOLD) div 2
         else if free_mem_g > FREE_MEM_EVICT_THRESHOLD then free_mem_g - FREE_MEM_EVICT_THRESHOLD
         else 0)
      in if free_mem_g > int MAX_FREE_MEM_GB then int MAX_FREE_MEM_GB else free_mem_g)"

text \<open>Allocating chunk \<open>i\<close>.\<close>

definition alloc_chunk :: "host \<Rightarrow> nat \<Rightarrow> server \<Rightarrow> server" where
  "alloc_chunk H i s = upd_remote (\<lambda>r. r\<lparr>region_list := (region_list r)[i := h_alloc H (s_calls s) i],
     malloc_map := (malloc_map r)[i := CHUNK_MALLOCED]\<rparr>) s"

definition rdma_session_init :: "host \<Rightarrow> string \<Rightarrow> server \<Rightarrow> server" where
  "rdma_session_init H line s =
     (let free_mem_g = initial_offer (free_mem_in_gb line);
          s = upd_remote (\<lambda>r. r\<lparr>conn_map := replicate MAX_FREE_MEM_GB (- 1),
                conn_chunk_map := replicate MAX_FREE_MEM_GB (- 1),
                malloc_map := replicate MAX_FREE_MEM_GB CHUNK_EMPTY\<rparr>) s;
          s = fold (alloc_chunk H) [0..<nat free_mem_g] s;
          s = upd_remote (\<lambda>r. r\<lparr>size_gb := free_mem_g, mapped_size := 0\<rparr>) s
      in s\<lparr>conns := replicate MAX_CLIENT None, conns_state := replicate MAX_CLIENT CONN_IDLE, conn_num := 0\<rparr>)"

section \<open>Messages\<close>

definition post_receives :: "host \<Rightarrow> nat \<Rightarrow> server \<Rightarrow> server res" where
  "post_receives H k s = res_bind (get_conn s k) (\<lambda>_. test_nz H (PostRecv k) s)"

text \<open>A message is sent once the connection is established; before that the sender spins.\<close>

definition send_message :: "host \<Rightarrow> nat \<Rightarrow> server \<Rightarrow> server res" where
  "send_message H k s =
     res_bind (get_conn s k) (\<lambda>c. if connected c = 0 then Inl Blocked else test_nz H (PostSend k (send_msg c)) s)"

definition upd_send_msg :: "nat \<Rightarrow> (message \<Rightarrow> message) \<Rightarrow> server \<Rightarrow> server" where
  "upd_send_msg k f = upd_conn k (\<lambda>c. c\<lparr>send_msg := f (send_msg c)\<rparr>)"

definition clear_rkeys :: "message \<Rightarrow> message" where
  "clear_rkeys m = m\<lparr>msg_rkey := replicate MAX_MR_SIZE_GB 0\<rparr>"

definition chunk_free :: "nat \<Rightarrow> server \<Rightarrow> bool" where
  "chunk_free i s \<longleftrightarrow> malloc_map (rdma_remote s) ! i = CHUNK_MALLOCED \<and> conn_map (rdma_remote s) ! i = - 1"

text \<open>Giving chunk \<open>i\<close> to connection \<open>k\<close>: ownership, registration, and its entry in the message.\<close>

definition map_chunk :: "host \<Rightarrow> nat \<Rightarrow> nat \<Rightarrow> server \<Rightarrow> server res" where
  "map_chunk H k i s =
     res_bind (get_conn s k) (\<lambda>c.
       let s = upd_conn k (\<lambda>c. c\<lparr>sess_chunk_map := (sess_chunk_map c)[i := int i]\<rparr>) s;
           s = upd_remote (\<lambda>r. r\<lparr>conn_map := (conn_map r)[i := conn_index c]\<rparr>) s;
           region = region_list (rdma_remote s) ! i;
           rkey = h_rkey H (s_calls s) region
       in res_bind (test_z H (RegMr region) s) (\<lambda>s.
            let s = upd_remote (\<lambda>r. r\<lparr>mr_list := (mr_list r)[i := (region, rkey)]\<rparr>) s
            in Inr (upd_send_msg k (\<lambda>m. m\<lparr>msg_buf := (msg_buf m)[i := htonll region],
                      msg_rkey := (msg_rkey m)[i := htonl rkey]\<rparr>) s)))"

fun map_first_free :: "host \<Rightarrow> nat \<Rightarrow> nat list \<Rightarrow> server \<Rightarrow> server res" where
  "map_first_free H k [] s = Inr s"
| "map_first_free H k (i # is) s = (if chunk_free i s then map_chunk H k i s else map_first_free H k is s)"

definition add_mapped :: "nat \<Rightarrow> int \<Rightarrow> server \<Rightarrow> server" where
  "add_mapped k n s = upd_conn k (\<lambda>c. c\<lparr>mapped_chunk_size := mapped_chunk_size c + n\<rparr>)
     (upd_remote (\<lambda>r. r\<lparr>mapped_size := mapped_size r + n\<rparr>) s)"

definition send_single_chunk_to_client :: "host \<Rightarrow> nat \<Rightarrow> int \<Rightarrow> server \<Rightarrow> server res" where
  "send_single_chunk_to_client H k client_chunk_index s =
     res_bind (get_conn s k) (\<lambda>_.
       let s = upd_send_msg k (\<lambda>m. clear_rkeys (m\<lparr>msg_size_gb := client_chunk_index\<rparr>)) s
       in res_bind (map_first_free H k [0..<MAX_FREE_MEM_GB] s) (\<lambda>s.
            let s = add_mapped k 1 s;
                s = upd_send_msg k (\<lambda>m. m\<lparr>msg_type := server_message_type_code SEND_SINGLE_CHUNK\<rparr>) s
            in send_message H k s))"

fun send_loop :: "host \<Rightarrow> nat \<Rightarrow> nat list \<Rightarrow> int \<Rightarrow> server \<Rightarrow> server res" where
  "send_loop H k [] sent_chunk_count s = Inr s"
| "send_loop H k (i # is) sent_chunk_count s =
     (if chunk_free i s
      then res_bind (map_chunk H k i s) (\<lambda>s.
             if sent_chunk_count - 1 = 0 then Inr s else send_loop H k is (sent_chunk_count - 1) s)
      else send_loop H k is sent_chunk_count s)"

definition send_chunks_to_client :: "host \<Rightarrow> nat \<Rightarrow> int \<Rightarrow> server \<Rightarrow> server res" where
  "send_chunks_to_client H k n_gb s =
     res_bind (get_conn s k) (\<lambda>_.
       let s = upd_send_msg k (\<lambda>m. clear_rkeys (m\<lparr>msg_size_gb := n_gb\<rparr>)) s
       in res_bind (send_loop H k [0..<MAX_FREE_MEM_GB] n_gb s) (\<lambda>s.
            let s = add_mapped k n_gb s;
                s = upd_send_msg k (\<lambda>m. m\<lparr>msg_type := server_message_type_code SEND_CHUNKS\<rparr>) s
            in send_message H k s))"

definition send_free_mem_size :: "host \<Rightarrow> nat \<Rightarrow> server \<Rightarrow> server res" where
  "send_free_mem_size H k s =
     res_bind (get_conn s k) (\<lambda>_.
       send_message H k (upd_send_msg k (\<lambda>m. m\<lparr>msg_type := server_message_type_code S_FREE_SIZE,
         msg_size_gb := size_gb (rdma_remote s) - mapped_size (rdma_remote s)\<rparr>) s))"

definition send_evict :: "host \<Rightarrow> nat \<Rightarrow> int \<Rightarrow> server \<Rightarrow> server res" where
  "send_evict H k n s =
     res_bind (get_conn s k) (\<lambda>_.
       send_message H k (upd_send_msg k (\<lambda>m. clear_rkeys (m\<lparr>msg_type := server_message_type_code S_EVICT, msg_size_gb := n\<rparr>)) s))"

definition send_terminate :: "host \<Rightarrow> nat \<Rightarrow> server \<Rightarrow> server res" where
  "send_terminate H k s =
     res_bind (get_conn s k) (\<lambda>_.
       send_message H k (upd_send_msg k (\<lambda>m. m\<lparr>msg_type := server_message_type_code S_DONE\<rparr>) s))"

section \<open>Handlers\<close>

text \<open>One stopped chunk of a client's final message: its entry is looked up in the connection's map.\<close>

definition stop_chunk :: "nat \<Rightarrow> nat \<Rightarrow> server \<Rightarrow> server res" where
  "stop_chunk k i s =
     res_bind (get_conn s k) (\<lambda>c.
     res_bind (int_get (sess_chunk_map c) (int i)) (\<lambda>index.
       let s = upd_conn k (\<lambda>c. c\<lparr>sess_chunk_map := (sess_chunk_map c)[i := - 1]\<rparr>) s;
           r = rdma_remote s
       in res_bind (int_get (mr_list r) index) (\<lambda>mr.
          res_bind (int_get (region_list r) index) (\<lambda>region.
          res_bind (int_set (conn_map r) index (- 1)) (\<lambda>cm.
          res_bind (int_set (malloc_map r) index CHUNK_EMPTY) (\<lambda>mm.
          res_bind (int_set (conn_chunk_map r) index (- 1)) (\<lambda>ccm.
            Inr (upd_remote (\<lambda>r. r\<lparr>conn_map := cm, malloc_map := mm, conn_chunk_map := ccm\<rparr>)
                   (s_call (FreeRegion region) (s_call (DeregMr mr) s))))))))))"

fun stop_chunks :: "nat \<Rightarrow> nat list \<Rightarrow> message \<Rightarrow> server \<Rightarrow> server res" where
  "stop_chunks k [] m s = Inr s"
| "stop_chunks k (i # is) m s =
     (if msg_rkey m ! i \<noteq> 0 then res_bind (stop_chunk k i s) (stop_chunks k is m) else stop_chunks k is m s)"

definition finish_done :: "host \<Rightarrow> nat \<Rightarrow> int \<Rightarrow> server \<Rightarrow> server res" where
  "finish_done H k evict_g s =
     (let s = upd_remote (\<lambda>r. r\<lparr>size_gb := size_gb r - evict_g, mapped_size := mapped_size r - evict_g\<rparr>) s;
          s = upd_conn k (\<lambda>c. c\<lparr>mapped_chunk_size := mapped_chunk_size c - evict_g, stop_sem := stop_sem c + 1\<rparr>) s
      in res_bind (get_conn s k) (\<lambda>c.
         res_bind (if mapped_chunk_size c = 0
                   then res_bind (int_set (conns_state s) (conn_index c) CONN_CONNECTED) (\<lambda>cs. Inr (s\<lparr>conns_state := cs\<rparr>))
                   else Inr s) (post_receives H k)))"

definition recv_done :: "host \<Rightarrow> nat \<Rightarrow> server \<Rightarrow> server res" where
  "recv_done H k s =
     res_bind (get_conn s k) (\<lambda>c.
     res_bind (stop_chunks k [0..<MAX_MR_SIZE_GB] (recv_msg c) s) (finish_done H k (msg_size_gb (recv_msg c))))"

definition set_conn_state :: "nat \<Rightarrow> conn_state \<Rightarrow> server \<Rightarrow> server res" where
  "set_conn_state k st s =
     res_bind (get_conn s k) (\<lambda>c. res_bind (int_set (conns_state s) (conn_index c) st) (\<lambda>cs. Inr (s\<lparr>conns_state := cs\<rparr>)))"

text \<open>
  A completion on connection \<open>k\<close>: its status, and the message the adapter has placed in the
  receive buffer, or none for the completion of a send.
\<close>

definition handle_recv :: "host \<Rightarrow> nat \<Rightarrow> server \<Rightarrow> server res" where
  "handle_recv H k s =
     res_bind (get_conn s k) (\<lambda>c.
       let m = recv_msg c
       in if msg_type m = server_message_type_code S_QUERY
          then res_bind (send_free_mem_size H k (upd_conn k (atomic_set CQ_QP_BUSY) s)) (post_receives H k)
          else if msg_type m = server_message_type_code S_REQUEST_CHUNKS
          then res_bind (send_chunks_to_client H k (msg_size_gb m)
                 (upd_conn k (\<lambda>c. (atomic_set CQ_QP_BUSY c)\<lparr>conn_server_state := S_BIND\<rparr>) s)) (\<lambda>s.
               res_bind (set_conn_state k CONN_MAPPED s) (post_receives H k))
          else if msg_type m = server_message_type_code S_REQUEST_SINGLE_CHUNK
          then res_bind (send_single_chunk_to_client H k (msg_size_gb m)
                 (upd_conn k (\<lambda>c. (atomic_set CQ_QP_BUSY c)\<lparr>conn_server_state := S_BIND\<rparr>) s)) (\<lambda>s.
               res_bind (set_conn_state k CONN_MAPPED s) (post_receives H k))
          else if msg_type m = server_message_type_code S_ACTIVITY
          then Inr (upd_conn k (\<lambda>c. c\<lparr>evict_sem := evict_sem c + 1\<rparr>) s)
          else if msg_type m = server_message_type_code S_DONE
          then recv_done H k (upd_conn k (atomic_set CQ_QP_BUSY) s)
          else die ''unknow received message'')"

definition handle_cqe :: "host \<Rightarrow> nat \<Rightarrow> int \<Rightarrow> message option \<Rightarrow> server \<Rightarrow> server res" where
  "handle_cqe H k status msg s =
     res_bind (get_conn s k) (\<lambda>_.
       if status \<noteq> 0 then die ''handle_cqe: status is not IBV_WC_SUCCESS.''
       else case msg of
           None \<Rightarrow> Inr (upd_conn k (atomic_set CQ_QP_IDLE) s)
         | Some m \<Rightarrow> handle_recv H k (upd_conn k (\<lambda>c. c\<lparr>recv_msg := m\<rparr>) s))"

fun poll_cq :: "host \<Rightarrow> (nat \<times> int \<times> message option) list \<Rightarrow> server \<Rightarrow> server res" where
  "poll_cq H [] s = Inr s"
| "poll_cq H ((k, status, msg) # wcs) s = res_bind (handle_cqe H k status msg s) (poll_cq H wcs)"

section \<open>Connections\<close>

definition build_params :: conn_param where
  "build_params = \<lparr>initiator_depth = 1, responder_resources = 1, rnr_retry_count = 7\<rparr>"

definition build_qp_attr :: qp_attr where
  "build_qp_attr = \<lparr>max_send_wr = 10, max_recv_wr = 100, max_send_sge = 1, max_recv_sge = 1\<rparr>"

definition build_context :: "host \<Rightarrow> int \<Rightarrow> server \<Rightarrow> server res" where
  "build_context H verbs s =
     (case s_ctx s of
        Some v \<Rightarrow> if v \<noteq> verbs then die ''cannot handle events in more than one context.'' else Inr s
      | None \<Rightarrow>
          res_bind (test_z H AllocPd (s\<lparr>s_ctx := Some verbs\<rparr>)) (\<lambda>s.
          res_bind (test_z H CreateCompChannel s) (\<lambda>s.
          res_bind (test_z H CreateCq s) (\<lambda>s.
          res_bind (test_nz H ReqNotifyCq s) (\<lambda>s.
            test_nz H PthreadCreate s)))))"

definition register_memory :: "host \<Rightarrow> nat \<Rightarrow> server \<Rightarrow> server res" where
  "register_memory H k s =
     (let s = upd_conn k (\<lambda>c. c\<lparr>send_msg := h_raw_message H, recv_msg := h_raw_message H\<rparr>) s
      in res_bind (test_z H (RegMsgMr k) s) (test_z H (RegMsgMr k)))"

definition new_connection :: "host \<Rightarrow> connection" where
  "new_connection H = atomic_set CQ_QP_BUSY \<lparr>conn_index = h_undef H, sess_chunk_map = replicate MAX_FREE_MEM_GB (- 1),
     mapped_chunk_size = 0, evict_sem = 0, stop_sem = 0, connected = 0, recv_msg = h_raw_message H,
     send_msg = h_raw_message H, cq_qp_state = atomic_init, conn_server_state = S_WAIT,
     conn_send_state = SS_INIT, conn_recv_state = RS_INIT\<rparr>"

text \<open>The first idle slot of the session takes the connection; without one its index stays undefined.\<close>

definition add_to_session :: "nat \<Rightarrow> server \<Rightarrow> server" where
  "add_to_session k s =
     (case find (\<lambda>i. conns_state s ! i = CONN_IDLE) [0..<MAX_CLIENT] of
        None \<Rightarrow> s
      | Some i \<Rightarrow> upd_conn k (\<lambda>c. c\<lparr>conn_index := int i\<rparr>)
          (s\<lparr>conns := (conns s)[i := Some k], conns_state := (conns_state s)[i := CONN_CONNECTED]\<rparr>))"

text \<open>\<open>k\<close>, the number of the new connection identifier, is the next one.\<close>

definition build_connection :: "host \<Rightarrow> int \<Rightarrow> server \<Rightarrow> server res" where
  "build_connection H verbs s =
     (let k = length (conn_heap s)
      in res_bind (build_context H verbs s) (\<lambda>s.
         res_bind (test_nz H (CreateQp k build_qp_attr) s) (\<lambda>s.
           let s = s\<lparr>conn_heap := conn_heap s @ [Some (new_connection H)]\<rparr>;
               s = add_to_session k s;
               s = s\<lparr>conn_num := conn_num s + 1\<rparr>
           in res_bind (register_memory H k s) (post_receives H k))))"

fun unmap_chunks :: "int list \<Rightarrow> rdma_remote_mem \<Rightarrow> rdma_remote_mem res" where
  "unmap_chunks [] r = Inr r"
| "unmap_chunks (index # ix) r =
     (if index = - 1 then unmap_chunks ix r
      else res_bind (int_set (conn_map r) index (- 1)) (\<lambda>cm.
           res_bind (int_set (conn_chunk_map r) index (- 1)) (\<lambda>ccm.
             unmap_chunks ix (r\<lparr>conn_map := cm, conn_chunk_map := ccm\<rparr>))))"

definition destroy_connection :: "nat \<Rightarrow> server \<Rightarrow> server res" where
  "destroy_connection k s =
     res_bind (get_conn s k) (\<lambda>c.
       let s = s_call (DeregMsgMr k) (s_call (DeregMsgMr k) (s_call (DestroyQp k) s))
       in res_bind (if 0 < mapped_chunk_size c
                    then res_bind (unmap_chunks (take MAX_MR_SIZE_GB (sess_chunk_map c)) (rdma_remote s)) (\<lambda>r.
                           Inr (s\<lparr>rdma_remote := r\<lparr>mapped_size := mapped_size r - mapped_chunk_size c\<rparr>\<rparr>))
                    else Inr s) (\<lambda>s.
          res_bind (int_set (conns s) (conn_index c) None) (\<lambda>cs.
          res_bind (int_set (conns_state s) (conn_index c) CONN_IDLE) (\<lambda>st.
            let s = s\<lparr>conns := cs, conns_state := st, conn_num := conn_num s - 1\<rparr>;
                s = (if conn_num s = 0 then s\<lparr>running := 0\<rparr> else s)
            in Inr ((s_call (DestroyId k) s)\<lparr>conn_heap := (conn_heap s)[k := None]\<rparr>)))))"

definition on_connect :: "nat \<Rightarrow> server \<Rightarrow> server res" where
  "on_connect k s = res_bind (get_conn s k) (\<lambda>_. Inr (upd_conn k (\<lambda>c. c\<lparr>connected := 1\<rparr>) s))"

definition on_connect_request :: "host \<Rightarrow> int \<Rightarrow> server \<Rightarrow> (int \<times> server) res" where
  "on_connect_request H verbs s =
     (let k = length (conn_heap s)
      in res_bind (build_connection H verbs s) (\<lambda>s.
         res_bind (test_nz H (Accept k build_params) s) (\<lambda>s. Inr (0, s))))"

definition rdma_connected :: "host \<Rightarrow> nat \<Rightarrow> server \<Rightarrow> (int \<times> server) res" where
  "rdma_connected H k s =
     res_bind (on_connect k s) (\<lambda>s. res_bind (send_free_mem_size H k s) (\<lambda>s. Inr (0, s)))"

definition on_disconnect :: "nat \<Rightarrow> server \<Rightarrow> (int \<times> server) res" where
  "on_disconnect k s = res_bind (destroy_connection k s) (\<lambda>s. Inr (0, s))"

datatype cm_event = ConnectRequest int | Established nat | Disconnected nat | OtherCmEvent

definition on_cm_event :: "host \<Rightarrow> cm_event \<Rightarrow> server \<Rightarrow> (int \<times> server) res" where
  "on_cm_event H e s =
     (case e of
        ConnectRequest verbs \<Rightarrow> on_connect_request H verbs s
      | Established k \<Rightarrow> rdma_connected H k s
      | Disconnected k \<Rightarrow> on_disconnect k s
      | OtherCmEvent \<Rightarrow> die ''on_cm_event: unknown event.'')"

section \<open>The invariant of the server\<close>

text \<open>
  The tables have one entry per chunk, a mapped chunk is allocated; a connection's map sends a
  slot to nothing or to the chunk of the same number, which is then recorded as mapped to that
  connection; and no chunk is in the maps of two connections.
\<close>

definition wf_remote :: "rdma_remote_mem \<Rightarrow> bool" where
  "wf_remote r \<longleftrightarrow> length (region_list r) = 32 \<and> length (mr_list r) = 32 \<and> length (conn_map r) = 32 \<and>
     length (malloc_map r) = 32 \<and> length (conn_chunk_map r) = 32 \<and>
     (\<forall>i < 32. conn_map r ! i \<noteq> - 1 \<longrightarrow> malloc_map r ! i = CHUNK_MALLOCED)"

definition owns :: "connection \<Rightarrow> nat \<Rightarrow> bool" where
  "owns c i \<longleftrightarrow> sess_chunk_map c ! i = int i"

definition conn_ok :: "rdma_remote_mem \<Rightarrow> connection \<Rightarrow> bool" where
  "conn_ok r c \<longleftrightarrow> length (sess_chunk_map c) = 32 \<and> wf_message (send_msg c) \<and> conn_index c \<noteq> - 1 \<and>
     (\<forall>i < 32. sess_chunk_map c ! i = - 1 \<or> owns c i \<and> conn_map r ! i = conn_index c)"

definition exclusive :: "server \<Rightarrow> bool" where
  "exclusive s \<longleftrightarrow> (\<forall>k k' c c' i. get_conn s k = Inr c \<and> get_conn s k' = Inr c' \<and> k \<noteq> k' \<and> i < 32
     \<longrightarrow> \<not> (owns c i \<and> owns c' i))"

definition inv_server :: "server \<Rightarrow> bool" where
  "inv_server s \<longleftrightarrow> wf_remote (rdma_remote s) \<and> (\<forall>k c. get_conn s k = Inr c \<longrightarrow> conn_ok (rdma_remote s) c) \<and>
     exclusive s"

definition host_ok :: "host \<Rightarrow> bool" where
  "host_ok H \<longleftrightarrow> h_undef H \<noteq> - 1 \<and> wf_message (h_raw_message H)"

lemma max_simps [simp]: "MAX_FREE_MEM_GB = 32" "MAX_MR_SIZE_GB = 32" "MAX_CHUNKS = 32"
  by (simp_all add: MAX_FREE_MEM_GB_def MAX_MR_SIZE_GB_def MAX_CHUNKS_def)

lemma get_conn_upd_conn:
  "get_conn (upd_conn k f s) j =
     (if j = k then (case get_conn s k of Inl e \<Rightarrow> Inl e | Inr c \<Rightarrow> Inr (f c)) else get_conn s j)"
  by (cases "conn_heap s ! k")
    (auto simp: get_conn_def upd_conn_def array_get_def nth_update_if split: if_splits)

lemma upd_conn_simps [simp]:
  "rdma_remote (upd_conn k f s) = rdma_remote s" "conns (upd_conn k f s) = conns s"
  "conns_state (upd_conn k f s) = conns_state s" "conn_num (upd_conn k f s) = conn_num s"
  "s_calls (upd_conn k f s) = s_calls s" "running (upd_conn k f s) = running s" "s_ctx (upd_conn k f s) = s_ctx s"
  "length (conn_heap (upd_conn k f s)) = length (conn_heap s)"
  by (simp_all add: upd_conn_def)

lemma upd_remote_simps [simp]:
  "rdma_remote (upd_remote g s) = g (rdma_remote s)" "get_conn (upd_remote g s) = get_conn s"
  "conns (upd_remote g s) = conns s" "conns_state (upd_remote g s) = conns_state s"
  "conn_num (upd_remote g s) = conn_num s" "s_calls (upd_remote g s) = s_calls s"
  "running (upd_remote g s) = running s" "conn_heap (upd_remote g s) = conn_heap s"
  by (simp_all add: upd_remote_def get_conn_def fun_eq_iff)

lemma s_call_simps [simp]:
  "rdma_remote (s_call x s) = rdma_remote s" "get_conn (s_call x s) = get_conn s" "conns (s_call x s) = conns s"
  "conns_state (s_call x s) = conns_state s" "conn_num (s_call x s) = conn_num s"
  "s_calls (s_call x s) = s_calls s @ [x]" "running (s_call x s) = running s" "conn_heap (s_call x s) = conn_heap s"
  by (simp_all add: s_call_def get_conn_def fun_eq_iff)

lemma get_conn_frame [simp]:
  "get_conn (s\<lparr>conns := x1\<rparr>) = get_conn s" "get_conn (s\<lparr>conns_state := x2\<rparr>) = get_conn s"
  "get_conn (s\<lparr>conn_num := x3\<rparr>) = get_conn s" "get_conn (s\<lparr>running := x4\<rparr>) = get_conn s"
  "get_conn (s\<lparr>s_ctx := x5\<rparr>) = get_conn s" "get_conn (s\<lparr>rdma_remote := x6\<rparr>) = get_conn s"
  by (simp_all add: get_conn_def fun_eq_iff)

text \<open>Updates of a connection that leave its ownership alone.\<close>

definition own_frame :: "(connection \<Rightarrow> connection) \<Rightarrow> bool" where
  "own_frame f \<longleftrightarrow> (\<forall>c. sess_chunk_map (f c) = sess_chunk_map c \<and> conn_index (f c) = conn_index c \<and>
     (wf_message (send_msg c) \<longrightarrow> wf_message (send_msg (f c))))"

lemma owns_own_frame: "own_frame f \<Longrightarrow> owns (f c) i = owns c i"
  by (simp add: own_frame_def owns_def)

lemma conn_ok_own_frame: "own_frame f \<Longrightarrow> conn_ok r c \<Longrightarrow> conn_ok r (f c)"
  by (simp add: own_frame_def conn_ok_def owns_def)

lemma inv_upd_conn:
  assumes "inv_server s" and "own_frame f"
  shows "inv_server (upd_conn k f s)"
proof -
  have *: "\<exists>c0. get_conn s j = Inr c0 \<and> (c = c0 \<or> c = f c0)" if "get_conn (upd_conn k f s) j = Inr c" for j c
    using that by (auto simp: get_conn_upd_conn split: if_splits sum.splits)
  have "conn_ok (rdma_remote s) c" if "get_conn (upd_conn k f s) j = Inr c" for j c
    using * [OF that] assms conn_ok_own_frame by (auto simp: inv_server_def)
  moreover have "exclusive (upd_conn k f s)"
    unfolding exclusive_def
  proof (intro allI impI)
    fix j j' c c' and i :: nat
    assume j: "get_conn (upd_conn k f s) j = Inr c \<and> get_conn (upd_conn k f s) j' = Inr c' \<and> j \<noteq> j' \<and> i < 32"
    then obtain c0 c0' where "get_conn s j = Inr c0" "get_conn s j' = Inr c0'"
        "owns c i = owns c0 i" "owns c' i = owns c0' i"
      using * owns_own_frame [OF assms(2)] by metis
    with j assms(1) show "\<not> (owns c i \<and> owns c' i)" unfolding inv_server_def exclusive_def by blast
  qed
  ultimately show ?thesis using assms(1) by (simp add: inv_server_def)
qed

text \<open>Changes of everything else.\<close>

lemma inv_same:
  assumes "inv_server s" and "rdma_remote s' = rdma_remote s" and "get_conn s' = get_conn s"
  shows "inv_server s'"
proof -
  have "exclusive s' = exclusive s" unfolding exclusive_def assms(3) ..
  then show ?thesis using assms by (simp add: inv_server_def)
qed

lemma inv_s_call [simp]: "inv_server (s_call x s) = inv_server s"
  using inv_same [of s "s_call x s"] inv_same [of "s_call x s" s] by auto

lemma test_inv:
  "test_nz H x s = Inr s' \<Longrightarrow> s' = s_call x s" "test_z H x s = Inr s' \<Longrightarrow> s' = s_call x s"
  by (auto simp: test_nz_def test_z_def split: if_splits)

text \<open>Changes of the chunk table that do not touch who owns what.\<close>

lemma inv_upd_remote:
  assumes "inv_server s" and "wf_remote (g (rdma_remote s))" and "conn_map (g (rdma_remote s)) = conn_map (rdma_remote s)"
  shows "inv_server (upd_remote g s)"
proof -
  have "exclusive (upd_remote g s) = exclusive s" unfolding exclusive_def upd_remote_simps ..
  moreover have "conn_ok (g (rdma_remote s)) c = conn_ok (rdma_remote s) c" for c by (simp add: conn_ok_def assms(3))
  ultimately show ?thesis using assms(1,2) by (simp add: inv_server_def)
qed

text \<open>One connection gains a free chunk or loses one of its own; nobody else is concerned.\<close>

lemma inv_change:
  assumes inv: "inv_server s" and wf: "wf_remote (rdma_remote s')"
    and c: "get_conn s k = Inr c" and c': "get_conn s' k = Inr c'"
    and others: "\<And>j. j \<noteq> k \<Longrightarrow> get_conn s' j = get_conn s j"
    and keep: "length (sess_chunk_map c') = 32" "wf_message (send_msg c')" "conn_index c' = conn_index c"
    and i0: "i0 < 32"
    and same: "\<And>i. i < 32 \<Longrightarrow> i \<noteq> i0 \<Longrightarrow> sess_chunk_map c' ! i = sess_chunk_map c ! i \<and>
        conn_map (rdma_remote s') ! i = conn_map (rdma_remote s) ! i"
    and change: "(owns c' i0 \<and> conn_map (rdma_remote s') ! i0 = conn_index c \<and> conn_map (rdma_remote s) ! i0 = - 1)
        \<or> (sess_chunk_map c' ! i0 = - 1 \<and> owns c i0)"
  shows "inv_server s'"
proof -
  from inv have ok: "conn_ok (rdma_remote s) x" if "get_conn s j = Inr x" for j x
    using that by (auto simp: inv_server_def)
  have nobody: "\<not> owns x i0" if "get_conn s j = Inr x" "j \<noteq> k" for j x
    using change
  proof
    assume "owns c' i0 \<and> conn_map (rdma_remote s') ! i0 = conn_index c \<and> conn_map (rdma_remote s) ! i0 = - 1"
    with ok [OF that(1)] i0 show ?thesis by (auto simp: conn_ok_def owns_def)
  next
    assume "sess_chunk_map c' ! i0 = - 1 \<and> owns c i0"
    with inv c that i0 show ?thesis unfolding inv_server_def exclusive_def by blast
  qed
  have own_c': "owns c' i = owns c i" if "i < 32" "i \<noteq> i0" for i
    using same [OF that] by (simp add: owns_def)
  have "conn_ok (rdma_remote s') x" if x: "get_conn s' j = Inr x" for j x
  proof (cases "j = k")
    case True
    with x c' have "x = c'" by simp
    with ok [OF c] keep same own_c' change show ?thesis unfolding conn_ok_def by metis
  next
    case False
    with others x have "get_conn s j = Inr x" by simp
    with ok nobody [OF _ False] same show ?thesis unfolding conn_ok_def owns_def by metis
  qed
  moreover have "exclusive s'"
    unfolding exclusive_def
  proof (intro allI impI)
    fix j j' x x' and i :: nat
    assume j: "get_conn s' j = Inr x \<and> get_conn s' j' = Inr x' \<and> j \<noteq> j' \<and> i < 32"
    have own: "\<exists>y. get_conn s l = Inr y \<and> (owns z i \<longrightarrow> owns y i)" if "get_conn s' l = Inr z" "l \<noteq> k \<or> i \<noteq> i0" for l z
      using that others [of l] c c' own_c' [of i] j by (cases "l = k") auto
    show "\<not> (owns x i \<and> owns x' i)"
    proof (cases "i = i0")
      case True
      with j nobody others show ?thesis by metis
    next
      case False
      with own j inv show ?thesis unfolding inv_server_def exclusive_def by metis
    qed
  qed
  ultimately show ?thesis using wf by (simp add: inv_server_def)
qed

lemma wf_remote_map:
  assumes "wf_remote r" and "malloc_map r ! i = CHUNK_MALLOCED" and "i < 32"
  shows "wf_remote (r\<lparr>conn_map := (conn_map r)[i := v], mr_list := (mr_list r)[i := m]\<rparr>)"
  using assms by (auto simp: wf_remote_def nth_update_if)

lemma map_chunk_eq:
  assumes "map_chunk H k i s = Inr s'" and "get_conn s k = Inr c"
  shows "s' = upd_send_msg k (\<lambda>m. m\<lparr>msg_buf := (msg_buf m)[i := htonll (region_list (rdma_remote s) ! i)],
           msg_rkey := (msg_rkey m)[i := htonl (h_rkey H (s_calls s) (region_list (rdma_remote s) ! i))]\<rparr>)
      (upd_remote (\<lambda>r. r\<lparr>conn_map := (conn_map r)[i := conn_index c],
           mr_list := (mr_list r)[i := (region_list r ! i, h_rkey H (s_calls s) (region_list r ! i))]\<rparr>)
      (s_call (RegMr (region_list (rdma_remote s) ! i))
      (upd_conn k (\<lambda>c. c\<lparr>sess_chunk_map := (sess_chunk_map c)[i := int i]\<rparr>) s)))"
  using assms
  by (auto simp: map_chunk_def Let_def res_inversion dest!: test_inv)
    (simp add: upd_remote_def s_call_def upd_conn_def upd_send_msg_def)

lemma inv_map_chunk:
  assumes inv: "inv_server s" and free: "chunk_free i s" "i < 32" and res: "map_chunk H k i s = Inr s'"
  shows "inv_server s'"
proof -
  from res obtain c where c: "get_conn s k = Inr c" by (auto simp: map_chunk_def res_inversion)
  note s' = map_chunk_eq [OF res c]
  have ok: "conn_ok (rdma_remote s) c" using inv c by (simp add: inv_server_def)
  show ?thesis
  proof (rule inv_change [OF inv _ c])
    have "wf_remote (rdma_remote s)" using inv by (simp add: inv_server_def)
    with free show "wf_remote (rdma_remote s')"
      by (simp add: s' upd_send_msg_def chunk_free_def wf_remote_map)
    let ?c = "c\<lparr>sess_chunk_map := (sess_chunk_map c)[i := int i], send_msg := (send_msg c)\<lparr>
      msg_buf := (msg_buf (send_msg c))[i := htonll (region_list (rdma_remote s) ! i)],
      msg_rkey := (msg_rkey (send_msg c))[i := htonl (h_rkey H (s_calls s) (region_list (rdma_remote s) ! i))]\<rparr>\<rparr>"
    show "get_conn s' k = Inr ?c" using c by (simp add: s' upd_send_msg_def get_conn_upd_conn)
    show "get_conn s' j = get_conn s j" if "j \<noteq> k" for j using that by (simp add: s' upd_send_msg_def get_conn_upd_conn)
    show "length (sess_chunk_map ?c) = 32" "conn_index ?c = conn_index c" "wf_message (send_msg ?c)"
      using ok by (simp_all add: conn_ok_def wf_message_def)
    have len: "length (conn_map (rdma_remote s)) = 32" using inv by (simp add: inv_server_def wf_remote_def)
    show "sess_chunk_map ?c ! j = sess_chunk_map c ! j \<and> conn_map (rdma_remote s') ! j = conn_map (rdma_remote s) ! j"
      if "j < 32" "j \<noteq> i" for j using that ok len by (simp add: s' upd_send_msg_def conn_ok_def)
    show "owns ?c i \<and> conn_map (rdma_remote s') ! i = conn_index c \<and> conn_map (rdma_remote s) ! i = - 1 \<or>
      sess_chunk_map ?c ! i = - 1 \<and> owns c i"
      using free ok len by (simp add: s' upd_send_msg_def owns_def chunk_free_def conn_ok_def)
  qed (rule free)
qed

lemma inv_send_loop:
  "inv_server s \<Longrightarrow> \<forall>i \<in> set is. i < 32 \<Longrightarrow> send_loop H k is n s = Inr s' \<Longrightarrow> inv_server s'"
proof (induction "is" arbitrary: n s)
  case Nil
  then show ?case by simp
next
  case (Cons i "is")
  show ?case
  proof (cases "chunk_free i s")
    case False
    with Cons show ?thesis by simp
  next
    case True
    with Cons.prems(3) obtain s1 where 1: "map_chunk H k i s = Inr s1"
        "(if n - 1 = 0 then Inr s1 else send_loop H k is (n - 1) s1) = Inr s'"
      by (auto simp: res_inversion)
    have "inv_server s1" using inv_map_chunk [OF Cons.prems(1) True _ 1(1)] Cons.prems(2) by simp
    with 1(2) Cons.IH Cons.prems(2) show ?thesis by (simp split: if_splits)
  qed
qed

lemma inv_first_free:
  "inv_server s \<Longrightarrow> \<forall>i \<in> set is. i < 32 \<Longrightarrow> map_first_free H k is s = Inr s' \<Longrightarrow> inv_server s'"
  by (induction "is") (auto split: if_splits dest: inv_map_chunk)

lemma own_frame_simps [simp]:
  "own_frame (\<lambda>c. c\<lparr>send_msg := f (send_msg c)\<rparr>) \<longleftrightarrow> (\<forall>m :: message. wf_message m \<longrightarrow> wf_message (f m))"
  "own_frame (\<lambda>c. c\<lparr>mapped_chunk_size := g c\<rparr>)" "own_frame (\<lambda>c. c\<lparr>connected := n\<rparr>)" "own_frame (atomic_set v)"
  "own_frame (\<lambda>c. c\<lparr>recv_msg := m\<rparr>)" "own_frame (\<lambda>c. c\<lparr>evict_sem := h c\<rparr>)" "own_frame (\<lambda>c. c\<lparr>stop_sem := h c\<rparr>)"
  "own_frame (\<lambda>c. (atomic_set v c)\<lparr>conn_server_state := x\<rparr>)"
  "own_frame (\<lambda>c. c\<lparr>mapped_chunk_size := g c, stop_sem := h c\<rparr>)"
proof -
  show "own_frame (\<lambda>c. c\<lparr>send_msg := f (send_msg c)\<rparr>) \<longleftrightarrow> (\<forall>m :: message. wf_message m \<longrightarrow> wf_message (f m))"
    unfolding own_frame_def by (metis connection.select_convs(8) connection.surjective connection.update_convs(8)
        connection.ext_inject)
qed (simp_all add: own_frame_def atomic_set_def)

lemma wf_message_simps [simp]:
  "wf_message (m\<lparr>msg_type := t\<rparr>) = wf_message m" "wf_message (m\<lparr>msg_size_gb := n\<rparr>) = wf_message m"
  "wf_message m \<Longrightarrow> wf_message (clear_rkeys m)"
  by (simp_all add: wf_message_def clear_rkeys_def)

lemma inv_upd_send_msg:
  "inv_server s \<Longrightarrow> (\<And>m :: message. wf_message m \<Longrightarrow> wf_message (f m)) \<Longrightarrow> inv_server (upd_send_msg k f s)"
  unfolding upd_send_msg_def by (rule inv_upd_conn) simp_all

lemma wf_remote_sizes [simp]:
  "wf_remote (r\<lparr>mapped_size := n\<rparr>) = wf_remote r" "wf_remote (r\<lparr>size_gb := n\<rparr>) = wf_remote r"
  by (simp_all add: wf_remote_def)

lemma inv_add_mapped: "inv_server s \<Longrightarrow> inv_server (add_mapped k n s)"
  unfolding add_mapped_def
  by (intro inv_upd_conn inv_upd_remote) (simp_all add: inv_server_def)

lemma inv_send_message: "inv_server s \<Longrightarrow> send_message H k s = Inr s' \<Longrightarrow> inv_server s'"
  by (auto simp: send_message_def res_inversion split: if_splits dest: test_inv)

lemma inv_post_receives: "inv_server s \<Longrightarrow> post_receives H k s = Inr s' \<Longrightarrow> inv_server s'"
  by (auto simp: post_receives_def res_inversion dest: test_inv)

lemma inv_send_chunks:
  assumes "inv_server s" and "send_chunks_to_client H k n s = Inr s'"
  shows "inv_server s'"
proof -
  let ?s = "upd_send_msg k (\<lambda>m. clear_rkeys (m\<lparr>msg_size_gb := n\<rparr>)) s"
  from assms(2) obtain s1 where s1: "send_loop H k [0..<32] n ?s = Inr s1"
      and snd: "send_message H k (upd_send_msg k (\<lambda>m. m\<lparr>msg_type := server_message_type_code SEND_CHUNKS\<rparr>) (add_mapped k n s1)) = Inr s'"
    by (auto simp: send_chunks_to_client_def Let_def res_inversion simp del: upt_rec_numeral)
  have "inv_server ?s" using assms(1) by (intro inv_upd_send_msg) simp_all
  from inv_send_loop [OF this _ s1] have "inv_server s1" by (simp del: upt_rec_numeral)
  then have "inv_server (upd_send_msg k (\<lambda>m. m\<lparr>msg_type := server_message_type_code SEND_CHUNKS\<rparr>) (add_mapped k n s1))"
    by (intro inv_upd_send_msg inv_add_mapped) simp_all
  then show ?thesis using snd by (rule inv_send_message)
qed

lemma inv_send_single:
  assumes "inv_server s" and "send_single_chunk_to_client H k n s = Inr s'"
  shows "inv_server s'"
proof -
  let ?s = "upd_send_msg k (\<lambda>m. clear_rkeys (m\<lparr>msg_size_gb := n\<rparr>)) s"
  from assms(2) obtain s1 where s1: "map_first_free H k [0..<32] ?s = Inr s1"
      and snd: "send_message H k (upd_send_msg k (\<lambda>m. m\<lparr>msg_type := server_message_type_code SEND_SINGLE_CHUNK\<rparr>) (add_mapped k 1 s1)) = Inr s'"
    by (auto simp: send_single_chunk_to_client_def Let_def res_inversion simp del: upt_rec_numeral)
  have "inv_server ?s" using assms(1) by (intro inv_upd_send_msg) simp_all
  from inv_first_free [OF this _ s1] have "inv_server s1" by (simp del: upt_rec_numeral)
  then have "inv_server (upd_send_msg k (\<lambda>m. m\<lparr>msg_type := server_message_type_code SEND_SINGLE_CHUNK\<rparr>) (add_mapped k 1 s1))"
    by (intro inv_upd_send_msg inv_add_mapped) simp_all
  then show ?thesis using snd by (rule inv_send_message)
qed

lemma inv_send_simple:
  "inv_server s \<Longrightarrow> send_free_mem_size H k s = Inr s' \<Longrightarrow> inv_server s'"
  "inv_server s \<Longrightarrow> send_evict H k n s = Inr s' \<Longrightarrow> inv_server s'"
  "inv_server s \<Longrightarrow> send_terminate H k s = Inr s' \<Longrightarrow> inv_server s'"
  by (auto simp: send_free_mem_size_def send_evict_def send_terminate_def res_inversion
      elim!: inv_send_message [rotated] intro!: inv_upd_send_msg)

lemma inv_stop_chunk:
  assumes inv: "inv_server s" and i: "i < 32" and res: "stop_chunk k i s = Inr s'"
  shows "inv_server s'"
proof -
  from res obtain c where c: "get_conn s k = Inr c" by (auto simp: stop_chunk_def res_inversion)
  have ok: "conn_ok (rdma_remote s) c" and wf: "wf_remote (rdma_remote s)" using inv c by (simp_all add: inv_server_def)
  let ?r = "rdma_remote s" and ?x = "sess_chunk_map c ! i"
  let ?u = "upd_conn k (\<lambda>c. c\<lparr>sess_chunk_map := (sess_chunk_map c)[i := - 1]\<rparr>) s"
  from res c obtain index mr region cm mm ccm where
      get: "int_get (sess_chunk_map c) (int i) = Inr index" and "int_get (mr_list ?r) index = Inr mr"
      and set: "int_set (conn_map ?r) index (- 1) = Inr cm" "int_set (malloc_map ?r) index CHUNK_EMPTY = Inr mm"
        "int_set (conn_chunk_map ?r) index (- 1) = Inr ccm"
      and s1: "s' = upd_remote (\<lambda>r. r\<lparr>conn_map := cm, malloc_map := mm, conn_chunk_map := ccm\<rparr>)
         (s_call (FreeRegion region) (s_call (DeregMr mr) ?u))"
    by (auto simp: stop_chunk_def res_bind_Inr_iff Let_def)
  from get have ix: "index = ?x" by (simp add: int_get_Inr_iff)
  from set(1) ix have x: "0 \<le> ?x" by (simp add: int_set_Inr_iff)
  from set ix have s': "s' = upd_remote (\<lambda>r. r\<lparr>conn_map := (conn_map ?r)[nat ?x := - 1],
         malloc_map := (malloc_map ?r)[nat ?x := CHUNK_EMPTY], conn_chunk_map := (conn_chunk_map ?r)[nat ?x := - 1]\<rparr>)
         (s_call (FreeRegion region) (s_call (DeregMr mr) ?u))"
    by (simp only: s1 int_set_Inr_iff)
  from x ok i have own: "owns c i" "nat ?x = i" by (auto simp: conn_ok_def owns_def)
  let ?c = "c\<lparr>sess_chunk_map := (sess_chunk_map c)[i := - 1]\<rparr>"
  show ?thesis
  proof (rule inv_change [OF inv _ c])
    show "wf_remote (rdma_remote s')" using wf own(2) by (auto simp: s' wf_remote_def nth_update_if)
    show "get_conn s' k = Inr ?c" using c by (simp add: s' get_conn_upd_conn)
    show "get_conn s' j = get_conn s j" if "j \<noteq> k" for j using that by (simp add: s' get_conn_upd_conn)
    show "length (sess_chunk_map ?c) = 32" "wf_message (send_msg ?c)" "conn_index ?c = conn_index c"
      using ok by (simp_all add: conn_ok_def)
    show "sess_chunk_map ?c ! j = sess_chunk_map c ! j \<and> conn_map (rdma_remote s') ! j = conn_map (rdma_remote s) ! j"
      if "j < 32" "j \<noteq> i" for j using that own(2) by (simp add: s')
    show "owns ?c i \<and> conn_map (rdma_remote s') ! i = conn_index c \<and> conn_map (rdma_remote s) ! i = - 1 \<or>
      sess_chunk_map ?c ! i = - 1 \<and> owns c i"
      using own i ok by (simp add: conn_ok_def)
  qed (rule i)
qed

lemma inv_stop_chunks:
  "inv_server s \<Longrightarrow> \<forall>i \<in> set is. i < 32 \<Longrightarrow> stop_chunks k is m s = Inr s' \<Longrightarrow> inv_server s'"
  by (induction "is" arbitrary: s) (auto simp: res_inversion split: if_splits dest: inv_stop_chunk)

lemma inv_conns_state: "inv_server s \<Longrightarrow> inv_server (s\<lparr>conns_state := st\<rparr>)"
  by (erule inv_same) simp_all

lemma inv_finish_done:
  assumes "inv_server s" and "finish_done H k n s = Inr s'"
  shows "inv_server s'"
proof -
  let ?s = "upd_conn k (\<lambda>c. c\<lparr>mapped_chunk_size := mapped_chunk_size c - n, stop_sem := stop_sem c + 1\<rparr>)
      (upd_remote (\<lambda>r. r\<lparr>size_gb := size_gb r - n, mapped_size := mapped_size r - n\<rparr>) s)"
  have "inv_server (upd_remote (\<lambda>r. r\<lparr>size_gb := size_gb r - n, mapped_size := mapped_size r - n\<rparr>) s)"
    using assms(1) by (intro inv_upd_remote) (simp_all add: inv_server_def)
  then have inv: "inv_server ?s" by (intro inv_upd_conn) simp_all
  from assms(2) obtain u where u: "post_receives H k u = Inr s'" "u = ?s \<or> (\<exists>st. u = ?s\<lparr>conns_state := st\<rparr>)"
    by (auto simp: finish_done_def Let_def res_bind_Inr_iff split: if_splits)
  with inv inv_conns_state have "inv_server u" by blast
  then show ?thesis using u(1) by (rule inv_post_receives)
qed

lemma inv_recv_done:
  assumes "inv_server s" and "recv_done H k s = Inr s'"
  shows "inv_server s'"
proof -
  from assms(2) obtain c :: connection and s1 where s1: "stop_chunks k [0..<32] (recv_msg c) s = Inr s1"
      and s': "finish_done H k (msg_size_gb (recv_msg c)) s1 = Inr s'"
    by (auto simp: recv_done_def res_bind_Inr_iff simp del: upt_rec_numeral)
  have "inv_server s1" using inv_stop_chunks [OF assms(1) _ s1] by (simp del: upt_rec_numeral)
  then show ?thesis using s' by (rule inv_finish_done)
qed

lemma inv_set_conn_state: "inv_server s \<Longrightarrow> set_conn_state k st s = Inr s' \<Longrightarrow> inv_server s'"
  by (auto simp: set_conn_state_def res_bind_Inr_iff inv_conns_state)

lemma inv_handle_recv:
  assumes "inv_server s" and "handle_recv H k s = Inr s'"
  shows "inv_server s'"
proof -
  let ?b = "upd_conn k (\<lambda>c. (atomic_set CQ_QP_BUSY c)\<lparr>conn_server_state := S_BIND\<rparr>) s"
    and ?q = "upd_conn k (atomic_set CQ_QP_BUSY) s"
  have b: "inv_server ?b" and q: "inv_server ?q" and e: "inv_server (upd_conn k (\<lambda>c. c\<lparr>evict_sem := evict_sem c + 1\<rparr>) s)"
    using assms(1) by (auto intro: inv_upd_conn)
  from assms(2) obtain c where "get_conn s k = Inr c" by (auto simp: handle_recv_def res_bind_Inr_iff)
  with assms(2) consider
      s1 where "send_free_mem_size H k ?q = Inr s1" "post_receives H k s1 = Inr s'"
    | n s1 s2 where "send_chunks_to_client H k n ?b = Inr s1 \<or> send_single_chunk_to_client H k n ?b = Inr s1"
        "set_conn_state k CONN_MAPPED s1 = Inr s2" "post_receives H k s2 = Inr s'"
    | "s' = upd_conn k (\<lambda>c. c\<lparr>evict_sem := evict_sem c + 1\<rparr>) s"
    | "recv_done H k ?q = Inr s'"
    by (auto simp: handle_recv_def res_bind_Inr_iff Let_def die_def split: if_splits)
  then show ?thesis
  proof cases
    case 1
    then show ?thesis using q inv_send_simple(1) inv_post_receives by blast
  next
    case 2
    then have "inv_server s1" using b inv_send_chunks inv_send_single by blast
    with 2 show ?thesis using inv_set_conn_state inv_post_receives by blast
  next
    case 3
    with e show ?thesis by simp
  next
    case 4
    with q show ?thesis by (rule inv_recv_done)
  qed
qed

lemma inv_handle_cqe:
  assumes "inv_server s" and "handle_cqe H k status msg s = Inr s'"
  shows "inv_server s'"
proof (cases msg)
  case None
  with assms show ?thesis by (auto simp: handle_cqe_def res_bind_Inr_iff die_def intro: inv_upd_conn split: if_splits)
next
  case (Some m)
  with assms(2) have "handle_recv H k (upd_conn k (\<lambda>c. c\<lparr>recv_msg := m\<rparr>) s) = Inr s'"
    by (auto simp: handle_cqe_def res_bind_Inr_iff die_def split: if_splits)
  moreover have "inv_server (upd_conn k (\<lambda>c. c\<lparr>recv_msg := m\<rparr>) s)" using assms(1) by (intro inv_upd_conn) simp_all
  ultimately show ?thesis using inv_handle_recv by blast
qed

lemma get_conn_append:
  "get_conn (s\<lparr>conn_heap := conn_heap s @ [x]\<rparr>) j =
     (if j = length (conn_heap s) then deref x else get_conn s j)"
  by (auto simp: get_conn_def array_get_def nth_append)

lemma inv_new_connection:
  assumes inv: "inv_server s" and H: "host_ok H"
  shows "inv_server (s\<lparr>conn_heap := conn_heap s @ [Some (new_connection H)]\<rparr>)"
proof -
  let ?s = "s\<lparr>conn_heap := conn_heap s @ [Some (new_connection H)]\<rparr>" and ?n = "new_connection H"
  have none: "\<not> owns ?n i" if "i < 32" for i using that by (simp add: owns_def new_connection_def atomic_set_def)
  have ok: "conn_ok (rdma_remote s) ?n"
    using H by (simp add: conn_ok_def new_connection_def atomic_set_def host_ok_def)
  have g: "x = ?n \<or> j \<noteq> length (conn_heap s) \<and> get_conn s j = Inr x" if "get_conn ?s j = Inr x" for j x
    using that by (auto simp: get_conn_append split: if_splits)
  have "exclusive ?s"
    unfolding exclusive_def
  proof (intro allI impI)
    fix j j' x x' and i :: nat
    assume j: "get_conn ?s j = Inr x \<and> get_conn ?s j' = Inr x' \<and> j \<noteq> j' \<and> i < 32"
    then consider "x = ?n" | "x' = ?n" | "get_conn s j = Inr x" "get_conn s j' = Inr x'" using g by blast
    then show "\<not> (owns x i \<and> owns x' i)"
      using none j inv by cases (auto simp: inv_server_def exclusive_def)
  qed
  moreover have "conn_ok (rdma_remote s) x" if "get_conn ?s j = Inr x" for j x
    using g [OF that] ok inv by (auto simp: inv_server_def)
  ultimately show ?thesis using inv by (simp add: inv_server_def)
qed

text \<open>Setting the index of a connection that owns nothing.\<close>

lemma inv_set_index:
  assumes inv: "inv_server s" and c: "get_conn s k = Inr c" and none: "\<forall>i < 32. \<not> owns c i"
  shows "inv_server (upd_conn k (\<lambda>c. c\<lparr>conn_index := int n\<rparr>) s)"
proof -
  let ?s = "upd_conn k (\<lambda>c. c\<lparr>conn_index := int n\<rparr>) s"
  have ok: "conn_ok (rdma_remote s) c" using inv c by (simp add: inv_server_def)
  have g: "j = k \<and> x = c\<lparr>conn_index := int n\<rparr> \<or> j \<noteq> k \<and> get_conn s j = Inr x" if "get_conn ?s j = Inr x" for j x
    using that c by (auto simp: get_conn_upd_conn split: if_splits)
  have "conn_ok (rdma_remote s) (c\<lparr>conn_index := int n\<rparr>)" using ok none by (auto simp: conn_ok_def owns_def)
  then have "conn_ok (rdma_remote s) x" if "get_conn ?s j = Inr x" for j x
    using g [OF that] inv by (auto simp: inv_server_def)
  moreover have "exclusive ?s"
    unfolding exclusive_def
  proof (intro allI impI)
    fix j j' x x' and i :: nat
    assume j: "get_conn ?s j = Inr x \<and> get_conn ?s j' = Inr x' \<and> j \<noteq> j' \<and> i < 32"
    have none': "\<not> owns (c\<lparr>conn_index := int n\<rparr>) i" using none j by (simp add: owns_def)
    consider "x = c\<lparr>conn_index := int n\<rparr>" | "x' = c\<lparr>conn_index := int n\<rparr>"
      | "get_conn s j = Inr x" "get_conn s j' = Inr x'" using g j by blast
    then show "\<not> (owns x i \<and> owns x' i)"
      using none' j inv by cases (auto simp: inv_server_def exclusive_def)
  qed
  ultimately show ?thesis using inv by (simp add: inv_server_def)
qed

lemma inv_build_context:
  "inv_server s \<Longrightarrow> build_context H verbs s = Inr s' \<Longrightarrow> inv_server s' \<and> conn_heap s' = conn_heap s"
proof -
  have c: "inv_server (s\<lparr>s_ctx := x\<rparr>)" if "inv_server s" for x by (rule inv_same [OF that]) simp_all
  show "inv_server s \<Longrightarrow> build_context H verbs s = Inr s' \<Longrightarrow> inv_server s' \<and> conn_heap s' = conn_heap s"
    using c by (auto simp: build_context_def res_bind_Inr_iff die_def dest!: test_inv split: option.splits if_splits)
qed

lemma inv_add_to_session:
  assumes "inv_server s" and "get_conn s k = Inr c" and "\<forall>i < 32. \<not> owns c i"
  shows "inv_server (add_to_session k s)"
proof (cases "find (\<lambda>i. conns_state s ! i = CONN_IDLE) [0..<MAX_CLIENT]")
  case None
  with assms(1) show ?thesis by (simp add: add_to_session_def)
next
  case (Some i)
  let ?u = "s\<lparr>conns := (conns s)[i := Some k], conns_state := (conns_state s)[i := CONN_CONNECTED]\<rparr>"
  have "inv_server ?u" by (rule inv_same [OF assms(1)]) simp_all
  moreover have "get_conn ?u k = Inr c" using assms(2) by simp
  ultimately show ?thesis using assms(3) Some by (simp add: add_to_session_def inv_set_index)
qed

lemma inv_register_memory:
  assumes "host_ok H" and "inv_server s" and "register_memory H k s = Inr s'"
  shows "inv_server s'"
proof -
  have "own_frame (\<lambda>c. c\<lparr>send_msg := h_raw_message H, recv_msg := h_raw_message H\<rparr>)"
    using assms(1) by (simp add: own_frame_def host_ok_def)
  then have "inv_server (upd_conn k (\<lambda>c. c\<lparr>send_msg := h_raw_message H, recv_msg := h_raw_message H\<rparr>) s)"
    by (rule inv_upd_conn [OF assms(2)])
  with assms(3) show ?thesis by (auto simp: register_memory_def Let_def res_bind_Inr_iff dest!: test_inv)
qed

lemma inv_build_connection:
  assumes H: "host_ok H" and inv: "inv_server s" and res: "build_connection H verbs s = Inr s'"
  shows "inv_server s'"
proof -
  let ?k = "length (conn_heap s)"
  let ?add = "\<lambda>u. add_to_session ?k (u\<lparr>conn_heap := conn_heap u @ [Some (new_connection H)]\<rparr>)"
  from res obtain s1 s3 where s1: "build_context H verbs s = Inr s1"
      and s3: "register_memory H ?k ((?add (s_call (CreateQp ?k build_qp_attr) s1))
          \<lparr>conn_num := conn_num (?add (s_call (CreateQp ?k build_qp_attr) s1)) + 1\<rparr>) = Inr s3"
      and s': "post_receives H ?k s3 = Inr s'"
    by (auto simp: build_connection_def Let_def res_bind_Inr_iff dest!: test_inv)
  let ?u = "s_call (CreateQp ?k build_qp_attr) s1"
  let ?v = "?u\<lparr>conn_heap := conn_heap ?u @ [Some (new_connection H)]\<rparr>"
  have u: "inv_server ?u" "conn_heap ?u = conn_heap s" using inv_build_context [OF inv s1] by simp_all
  have v: "inv_server ?v" by (rule inv_new_connection [OF u(1) H])
  have "get_conn ?v ?k = Inr (new_connection H)" using get_conn_append [of ?u "Some (new_connection H)" ?k] u(2) by simp
  moreover have "\<forall>i < 32. \<not> owns (new_connection H) i" by (simp add: owns_def new_connection_def atomic_set_def)
  ultimately have "inv_server (add_to_session ?k ?v)" by (rule inv_add_to_session [OF v])
  then have "inv_server ((add_to_session ?k ?v)\<lparr>conn_num := n\<rparr>)" for n by (rule inv_same) simp_all
  from inv_register_memory [OF H this s3] s' show ?thesis by (rule inv_post_receives)
qed

lemma unmap_chunks_eq:
  "unmap_chunks ix r = Inr r' \<Longrightarrow> length (conn_map r') = length (conn_map r) \<and>
     length (conn_chunk_map r') = length (conn_chunk_map r) \<and> region_list r' = region_list r \<and> mr_list r' = mr_list r \<and>
     malloc_map r' = malloc_map r \<and> size_gb r' = size_gb r \<and> mapped_size r' = mapped_size r \<and>
     (\<forall>i < length (conn_map r). conn_map r' ! i = (if int i \<in> set ix then - 1 else conn_map r ! i))"
proof (induction ix arbitrary: r)
  case Nil
  then show ?case by simp
next
  case (Cons x ix)
  show ?case
  proof (cases "x = - 1")
    case True
    with Cons show ?thesis by auto
  next
    case False
    with Cons.prems obtain cm ccm where set: "int_set (conn_map r) x (- 1) = Inr cm"
        "int_set (conn_chunk_map r) x (- 1) = Inr ccm"
        and rest: "unmap_chunks ix (r\<lparr>conn_map := cm, conn_chunk_map := ccm\<rparr>) = Inr r'"
      by (auto simp: res_bind_Inr_iff)
    from set have x: "0 \<le> x" and cm: "cm = (conn_map r)[nat x := - 1]" and ccm: "ccm = (conn_chunk_map r)[nat x := - 1]"
      by (simp_all add: int_set_Inr_iff)
    have "cm ! i = (if int i = x then - 1 else conn_map r ! i)" if "i < length (conn_map r)" for i
      using that x by (auto simp: cm nth_update_if)
    with Cons.IH [OF rest] show ?thesis by (auto simp: cm ccm)
  qed
qed

lemma inv_drop_connection:
  assumes inv: "inv_server s" and c: "get_conn s k = Inr c" and r: "wf_remote r'"
    and map: "\<And>i. i < 32 \<Longrightarrow> \<not> owns c i \<Longrightarrow> conn_map r' ! i = conn_map (rdma_remote s) ! i"
    and s': "rdma_remote s' = r'" "\<And>j. j \<noteq> k \<Longrightarrow> get_conn s' j = get_conn s j" "\<And>x. get_conn s' k \<noteq> Inr x"
  shows "inv_server s'"
proof -
  have g: "j \<noteq> k \<and> get_conn s j = Inr x" if "get_conn s' j = Inr x" for j x
    using that s'(2,3) by (cases "j = k") auto
  have "conn_ok r' x" if "get_conn s' j = Inr x" for j x
  proof -
    from g [OF that] have j: "j \<noteq> k" "get_conn s j = Inr x" by simp_all
    have "\<not> owns c i" if "i < 32" "owns x i" for i
      using inv c j that unfolding inv_server_def exclusive_def by blast
    moreover have "conn_ok (rdma_remote s) x" using inv j(2) by (simp add: inv_server_def)
    ultimately show ?thesis using map unfolding conn_ok_def by metis
  qed
  moreover have "exclusive s'" using g inv unfolding inv_server_def exclusive_def by metis
  ultimately show ?thesis using r s'(1) by (simp add: inv_server_def)
qed

text \<open>What a successful tear-down has done.\<close>

lemma destroy_connection_cases:
  assumes "destroy_connection k s = Inr s'"
  obtains c s1 where "get_conn s k = Inr c"
    "(if 0 < mapped_chunk_size c
      then res_bind (unmap_chunks (take 32 (sess_chunk_map c)) (rdma_remote s)) (\<lambda>r.
             Inr ((s_call (DeregMsgMr k) (s_call (DeregMsgMr k) (s_call (DestroyQp k) s)))
               \<lparr>rdma_remote := r\<lparr>mapped_size := mapped_size r - mapped_chunk_size c\<rparr>\<rparr>))
      else Inr (s_call (DeregMsgMr k) (s_call (DeregMsgMr k) (s_call (DestroyQp k) s)))) = Inr s1"
    "conn_heap s' = (conn_heap s1)[k := None]" "rdma_remote s' = rdma_remote s1"
    "0 \<le> conn_index c" "conn_index c < int (length (conns s1))"
    "conns s' = (conns s1)[nat (conn_index c) := None]" "conns_state s' = (conns_state s1)[nat (conn_index c) := CONN_IDLE]"
    "conn_num s' = conn_num s1 - 1" "running s' = (if conn_num s1 = 1 then 0 else running s1)"
    "s_ctx s' = s_ctx s1" "s_calls s' = s_calls s1 @ [DestroyId k]"
proof -
  from assms obtain c where c: "get_conn s k = Inr c"
    by (auto simp only: destroy_connection_def res_bind_Inr_iff)
  let ?s = "s_call (DeregMsgMr k) (s_call (DeregMsgMr k) (s_call (DestroyQp k) s))"
  let ?u = "if 0 < mapped_chunk_size c
            then res_bind (unmap_chunks (take 32 (sess_chunk_map c)) (rdma_remote s)) (\<lambda>r.
                   Inr (?s\<lparr>rdma_remote := r\<lparr>mapped_size := mapped_size r - mapped_chunk_size c\<rparr>\<rparr>))
            else Inr ?s"
  from assms c obtain s1 where s1: "?u = Inr s1" and rest: "0 \<le> conn_index c" "conn_index c < int (length (conns s1))"
      "s' = (let s = s1\<lparr>conns := (conns s1)[nat (conn_index c) := None],
               conns_state := (conns_state s1)[nat (conn_index c) := CONN_IDLE], conn_num := conn_num s1 - 1\<rparr>;
               s = (if conn_num s = 0 then s\<lparr>running := 0\<rparr> else s)
             in (s_call (DestroyId k) s)\<lparr>conn_heap := (conn_heap s)[k := None]\<rparr>)"
    unfolding destroy_connection_def Let_def
    by (cases ?u) (simp_all add: int_set_def split: if_splits)
  show ?thesis
    by (rule that [OF c s1]) (use rest in \<open>simp_all add: Let_def s_call_def\<close>)
qed

lemma inv_destroy_connection:
  assumes inv: "inv_server s" and res: "destroy_connection k s = Inr s'"
  shows "inv_server s'"
proof -
  from res obtain c where c: "get_conn s k = Inr c" by (auto simp: destroy_connection_def res_bind_Inr_iff)
  have ok: "conn_ok (rdma_remote s) c" and wf: "wf_remote (rdma_remote s)" using inv c by (simp_all add: inv_server_def)
  let ?s = "s_call (DeregMsgMr k) (s_call (DeregMsgMr k) (s_call (DestroyQp k) s))"
  let ?u = "if 0 < mapped_chunk_size c
            then res_bind (unmap_chunks (take 32 (sess_chunk_map c)) (rdma_remote s)) (\<lambda>r.
                   Inr (?s\<lparr>rdma_remote := r\<lparr>mapped_size := mapped_size r - mapped_chunk_size c\<rparr>\<rparr>))
            else Inr ?s"
  from res c obtain s1 where s1: "?u = Inr s1"
      and heap: "conn_heap s' = (conn_heap s1)[k := None]" and rem: "rdma_remote s' = rdma_remote s1"
    by (elim destroy_connection_cases) auto
  have or: "s1 = ?s \<or> (\<exists>r n. unmap_chunks (take 32 (sess_chunk_map c)) (rdma_remote s) = Inr r \<and> s1 = ?s\<lparr>rdma_remote := r\<lparr>mapped_size := n\<rparr>\<rparr>)"
    using s1 by (cases "0 < mapped_chunk_size c") (auto simp: res_bind_Inr_iff)
  have h1: "conn_heap s1 = conn_heap s" using or by auto
  have fact: "wf_remote (rdma_remote s1) \<and> (\<forall>i < 32. \<not> owns c i \<longrightarrow> conn_map (rdma_remote s1) ! i = conn_map (rdma_remote s) ! i)"
    using or
  proof
    assume "s1 = ?s"
    with wf show ?thesis by simp
  next
    assume "\<exists>r n. unmap_chunks (take 32 (sess_chunk_map c)) (rdma_remote s) = Inr r \<and> s1 = ?s\<lparr>rdma_remote := r\<lparr>mapped_size := n\<rparr>\<rparr>"
    then obtain r n where r: "unmap_chunks (take 32 (sess_chunk_map c)) (rdma_remote s) = Inr r"
        and s1: "rdma_remote s1 = r\<lparr>mapped_size := n\<rparr>" by auto
    have len: "length (sess_chunk_map c) = 32" using ok by (simp add: conn_ok_def)
    have mem: "owns c i" if "int i \<in> set (take 32 (sess_chunk_map c))" "i < 32" for i
    proof -
      from that(1) len obtain j where "j < 32" "sess_chunk_map c ! j = int i" by (auto simp: in_set_conv_nth)
      moreover from this ok have "sess_chunk_map c ! j = - 1 \<or> sess_chunk_map c ! j = int j"
        by (auto simp: conn_ok_def owns_def)
      ultimately show ?thesis by (auto simp: owns_def)
    qed
    from unmap_chunks_eq [OF r] wf mem show ?thesis by (auto simp: s1 wf_remote_def)
  qed
  have "get_conn s' k \<noteq> Inr x" for x
    using heap c h1 by (auto simp: get_conn_def res_inversion)
  moreover have "get_conn s' j = get_conn s j" if "j \<noteq> k" for j
    using heap h1 that by (simp add: get_conn_def array_get_def)
  ultimately show ?thesis using inv_drop_connection [OF inv c] fact rem by metis
qed

lemma inv_on_cm_event:
  assumes H: "host_ok H" and inv: "inv_server s" and res: "on_cm_event H e s = Inr (r, s')"
  shows "inv_server s'"
proof (cases e)
  case (ConnectRequest verbs)
  with res obtain s1 where "build_connection H verbs s = Inr s1" "s' = s_call (Accept (length (conn_heap s)) build_params) s1"
    by (auto simp: on_cm_event_def on_connect_request_def Let_def res_bind_Inr_iff dest!: test_inv)
  with inv_build_connection [OF H inv] show ?thesis by simp
next
  case (Established k)
  with res have "send_free_mem_size H k (upd_conn k (\<lambda>c. c\<lparr>connected := 1\<rparr>) s) = Inr s'"
    by (auto simp: on_cm_event_def rdma_connected_def on_connect_def res_bind_Inr_iff)
  moreover have "inv_server (upd_conn k (\<lambda>c. c\<lparr>connected := 1\<rparr>) s)" using inv by (intro inv_upd_conn) simp_all
  ultimately show ?thesis using inv_send_simple(1) by blast
next
  case (Disconnected k)
  with res inv show ?thesis
    by (auto simp: on_cm_event_def on_disconnect_def res_bind_Inr_iff intro: inv_destroy_connection)
next
  case OtherCmEvent
  with res show ?thesis by (simp add: on_cm_event_def die_def)
qed

end
