(* ===== verification/Server_Chunks.thy ===== *)
theory Server_Chunks
  imports Memory_Server
begin

text \<open>
  What the memory server's chunk operations achieve: how much memory it offers, which chunks a
  request is answered with and what the answer says about them, what a disconnecting or evicted
  client gives back, and where the server's books stop matching its tables.
\<close>

section \<open>Calls that succeed\<close>

text \<open>
  The calls whose zero result means success; the others return an object, or zero for a failure.
\<close>

fun zero_is_success :: "scall \<Rightarrow> bool" where
  "zero_is_success ReqNotifyCq = True"
| "zero_is_success PthreadCreate = True"
| "zero_is_success (CreateQp k a) = True"
| "zero_is_success (PostRecv k) = True"
| "zero_is_success (PostSend k m) = True"
| "zero_is_success (Accept k p) = True"
| "zero_is_success CreateListener = True"
| "zero_is_success (BindAddr ip port) = True"
| "zero_is_success (Listen n) = True"
| "zero_is_success StartFreeMemThread = True"
| "zero_is_success _ = False"

definition host_works :: "host \<Rightarrow> bool" where
  "host_works H \<longleftrightarrow> (\<forall>cs x. (h_ret H cs x = 0) = zero_is_success x)"

lemma test_succeeds:
  "host_works H \<Longrightarrow> zero_is_success x \<Longrightarrow> test_nz H x s = Inr (s_call x s)"
  "host_works H \<Longrightarrow> \<not> zero_is_success x \<Longrightarrow> test_z H x s = Inr (s_call x s)"
  by (auto simp: host_works_def test_nz_def test_z_def)

section \<open>Handing out chunks\<close>

text \<open>
  The chunks \<open>ps\<close> have been handed to connection \<open>k\<close>, and nothing else has changed.
\<close>

definition handed :: "host \<Rightarrow> nat \<Rightarrow> nat list \<Rightarrow> server \<Rightarrow> server \<Rightarrow> bool" where
  "handed H k ps s s' \<longleftrightarrow> (\<exists>c c'. get_conn s k = Inr c \<and> get_conn s' k = Inr c' \<and>
     conn_index c' = conn_index c \<and> connected c' = connected c \<and> mapped_chunk_size c' = mapped_chunk_size c \<and>
     recv_msg c' = recv_msg c \<and> msg_size_gb (send_msg c') = msg_size_gb (send_msg c) \<and>
     (\<forall>i < 32. sess_chunk_map c' ! i = (if i \<in> set ps then int i else sess_chunk_map c ! i)) \<and>
     (\<forall>i < 32. msg_rkey (send_msg c') ! i =
        (if i \<in> set ps then htonl (snd (mr_list (rdma_remote s') ! i)) else msg_rkey (send_msg c) ! i)) \<and>
     (\<forall>i < 32. msg_buf (send_msg c') ! i =
        (if i \<in> set ps then htonll (region_list (rdma_remote s) ! i) else msg_buf (send_msg c) ! i)) \<and>
     (\<forall>i < 32. conn_map (rdma_remote s') ! i = (if i \<in> set ps then conn_index c else conn_map (rdma_remote s) ! i)) \<and>
     (\<forall>i < 32. i \<notin> set ps \<longrightarrow> mr_list (rdma_remote s') ! i = mr_list (rdma_remote s) ! i)) \<and>
     (\<forall>i < 32. i \<in> set ps \<longrightarrow> fst (mr_list (rdma_remote s') ! i) = region_list (rdma_remote s) ! i) \<and>
     (\<forall>i < 32. i \<in> set ps \<longrightarrow> (\<exists>cs. snd (mr_list (rdma_remote s') ! i) = h_rkey H cs (region_list (rdma_remote s) ! i))) \<and>
     malloc_map (rdma_remote s') = malloc_map (rdma_remote s) \<and> region_list (rdma_remote s') = region_list (rdma_remote s) \<and>
     size_gb (rdma_remote s') = size_gb (rdma_remote s) \<and> mapped_size (rdma_remote s') = mapped_size (rdma_remote s) \<and>
     conns_state s' = conns_state s \<and> (\<forall>j. j \<noteq> k \<longrightarrow> get_conn s' j = get_conn s j)"

lemma handed_Nil: "get_conn s k = Inr c \<Longrightarrow> handed H k [] s s"
  by (simp add: handed_def)

lemma handed_one:
  assumes res: "map_chunk H k i s = Inr s'" and inv: "inv_server s" and i: "i < 32"
  shows "handed H k [i] s s'"
proof -
  from res obtain c where c: "get_conn s k = Inr c" by (auto simp: map_chunk_def res_inversion)
  have ok: "conn_ok (rdma_remote s) c" and wf: "wf_remote (rdma_remote s)" using inv c by (simp_all add: inv_server_def)
  have len: "length (sess_chunk_map c) = 32" "length (msg_rkey (send_msg c)) = 32" "length (msg_buf (send_msg c)) = 32"
      "length (conn_map (rdma_remote s)) = 32" "length (mr_list (rdma_remote s)) = 32"
    using ok wf by (simp_all add: conn_ok_def wf_message_def wf_remote_def)
  note s' = map_chunk_eq [OF res c]
  show ?thesis
    using c i len unfolding s' by (auto simp: handed_def upd_send_msg_def get_conn_upd_conn nth_update_if)
qed

lemma handed_Cons:
  assumes 1: "handed H k [i] s s1" and 2: "handed H k ps s1 s'" and i: "i \<notin> set ps"
  shows "handed H k (i # ps) s s'"
proof -
  from 1 obtain c c1 where c: "get_conn s k = Inr c" "get_conn s1 k = Inr c1" unfolding handed_def by auto
  from 2 obtain c' where c': "get_conn s' k = Inr c'" unfolding handed_def by auto
  note 1 = 1 [unfolded handed_def c sum.inject ex_simps, simplified]
  note 2 = 2 [unfolded handed_def c c' sum.inject ex_simps, simplified]
  show ?thesis
    unfolding handed_def c c'
    by (intro conjI exI [of _ c] exI [of _ c']) (use 1 2 i in \<open>simp_all\<close>)
qed

lemma handed_chunk_free: "handed H k ps s s' \<Longrightarrow> j < 32 \<Longrightarrow> j \<notin> set ps \<Longrightarrow> chunk_free j s' = chunk_free j s"
  by (auto simp: handed_def chunk_free_def)

text \<open>Which of the free chunks a request of size \<open>n\<close> takes: the first \<open>n\<close>, and all of them for \<open>n \<le> 0\<close>.\<close>

definition picked :: "int \<Rightarrow> nat list \<Rightarrow> nat list" where
  "picked n fs = (if n \<le> 0 then fs else take (nat n) fs)"

lemma map_chunk_succeeds:
  assumes "host_works H" and "get_conn s k = Inr c"
  shows "\<exists>s'. map_chunk H k i s = Inr s'"
  using assms by (simp add: map_chunk_def Let_def test_succeeds)

lemma send_loop_hands_out:
  assumes "host_works H" and "inv_server s" and "get_conn s k = Inr c" and "distinct is" and "\<forall>i \<in> set is. i < 32"
  shows "\<exists>s'. send_loop H k is n s = Inr s' \<and> handed H k (picked n (filter (\<lambda>i. chunk_free i s) is)) s s'"
  using assms(2-)
proof (induction "is" arbitrary: n s c)
  case Nil
  then show ?case by (auto simp: picked_def intro: handed_Nil)
next
  case (Cons i "is")
  show ?case
  proof (cases "chunk_free i s")
    case False
    with Cons.IH [OF Cons.prems(1,2)] Cons.prems(3,4) show ?thesis by simp
  next
    case True
    obtain s1 where s1: "map_chunk H k i s = Inr s1" using map_chunk_succeeds [OF assms(1) Cons.prems(2)] by blast
    have i: "i < 32" using Cons.prems(4) by simp
    have inv1: "inv_server s1" by (rule inv_map_chunk [OF Cons.prems(1) True i s1])
    have h1: "handed H k [i] s s1" by (rule handed_one [OF s1 Cons.prems(1) i])
    obtain c1 where c1: "get_conn s1 k = Inr c1" using h1 by (auto simp: handed_def)
    have free: "filter (\<lambda>j. chunk_free j s1) is = filter (\<lambda>j. chunk_free j s) is"
      using Cons.prems(3,4) handed_chunk_free [OF h1] by (auto intro!: filter_cong)
    show ?thesis
    proof (cases "n = 1")
      case n: True
      with True s1 h1 show ?thesis by (simp add: picked_def)
    next
      case n: False
      then have p: "picked n (filter (\<lambda>i. chunk_free i s) (i # is)) = i # picked (n - 1) (filter (\<lambda>j. chunk_free j s1) is)"
        using True free by (auto simp: picked_def nat_diff_distrib take_Cons' nat_less_iff)
      obtain s' where s': "send_loop H k is (n - 1) s1 = Inr s'"
          and h2: "handed H k (picked (n - 1) (filter (\<lambda>j. chunk_free j s1) is)) s1 s'"
        using Cons.IH [OF inv1 c1] Cons.prems(3,4) by auto
      have "i \<notin> set (picked (n - 1) (filter (\<lambda>j. chunk_free j s1) is))"
        using Cons.prems(3) by (auto simp: picked_def dest: in_set_takeD)
      from handed_Cons [OF h1 h2 this] s1 s' True n p show ?thesis by simp
    qed
  qed
qed

definition free_list :: "server \<Rightarrow> nat list" where
  "free_list s = filter (\<lambda>i. chunk_free i s) [0..<32]"

lemma picked_bound: "i \<in> set (picked n (free_list s)) \<Longrightarrow> i < 32"
  by (auto simp: picked_def free_list_def dest: in_set_takeD split: if_splits)

section \<open>Who owns a chunk\<close>

text \<open>
  The abstract view of the server: which connection, if any, a chunk belongs to.
\<close>

definition owner :: "server \<Rightarrow> nat \<Rightarrow> nat option" where
  "owner s i = find (\<lambda>k. case get_conn s k of Inl _ \<Rightarrow> False | Inr c \<Rightarrow> owns c i) [0..<length (conn_heap s)]"

lemma get_conn_index: "get_conn s k = Inr c \<Longrightarrow> k < length (conn_heap s)"
  by (simp add: get_conn_def res_inversion)

lemma ownerD: "owner s i = Some k \<Longrightarrow> \<exists>c. get_conn s k = Inr c \<and> owns c i"
  unfolding owner_def find_Some_iff by (cases "get_conn s k") auto

lemma owner_Some_iff:
  assumes "exclusive s" and "i < 32"
  shows "owner s i = Some k \<longleftrightarrow> (\<exists>c. get_conn s k = Inr c \<and> owns c i)"
proof
  assume "owner s i = Some k"
  then show "\<exists>c. get_conn s k = Inr c \<and> owns c i" by (rule ownerD)
next
  assume "\<exists>c. get_conn s k = Inr c \<and> owns c i"
  then obtain c where c: "get_conn s k = Inr c" "owns c i" by blast
  have "\<exists>j. owner s i = Some j"
  proof (rule ccontr)
    assume "\<not> ?thesis"
    then have "owner s i = None" by auto
    with c get_conn_index [OF c(1)] show False by (auto simp: owner_def find_None_iff)
  qed
  then obtain j where j: "owner s i = Some j" ..
  then obtain c' where "get_conn s j = Inr c'" "owns c' i" using ownerD by blast
  with c assms have "j = k" unfolding exclusive_def by blast
  with j show "owner s i = Some k" by simp
qed

lemma owner_eqI:
  assumes "exclusive s" and "i < 32"
    and "\<And>k. f = Some k \<longleftrightarrow> (\<exists>c. get_conn s k = Inr c \<and> owns c i)"
  shows "owner s i = f"
  using owner_Some_iff [OF assms(1,2)] assms(3) by (metis option.exhaust)

text \<open>The effect of an operation that changes the connection \<open>k\<close> only.\<close>

lemma owner_change:
  assumes "exclusive s" and "exclusive s'" and "i < 32"
    and "\<And>j. j \<noteq> k \<Longrightarrow> get_conn s' j = get_conn s j"
    and "get_conn s k = Inr c" and "get_conn s' k = Inr c'"
  shows "owner s' i = (if owns c' i then Some k else if owns c i then None else owner s i)"
proof (rule owner_eqI [OF assms(2,3)])
  fix j
  show "((if owns c' i then Some k else if owns c i then None else owner s i) = Some j) \<longleftrightarrow>
      (\<exists>x. get_conn s' j = Inr x \<and> owns x i)"
  proof (cases "j = k")
    case True
    with assms owner_Some_iff [OF assms(1,3), of k] show ?thesis by auto
  next
    case False
    have "\<not> (owns c' i \<and> owns x i)" if "get_conn s j = Inr x" for x
      using assms(2,3,6) assms(4) [OF False] False that unfolding exclusive_def by metis
    moreover have "\<not> (owns c i \<and> owns x i)" if "get_conn s j = Inr x" for x
      using assms(1,3,5) False that unfolding exclusive_def by metis
    moreover have "get_conn s' j = get_conn s j" using assms(4) False by simp
    ultimately show ?thesis using owner_Some_iff [OF assms(1,3), of j] False by auto
  qed
qed

lemma send_chunks_spec:
  assumes works: "host_works H" and inv: "inv_server s" and c: "get_conn s k = Inr c" and up: "connected c \<noteq> 0"
  shows "\<exists>s' c'. send_chunks_to_client H k n s = Inr s' \<and> inv_server s' \<and> get_conn s' k = Inr c' \<and>
    (\<forall>i < 32. owner s' i = (if i \<in> set (picked n (free_list s)) then Some k else owner s i)) \<and>
    s_calls s' \<noteq> [] \<and> last (s_calls s') = PostSend k (send_msg c') \<and> msg_size_gb (send_msg c') = n \<and>
    msg_type (send_msg c') = server_message_type_code SEND_CHUNKS \<and>
    (\<forall>i < 32. msg_rkey (send_msg c') ! i =
       (if i \<in> set (picked n (free_list s)) then htonl (snd (mr_list (rdma_remote s') ! i)) else 0)) \<and>
    (\<forall>i \<in> set (picked n (free_list s)). msg_buf (send_msg c') ! i = htonll (region_list (rdma_remote s) ! i) \<and>
       fst (mr_list (rdma_remote s') ! i) = region_list (rdma_remote s) ! i) \<and>
    mapped_size (rdma_remote s') = mapped_size (rdma_remote s) + n \<and>
    mapped_chunk_size c' = mapped_chunk_size c + n \<and> conns_state s' = conns_state s \<and> conn_index c' = conn_index c \<and> connected c' = connected c \<and>
    (\<forall>i \<in> set (picked n (free_list s)). \<exists>cs. snd (mr_list (rdma_remote s') ! i) = h_rkey H cs (region_list (rdma_remote s) ! i)) \<and>
    size_gb (rdma_remote s') = size_gb (rdma_remote s) \<and> malloc_map (rdma_remote s') = malloc_map (rdma_remote s) \<and>
    (\<forall>i < 32. conn_map (rdma_remote s') ! i = (if i \<in> set (picked n (free_list s)) then conn_index c else conn_map (rdma_remote s) ! i))"
proof -
  let ?u = "upd_send_msg k (\<lambda>m. clear_rkeys (m\<lparr>msg_size_gb := n\<rparr>)) s" and ?ps = "picked n (free_list s)"
  let ?cu = "c\<lparr>send_msg := clear_rkeys ((send_msg c)\<lparr>msg_size_gb := n\<rparr>)\<rparr>"
  let ?t = "\<lambda>v. upd_send_msg k (\<lambda>m. m\<lparr>msg_type := server_message_type_code SEND_CHUNKS\<rparr>) (add_mapped k n v)"
  let ?c = "\<lambda>x. x\<lparr>mapped_chunk_size := mapped_chunk_size x + n,
      send_msg := (send_msg x)\<lparr>msg_type := server_message_type_code SEND_CHUNKS\<rparr>\<rparr>"
  have u: "inv_server ?u" using inv by (intro inv_upd_send_msg) simp_all
  have cu: "get_conn ?u k = Inr ?cu" using c by (simp add: upd_send_msg_def get_conn_upd_conn)
  have fl: "filter (\<lambda>i. chunk_free i ?u) [0..<32] = free_list s"
    by (simp add: free_list_def chunk_free_def upd_send_msg_def del: upt_rec_numeral)
  obtain v where v: "send_loop H k [0..<32] n ?u = Inr v" and h: "handed H k ?ps ?u v"
    using send_loop_hands_out [OF works u cu, of "[0..<32]" n] unfolding fl by auto
  obtain cv where cv: "get_conn v k = Inr cv" using h by (auto simp: handed_def)
  note h = h [unfolded handed_def cu cv sum.inject ex_simps, simplified]
  let ?s' = "s_call (PostSend k (send_msg (?c cv))) (?t v)"
  have ct: "get_conn (?t v) k = Inr (?c cv)"
    using cv by (simp add: upd_send_msg_def add_mapped_def get_conn_upd_conn)
  have cs: "get_conn ?s' k = Inr (?c cv)" using ct by simp
  have res: "send_chunks_to_client H k n s = Inr ?s'"
    using c v ct up h works
    by (simp add: send_chunks_to_client_def send_message_def test_succeeds Let_def del: upt_rec_numeral)
  have inv': "inv_server ?s'" by (rule inv_send_chunks [OF inv res])
  have others: "get_conn ?s' j = get_conn s j" if "j \<noteq> k" for j
    using h that by (simp add: upd_send_msg_def add_mapped_def get_conn_upd_conn)
  have ex: "exclusive s" "exclusive ?s'" using inv inv' by (simp_all only: inv_server_def)
  have free: "owner s i = None \<and> \<not> owns c i" if "i \<in> set ?ps" for i
  proof -
    from that have f: "chunk_free i s" "i < 32"
      by (auto simp: picked_def free_list_def dest: in_set_takeD split: if_splits)
    have "\<not> owns x i" if "get_conn s j = Inr x" for j x
    proof -
      have "conn_ok (rdma_remote s) x" using inv that by (simp add: inv_server_def)
      with f show ?thesis by (auto simp: conn_ok_def chunk_free_def owns_def)
    qed
    with owner_Some_iff [OF ex(1) f(2)] c show ?thesis by (metis option.exhaust)
  qed
  have own: "owner ?s' i = (if i \<in> set ?ps then Some k else owner s i)" if i: "i < 32" for i
  proof -
    have "owns (?c cv) i \<longleftrightarrow> i \<in> set ?ps \<or> owns c i" using h i by (simp add: owns_def)
    with owner_change [OF ex i others c cs] owner_Some_iff [OF ex(1) i, of k] c free show ?thesis by auto
  qed
  have lt: "i < 32" if "i \<in> set ?ps" for i using that by (rule picked_bound)
  show ?thesis
    by (intro exI [of _ ?s'] exI [of _ "?c cv"] conjI)
      (use h own res inv' cs lt in \<open>simp_all add: upd_send_msg_def add_mapped_def clear_rkeys_def\<close>)
qed

text \<open>
  C7. A request for \<open>n\<close> gigabytes on an established connection is answered with the first \<open>n\<close>
  chunks that are allocated and unmapped (with all of them for a request of zero or less). Exactly
  these chunks change owner, to the requesting connection; the message posted to the client
  carries, in the slot of each of them, its address and the key of its registration in network
  byte order, and a zero key in every other slot; the mapped sizes grow by \<open>n\<close>.
\<close>

theorem send_chunks_hands_out_free_chunks:
  assumes works: "host_works H" and inv: "inv_server s" and c: "get_conn s k = Inr c" and up: "connected c \<noteq> 0"
  shows "\<exists>s' c'. send_chunks_to_client H k n s = Inr s' \<and> inv_server s' \<and> get_conn s' k = Inr c' \<and>
    (\<forall>i < 32. owner s' i = (if i \<in> set (picked n (free_list s)) then Some k else owner s i)) \<and>
    last (s_calls s') = PostSend k (send_msg c') \<and> msg_size_gb (send_msg c') = n \<and>
    msg_type (send_msg c') = server_message_type_code SEND_CHUNKS \<and>
    (\<forall>i < 32. msg_rkey (send_msg c') ! i =
       (if i \<in> set (picked n (free_list s)) then htonl (snd (mr_list (rdma_remote s') ! i)) else 0)) \<and>
    (\<forall>i \<in> set (picked n (free_list s)). msg_buf (send_msg c') ! i = htonll (region_list (rdma_remote s) ! i) \<and>
       fst (mr_list (rdma_remote s') ! i) = region_list (rdma_remote s) ! i) \<and>
    mapped_size (rdma_remote s') = mapped_size (rdma_remote s) + n \<and>
    mapped_chunk_size c' = mapped_chunk_size c + n"
  using send_chunks_spec [OF assms, of n] by blast

text \<open>The same through the completion handler, when the client's request arrives.\<close>

lemma handle_request_spec:
  assumes works: "host_works H" and inv: "inv_server s" and c: "get_conn s k = Inr c" and up: "connected c \<noteq> 0"
    and slot: "0 \<le> conn_index c" "conn_index c < int (length (conns_state s))"
    and m: "msg_type m = server_message_type_code S_REQUEST_CHUNKS"
  shows "\<exists>s' c'. handle_cqe H k 0 (Some m) s = Inr s' \<and> inv_server s' \<and> get_conn s' k = Inr c' \<and> connected c' = connected c \<and>
    (\<forall>i < 32. owner s' i = (if i \<in> set (picked (msg_size_gb m) (free_list s)) then Some k else owner s i)) \<and>
    (\<exists>cs. s_calls s' = cs @ [PostSend k (send_msg c'), PostRecv k]) \<and> msg_type (send_msg c') = server_message_type_code SEND_CHUNKS \<and>
    (\<forall>i < 32. msg_rkey (send_msg c') ! i =
       (if i \<in> set (picked (msg_size_gb m) (free_list s)) then htonl (snd (mr_list (rdma_remote s') ! i)) else 0)) \<and>
    (\<forall>i \<in> set (picked (msg_size_gb m) (free_list s)). msg_buf (send_msg c') ! i = htonll (region_list (rdma_remote s) ! i) \<and>
       (\<exists>cs. snd (mr_list (rdma_remote s') ! i) = h_rkey H cs (region_list (rdma_remote s) ! i))) \<and>
    conns_state s' = (conns_state s)[nat (conn_index c) := CONN_MAPPED] \<and>
    size_gb (rdma_remote s') = size_gb (rdma_remote s) \<and>
    mapped_size (rdma_remote s') = mapped_size (rdma_remote s) + msg_size_gb m"
proof -
  let ?f = "\<lambda>c. (atomic_set CQ_QP_BUSY (c\<lparr>recv_msg := m\<rparr>))\<lparr>conn_server_state := S_BIND\<rparr>"
  let ?u = "upd_conn k (\<lambda>c. (atomic_set CQ_QP_BUSY c)\<lparr>conn_server_state := S_BIND\<rparr>) (upd_conn k (\<lambda>c. c\<lparr>recv_msg := m\<rparr>) s)"
  let ?n = "msg_size_gb m"
  have invu: "inv_server ?u" using inv by (intro inv_upd_conn) simp_all
  have cu: "get_conn ?u k = Inr (?f c)" "connected (?f c) \<noteq> 0"
    using c up by (simp_all add: get_conn_upd_conn atomic_set_def)
  have fl: "free_list ?u = free_list s" by (simp add: free_list_def chunk_free_def del: upt_rec_numeral)
  have ci: "conn_index (?f c) = conn_index c" "connected (?f c) = connected c" by (simp_all add: atomic_set_def)
  obtain v cv where v: "send_chunks_to_client H k ?n ?u = Inr v" "inv_server v" "get_conn v k = Inr cv"
      and own: "\<forall>i < 32. owner v i = (if i \<in> set (picked ?n (free_list s)) then Some k else owner ?u i)"
      and msg: "last (s_calls v) = PostSend k (send_msg cv)" "msg_type (send_msg cv) = server_message_type_code SEND_CHUNKS"
      and rk: "\<forall>i < 32. msg_rkey (send_msg cv) ! i = (if i \<in> set (picked ?n (free_list s)) then htonl (snd (mr_list (rdma_remote v) ! i)) else 0)"
      and bf: "\<forall>i \<in> set (picked ?n (free_list s)). msg_buf (send_msg cv) ! i = htonll (region_list (rdma_remote s) ! i)"
        "\<forall>i \<in> set (picked ?n (free_list s)). \<exists>cs. snd (mr_list (rdma_remote v) ! i) = h_rkey H cs (region_list (rdma_remote s) ! i)"
      and st: "conns_state v = conns_state s" and cv: "conn_index cv = conn_index c" "connected cv = connected c"
      and sz: "size_gb (rdma_remote v) = size_gb (rdma_remote s)" "mapped_size (rdma_remote v) = mapped_size (rdma_remote s) + ?n"
      and ne: "s_calls v \<noteq> []"
    using send_chunks_spec [OF works invu cu, of ?n] unfolding fl ci upd_conn_simps by (elim exE conjE) blast
  let ?s' = "s_call (PostRecv k) (v\<lparr>conns_state := (conns_state s)[nat (conn_index c) := CONN_MAPPED]\<rparr>)"
  have res: "handle_cqe H k 0 (Some m) s = Inr ?s'"
    using c v(1,3) st cv(1) slot works m
    by (simp add: handle_cqe_def handle_recv_def get_conn_upd_conn Let_def set_conn_state_def int_set_def
        post_receives_def test_succeeds)
  have ou: "owner ?u i = owner s i" for i
  proof -
    have "(case get_conn ?u j of Inl _ \<Rightarrow> False | Inr x \<Rightarrow> owns x i) = (case get_conn s j of Inl _ \<Rightarrow> False | Inr x \<Rightarrow> owns x i)" for j
      by (auto simp: get_conn_upd_conn owns_def atomic_set_def split: sum.splits)
    then show ?thesis by (simp add: owner_def)
  qed
  have os: "owner ?s' = owner v" by (simp add: owner_def fun_eq_iff)
  have "\<exists>cs. s_calls ?s' = cs @ [PostSend k (send_msg cv), PostRecv k]"
    using append_butlast_last_id [OF ne] msg(1) by (intro exI [of _ "butlast (s_calls v)"]) simp
  moreover have "inv_server ?s'" by (rule inv_handle_cqe [OF inv res])
  ultimately show ?thesis
    using res v(3) cv(2) own rk bf msg(2) sz by (intro exI [of _ ?s'] exI [of _ cv]) (simp add: os ou)
qed

section \<open>Taking chunks back\<close>

text \<open>The chunks \<open>ps\<close> of connection \<open>k\<close> have been deregistered, freed and forgotten.\<close>

definition released :: "nat \<Rightarrow> nat list \<Rightarrow> server \<Rightarrow> server \<Rightarrow> bool" where
  "released k ps s s' \<longleftrightarrow> (\<exists>c c'. get_conn s k = Inr c \<and> get_conn s' k = Inr c' \<and>
     conn_index c' = conn_index c \<and> mapped_chunk_size c' = mapped_chunk_size c \<and>
     recv_msg c' = recv_msg c \<and> stop_sem c' = stop_sem c \<and>
     (\<forall>i < 32. sess_chunk_map c' ! i = (if i \<in> set ps then - 1 else sess_chunk_map c ! i))) \<and>
     (\<forall>i < 32. conn_map (rdma_remote s') ! i = (if i \<in> set ps then - 1 else conn_map (rdma_remote s) ! i)) \<and>
     (\<forall>i < 32. malloc_map (rdma_remote s') ! i = (if i \<in> set ps then CHUNK_EMPTY else malloc_map (rdma_remote s) ! i)) \<and>
     size_gb (rdma_remote s') = size_gb (rdma_remote s) \<and> mapped_size (rdma_remote s') = mapped_size (rdma_remote s) \<and>
     region_list (rdma_remote s') = region_list (rdma_remote s) \<and> mr_list (rdma_remote s') = mr_list (rdma_remote s) \<and>
     s_calls s' = s_calls s @ concat (map (\<lambda>i. [DeregMr (mr_list (rdma_remote s) ! i), FreeRegion (region_list (rdma_remote s) ! i)]) ps) \<and>
     conns_state s' = conns_state s \<and> (\<forall>j. j \<noteq> k \<longrightarrow> get_conn s' j = get_conn s j)"

lemma released_Nil: "get_conn s k = Inr c \<Longrightarrow> released k [] s s"
  by (simp add: released_def)

lemma released_Cons:
  assumes 1: "released k [i] s s1" and 2: "released k ps s1 s'"
  shows "released k (i # ps) s s'"
proof -
  from 1 obtain c c1 where c: "get_conn s k = Inr c" "get_conn s1 k = Inr c1" unfolding released_def by auto
  from 2 obtain c' where c': "get_conn s' k = Inr c'" unfolding released_def by auto
  note 1 = 1 [unfolded released_def c sum.inject ex_simps, simplified]
  note 2 = 2 [unfolded released_def c c' sum.inject ex_simps, simplified]
  show ?thesis
    unfolding released_def c c'
    by (intro conjI exI [of _ c] exI [of _ c']) (use 1 2 in \<open>simp_all\<close>)
qed

lemma stop_chunk_spec:
  assumes inv: "inv_server s" and c: "get_conn s k = Inr c" and i: "i < 32"
  shows "if owns c i then \<exists>s'. stop_chunk k i s = Inr s' \<and> released k [i] s s' else stop_chunk k i s = Inl OutOfBounds"
proof -
  have ok: "conn_ok (rdma_remote s) c" and wf: "wf_remote (rdma_remote s)" using inv c by (simp_all add: inv_server_def)
  have len: "length (sess_chunk_map c) = 32" "length (region_list (rdma_remote s)) = 32" "length (mr_list (rdma_remote s)) = 32"
      "length (conn_map (rdma_remote s)) = 32" "length (malloc_map (rdma_remote s)) = 32" "length (conn_chunk_map (rdma_remote s)) = 32"
    using ok wf by (simp_all add: conn_ok_def wf_remote_def)
  show ?thesis
  proof (cases "owns c i")
    case True
    then have x: "sess_chunk_map c ! i = int i" by (simp add: owns_def)
    with True c i len show ?thesis
      by (simp add: stop_chunk_def int_get_def int_set_def Let_def released_def get_conn_upd_conn nth_update_if)
  next
    case False
    with ok i have x: "sess_chunk_map c ! i = - 1" by (auto simp: conn_ok_def)
    with False c i len show ?thesis by (simp add: stop_chunk_def int_get_def int_set_def Let_def)
  qed
qed

lemma stop_chunks_spec:
  assumes "inv_server s" and "get_conn s k = Inr c" and "distinct is" and "\<forall>i \<in> set is. i < 32"
  shows "if \<forall>i \<in> set is. msg_rkey m ! i \<noteq> 0 \<longrightarrow> owns c i
         then \<exists>s'. stop_chunks k is m s = Inr s' \<and> released k (filter (\<lambda>i. msg_rkey m ! i \<noteq> 0) is) s s'
         else stop_chunks k is m s = Inl OutOfBounds"
  using assms
proof (induction "is" arbitrary: s c)
  case Nil
  then show ?case by (auto intro: released_Nil)
next
  case (Cons i "is")
  have i: "i < 32" using Cons.prems(4) by simp
  show ?case
  proof (cases "msg_rkey m ! i = 0")
    case True
    with Cons.IH [OF Cons.prems(1,2)] Cons.prems(3,4) show ?thesis by simp
  next
    case flagged: False
    show ?thesis
    proof (cases "owns c i")
      case False
      with stop_chunk_spec [OF Cons.prems(1,2) i] flagged show ?thesis by auto
    next
      case True
      then obtain s1 where s1: "stop_chunk k i s = Inr s1" and r1: "released k [i] s s1"
        using stop_chunk_spec [OF Cons.prems(1,2) i] by auto
      obtain c1 where c1: "get_conn s1 k = Inr c1" using r1 by (auto simp: released_def)
      have inv1: "inv_server s1" by (rule inv_stop_chunk [OF Cons.prems(1) i s1])
      have "owns c1 j = owns c j" if "j \<in> set is" for j
        using that Cons.prems(2,3,4) c1 r1 by (auto simp: released_def owns_def)
      then have eq: "(\<forall>j \<in> set is. msg_rkey m ! j \<noteq> 0 \<longrightarrow> owns c1 j) = (\<forall>j \<in> set (i # is). msg_rkey m ! j \<noteq> 0 \<longrightarrow> owns c j)"
        using True by auto
      show ?thesis
        using Cons.IH [OF inv1 c1] Cons.prems(3,4) flagged s1 released_Cons [OF r1] unfolding eq by auto
    qed
  qed
qed

text \<open>
  C13. When a client reports the chunks it has stopped using, all of them its own, exactly those
  chunks lose their owner and their memory: each is deregistered and then freed, in the order of
  the slots. The sizes are lowered by the number the client states, whoever waits for the stop is
  woken, and a connection left without chunks counts as merely connected again.
\<close>

theorem recv_done_takes_back_the_stopped_chunks:
  assumes works: "host_works H" and inv: "inv_server s" and c: "get_conn s k = Inr c"
    and slot: "0 \<le> conn_index c" "conn_index c < int (length (conns_state s))"
    and own: "\<forall>i < 32. msg_rkey (recv_msg c) ! i \<noteq> 0 \<longrightarrow> owns c i"
  shows "\<exists>s' c'. recv_done H k s = Inr s' \<and> inv_server s' \<and> get_conn s' k = Inr c' \<and>
    (\<forall>i < 32. owner s' i = (if msg_rkey (recv_msg c) ! i \<noteq> 0 then None else owner s i)) \<and>
    (\<forall>i < 32. malloc_map (rdma_remote s') ! i = (if msg_rkey (recv_msg c) ! i \<noteq> 0 then CHUNK_EMPTY else malloc_map (rdma_remote s) ! i)) \<and>
    s_calls s' = s_calls s @ concat (map (\<lambda>i. [DeregMr (mr_list (rdma_remote s) ! i), FreeRegion (region_list (rdma_remote s) ! i)])
      (filter (\<lambda>i. msg_rkey (recv_msg c) ! i \<noteq> 0) [0..<32])) @ [PostRecv k] \<and>
    size_gb (rdma_remote s') = size_gb (rdma_remote s) - msg_size_gb (recv_msg c) \<and>
    mapped_size (rdma_remote s') = mapped_size (rdma_remote s) - msg_size_gb (recv_msg c) \<and>
    mapped_chunk_size c' = mapped_chunk_size c - msg_size_gb (recv_msg c) \<and> stop_sem c' = stop_sem c + 1 \<and>
    conns_state s' ! nat (conn_index c) =
      (if mapped_chunk_size c' = 0 then CONN_CONNECTED else conns_state s ! nat (conn_index c))"
proof -
  let ?m = "recv_msg c"
  let ?n = "msg_size_gb ?m" and ?ps = "filter (\<lambda>i. msg_rkey ?m ! i \<noteq> 0) [0..<32]"
  obtain v where v: "stop_chunks k [0..<32] ?m s = Inr v" and rel: "released k ?ps s v"
    using stop_chunks_spec [OF inv c, of "[0..<32]" ?m] own by auto
  obtain cv where cv: "get_conn v k = Inr cv" using rel by (auto simp: released_def)
  note rel = rel [unfolded released_def c cv sum.inject ex_simps, simplified]
  let ?c = "cv\<lparr>mapped_chunk_size := mapped_chunk_size cv - ?n, stop_sem := stop_sem cv + 1\<rparr>"
  let ?t = "upd_conn k (\<lambda>c. c\<lparr>mapped_chunk_size := mapped_chunk_size c - ?n, stop_sem := stop_sem c + 1\<rparr>)
      (upd_remote (\<lambda>r. r\<lparr>size_gb := size_gb r - ?n, mapped_size := mapped_size r - ?n\<rparr>) v)"
  let ?w = "if mapped_chunk_size ?c = 0 then ?t\<lparr>conns_state := (conns_state s)[nat (conn_index c) := CONN_CONNECTED]\<rparr> else ?t"
  let ?s' = "s_call (PostRecv k) ?w"
  have ct: "get_conn ?t k = Inr ?c" using cv by (simp add: get_conn_upd_conn)
  have gw: "get_conn ?w = get_conn ?t" and rw: "rdma_remote ?w = rdma_remote ?t" and cw: "s_calls ?w = s_calls v"
    by simp_all
  have fin: "finish_done H k ?n v = Inr ?s'"
    using ct rel slot works
    by (simp add: finish_done_def post_receives_def test_succeeds Let_def int_set_def)
  have res: "recv_done H k s = Inr ?s'" using c v fin by (simp add: recv_done_def del: upt_rec_numeral)
  have inv': "inv_server ?s'" by (rule inv_recv_done [OF inv res])
  have cs: "get_conn ?s' k = Inr ?c" using ct by simp
  have others: "get_conn ?s' j = get_conn s j" if "j \<noteq> k" for j
    using that rel by (simp add: get_conn_upd_conn)
  have ex: "exclusive s" "exclusive ?s'" using inv inv' by (simp_all only: inv_server_def)
  have own': "owner ?s' i = (if msg_rkey ?m ! i \<noteq> 0 then None else owner s i)" if i: "i < 32" for i
  proof -
    have "owns ?c i \<longleftrightarrow> msg_rkey ?m ! i = 0 \<and> owns c i" using rel i by (simp add: owns_def)
    with owner_change [OF ex i others c cs] owner_Some_iff [OF ex(1) i, of k] c own i show ?thesis by auto
  qed
  show ?thesis
    by (intro exI [of _ ?s'] exI [of _ ?c] conjI)
      (use rel own' res inv' cs slot in \<open>simp_all del: upt_rec_numeral\<close>)
qed

text \<open>
  A client that reports a chunk it does not own makes the server use \<open>- 1\<close> as an index into
  its tables: there is no check of the report against the connection's map.
\<close>

theorem recv_done_of_a_foreign_chunk_is_out_of_bounds:
  assumes inv: "inv_server s" and c: "get_conn s k = Inr c"
    and bad: "i < 32" "msg_rkey (recv_msg c) ! i \<noteq> 0" "owner s i \<noteq> Some k"
  shows "recv_done H k s = Inl OutOfBounds"
proof -
  have ex: "exclusive s" using inv by (simp add: inv_server_def)
  have "\<not> owns c i" using bad(3) owner_Some_iff [OF ex bad(1), of k] c by auto
  then have "stop_chunks k [0..<32] (recv_msg c) s = Inl OutOfBounds"
    using stop_chunks_spec [OF inv c, of "[0..<32]" "recv_msg c"] bad by (auto simp del: upt_rec_numeral split: if_splits)
  with c show ?thesis by (simp add: recv_done_def del: upt_rec_numeral)
qed

lemma unmap_chunks_returns:
  "\<forall>x \<in> set ix. x = - 1 \<or> 0 \<le> x \<and> x < int (length (conn_map r)) \<and> x < int (length (conn_chunk_map r)) \<Longrightarrow>
     \<exists>r'. unmap_chunks ix r = Inr r'"
  by (induction ix arbitrary: r) (auto simp: int_set_def)

lemma destroy_connection_returns:
  assumes inv: "inv_server s" and c: "get_conn s k = Inr c"
    and slot: "0 \<le> conn_index c" "conn_index c < int (length (conns s))" "length (conns_state s) = length (conns s)"
  shows "\<exists>s'. destroy_connection k s = Inr s'"
proof -
  have ok: "conn_ok (rdma_remote s) c" and wf: "wf_remote (rdma_remote s)" using inv c by (simp_all add: inv_server_def)
  have "x = - 1 \<or> 0 \<le> x \<and> x < 32" if "x \<in> set (take 32 (sess_chunk_map c))" for x
  proof -
    from that ok obtain j where "j < 32" "sess_chunk_map c ! j = x" by (auto simp: conn_ok_def in_set_conv_nth)
    with ok show ?thesis by (auto simp: conn_ok_def owns_def)
  qed
  then obtain r where "unmap_chunks (take 32 (sess_chunk_map c)) (rdma_remote s) = Inr r"
    using unmap_chunks_returns [of "take 32 (sess_chunk_map c)" "rdma_remote s"] wf by (auto simp: wf_remote_def)
  with c slot show ?thesis by (simp add: destroy_connection_def Let_def int_set_def)
qed


section \<open>The offer at the start\<close>

text \<open>The globals of the server before anything runs: all zero.\<close>

definition zero_server :: server where
  "zero_server = \<lparr>conn_heap = [], conns = [None], conns_state = [CONN_IDLE], conn_num = 0,
     rdma_remote = \<lparr>region_list = replicate 32 0, mr_list = replicate 32 (0, 0), size_gb = 0, mapped_size = 0,
       conn_map = replicate 32 0, malloc_map = replicate 32 0, conn_chunk_map = replicate 32 0\<rparr>,
     running = 0, s_ctx = None, s_calls = []\<rparr>"

lemma digit_step_nonneg: "0 \<le> res \<Longrightarrow> 0 \<le> digit_step c res"
  by (simp add: digit_step_def)

lemma get_free_mem_nonneg: "0 \<le> get_free_mem line"
proof -
  have "0 \<le> res \<Longrightarrow> 0 \<le> fold digit_step cs res" for cs res
    by (induction cs arbitrary: res) (simp_all add: digit_step_nonneg)
  then show ?thesis by (simp add: get_free_mem_def)
qed

lemma initial_offer_bounds:
  "0 \<le> initial_offer g" "initial_offer g \<le> 32" "0 < initial_offer g \<Longrightarrow> initial_offer g \<le> g - 8"
  "initial_offer g = 0 \<longleftrightarrow> g \<le> 8"
  by (auto simp: initial_offer_def Let_def FREE_MEM_EXPAND_THRESHOLD_def FREE_MEM_EVICT_THRESHOLD_def)

lemma alloc_chunks:
  assumes "length (region_list (rdma_remote s)) = 32" and "length (malloc_map (rdma_remote s)) = 32" and "n \<le> 32"
  shows "fold (alloc_chunk H) [0..<n] s = upd_remote (\<lambda>r. r\<lparr>
      region_list := map (h_alloc H (s_calls s)) [0..<n] @ drop n (region_list r),
      malloc_map := replicate n CHUNK_MALLOCED @ drop n (malloc_map r)\<rparr>) s"
  using assms(3)
proof (induction n)
  case 0
  then show ?case by (simp add: upd_remote_def)
next
  case (Suc n)
  have d: "drop n xs = xs ! n # drop (Suc n) xs" if "length xs = 32" for xs :: "'a list"
    using that Suc.prems by (simp add: Cons_nth_drop_Suc)
  from Suc show ?case
    by (simp add: alloc_chunk_def upd_remote_def d [OF assms(1)] d [OF assms(2)] list_update_append
        replicate_append_same flip: replicate_Suc)
qed

lemma session_init_eq:
  assumes "length (region_list (rdma_remote s)) = 32"
  shows "rdma_session_init H line s =
    s\<lparr>conns := replicate MAX_CLIENT None, conns_state := replicate MAX_CLIENT CONN_IDLE, conn_num := 0,
      rdma_remote := \<lparr>region_list = map (h_alloc H (s_calls s)) [0..<nat (initial_offer (free_mem_in_gb line))]
          @ drop (nat (initial_offer (free_mem_in_gb line))) (region_list (rdma_remote s)),
        mr_list = mr_list (rdma_remote s), size_gb = initial_offer (free_mem_in_gb line), mapped_size = 0,
        conn_map = replicate 32 (- 1),
        malloc_map = replicate (nat (initial_offer (free_mem_in_gb line))) CHUNK_MALLOCED
          @ replicate (32 - nat (initial_offer (free_mem_in_gb line))) CHUNK_EMPTY,
        conn_chunk_map = replicate 32 (- 1)\<rparr>\<rparr>"
proof -
  let ?s = "upd_remote (\<lambda>r. r\<lparr>conn_map := replicate 32 (- 1), conn_chunk_map := replicate 32 (- 1),
      malloc_map := replicate 32 CHUNK_EMPTY\<rparr>) s"
  have "nat (initial_offer (free_mem_in_gb line)) \<le> 32" using initial_offer_bounds(2) [of "free_mem_in_gb line"] by simp
  then show ?thesis
    using alloc_chunks [of ?s "nat (initial_offer (free_mem_in_gb line))" H] assms
    by (simp add: rdma_session_init_def Let_def upd_remote_def)
qed

lemma inv_no_connections:
  assumes "wf_remote (rdma_remote s)" and "conn_heap s = []"
  shows "inv_server s"
  using assms by (simp add: inv_server_def exclusive_def get_conn_def array_get_def)

lemma inv_session_init:
  assumes "length (region_list (rdma_remote s)) = 32" and "length (mr_list (rdma_remote s)) = 32" and "conn_heap s = []"
  shows "inv_server (rdma_session_init H line s)"
proof (rule inv_no_connections)
  have "nat (initial_offer (free_mem_in_gb line)) \<le> 32" using initial_offer_bounds(2) [of "free_mem_in_gb line"] by simp
  then show "wf_remote (rdma_remote (rdma_session_init H line s))"
    using assms by (simp add: session_init_eq wf_remote_def)
qed (use assms in \<open>simp add: session_init_eq\<close>)


section \<open>A concrete server\<close>

definition demo_host :: host where
  "demo_host = \<lparr>h_ret = (\<lambda>cs x. if zero_is_success x then 0 else 1), h_rkey = (\<lambda>cs a. 9),
     h_alloc = (\<lambda>cs i. of_nat (Suc i) * 0x40000000), h_rand = (\<lambda>i. 5 * i), h_filter = (\<lambda>f l. (7 * f + 3 * l) div 10),
     h_undef = 0, h_raw_message = zero_message\<rparr>"

lemma demo_host_works: "host_works demo_host" and demo_host_ok: "host_ok demo_host"
  by (simp_all add: host_works_def host_ok_def demo_host_def)

text \<open>
  A server with six allocated chunks, the first \<open>n\<close> of them mapped to its one client, which has
  sent the message \<open>m\<close>.
\<close>

definition demo_conn :: "nat \<Rightarrow> message \<Rightarrow> connection" where
  "demo_conn n m = (new_connection demo_host)\<lparr>conn_index := 0, sess_chunk_map := map int [0..<n] @ replicate (32 - n) (- 1),
     mapped_chunk_size := int n, connected := 1, recv_msg := m\<rparr>"

definition demo_server :: "nat \<Rightarrow> message \<Rightarrow> server" where
  "demo_server n m = \<lparr>conn_heap = [Some (demo_conn n m)], conns = [Some 0],
     conns_state = [if n = 0 then CONN_CONNECTED else CONN_MAPPED], conn_num = 1,
     rdma_remote = \<lparr>region_list = map (\<lambda>i. of_nat (Suc i) * 0x40000000) [0..<6] @ replicate 26 0,
       mr_list = map (\<lambda>i. (of_nat (Suc i) * 0x40000000, 9)) [0..<n] @ replicate (32 - n) (0, 0), size_gb = 6, mapped_size = int n,
       conn_map = replicate n 0 @ replicate (32 - n) (- 1),
       malloc_map = replicate 6 CHUNK_MALLOCED @ replicate 26 CHUNK_EMPTY, conn_chunk_map = replicate 32 (- 1)\<rparr>,
     running = 1, s_ctx = Some 1, s_calls = []\<rparr>"

lemma demo_server_conn: "get_conn (demo_server n m) 0 = Inr (demo_conn n m)"
  by (simp add: demo_server_def get_conn_def)

lemma demo_conn_simps [simp]:
  "conn_index (demo_conn n m) = 0" "connected (demo_conn n m) = 1" "recv_msg (demo_conn n m) = m"
  "mapped_chunk_size (demo_conn n m) = int n" "send_msg (demo_conn n m) = zero_message"
  by (simp_all add: demo_conn_def new_connection_def atomic_set_def demo_host_def)

lemma demo_owns: "i < 32 \<Longrightarrow> n \<le> 6 \<Longrightarrow> owns (demo_conn n m) i \<longleftrightarrow> i < n"
  by (auto simp: owns_def demo_conn_def nth_append)

lemma demo_server_inv:
  assumes "n \<le> 6"
  shows "inv_server (demo_server n m)"
proof -
  have one: "j = 0 \<and> c = demo_conn n m" if "get_conn (demo_server n m) j = Inr c" for j c
    using that by (auto simp: get_conn_def demo_server_def res_inversion less_Suc_eq)
  have "wf_remote (rdma_remote (demo_server n m))"
    using assms by (auto simp: wf_remote_def demo_server_def nth_append)
  moreover have "conn_ok (rdma_remote (demo_server n m)) (demo_conn n m)"
    using assms demo_owns [OF _ assms]
    by (auto simp: conn_ok_def demo_conn_def demo_server_def nth_append atomic_set_def new_connection_def demo_host_def)
  moreover have "exclusive (demo_server n m)" unfolding exclusive_def using one by blast
  ultimately show ?thesis unfolding inv_server_def using one by blast
qed

lemma demo_owner: "i < 32 \<Longrightarrow> n \<le> 6 \<Longrightarrow> owner (demo_server n m) i = (if i < n then Some 0 else None)"
proof -
  have "length (conn_heap (demo_server n m)) = 1" by (simp add: demo_server_def)
  then show "i < 32 \<Longrightarrow> n \<le> 6 \<Longrightarrow> owner (demo_server n m) i = (if i < n then Some 0 else None)"
    using demo_owns [of i n m] by (simp add: owner_def demo_server_conn)
qed

lemma demo_free_list:
  assumes "n \<le> 6"
  shows "free_list (demo_server n m) = [n..<6]"
proof -
  have "free_list (demo_server n m) = filter (\<lambda>i. n \<le> i \<and> i < 6) [0..<32]"
    unfolding free_list_def using assms
    by (intro filter_cong) (auto simp: chunk_free_def demo_server_def nth_append CHUNK_MALLOCED_def CHUNK_EMPTY_def
        simp del: upt_rec_numeral)
  also have "[0..<32] = [0..<n] @ [n..<6] @ [6..<32]"
    using assms upt_add_eq_append [of 0 n "32 - n"] upt_add_eq_append [of n 6 26] by (simp del: upt_rec_numeral)
  finally show ?thesis by (simp add: filter_empty_conv del: upt_rec_numeral)
qed

theorem send_chunks_hands_out_free_chunks_witness:
  "\<exists>s' c'. send_chunks_to_client demo_host 0 2 (demo_server 0 zero_message) = Inr s' \<and> get_conn s' 0 = Inr c' \<and>
     owner s' 0 = Some 0 \<and> owner s' 1 = Some 0 \<and> owner s' 2 = None \<and> msg_rkey (send_msg c') ! 2 = 0"
proof -
  let ?s = "demo_server 0 zero_message"
  have p: "picked 2 (free_list ?s) = [0, 1]" by (simp add: demo_free_list picked_def)
  from send_chunks_hands_out_free_chunks [OF demo_host_works demo_server_inv demo_server_conn, of 0 zero_message 2]
  obtain s' c' where
      1: "send_chunks_to_client demo_host 0 2 ?s = Inr s'" "get_conn s' 0 = Inr c'"
      and own: "\<forall>i < 32. owner s' i = (if i \<in> set (picked 2 (free_list ?s)) then Some 0 else owner ?s i)"
      and key: "\<forall>i < 32. msg_rkey (send_msg c') ! i =
        (if i \<in> set (picked 2 (free_list ?s)) then htonl (snd (mr_list (rdma_remote s') ! i)) else 0)"
    by auto
  show ?thesis using 1 own [rule_format, of 0] own [rule_format, of 1] own [rule_format, of 2] key [rule_format, of 2]
    by (intro exI [of _ s'] exI [of _ c'] conjI) (simp_all add: p demo_owner)
qed

text \<open>The client reports that it has stopped using the second of its two chunks.\<close>

definition demo_done :: message where
  "demo_done = zero_message\<lparr>msg_rkey := (replicate 32 0)[1 := 1], msg_size_gb := 1, msg_type := 1\<rparr>"

lemma demo_done_rkey: "i < 32 \<Longrightarrow> msg_rkey demo_done ! i \<noteq> 0 \<longleftrightarrow> i = 1"
  by (simp add: demo_done_def nth_list_update)

theorem recv_done_takes_back_the_stopped_chunks_witness:
  "\<exists>s'. recv_done demo_host 0 (demo_server 2 demo_done) = Inr s' \<and> owner s' 0 = Some 0 \<and> owner s' 1 = None \<and>
     size_gb (rdma_remote s') = 5"
proof -
  let ?s = "demo_server 2 demo_done" and ?c = "demo_conn 2 demo_done"
  have own: "\<forall>i < 32. msg_rkey (recv_msg ?c) ! i \<noteq> 0 \<longrightarrow> owns ?c i"
    using demo_done_rkey demo_owns [of _ 2 demo_done] by auto
  have slot: "0 \<le> conn_index ?c" "conn_index ?c < int (length (conns_state ?s))" by (simp_all add: demo_server_def)
  from recv_done_takes_back_the_stopped_chunks [OF demo_host_works demo_server_inv demo_server_conn slot own]
  obtain s' where 1: "recv_done demo_host 0 ?s = Inr s'"
      and own: "\<forall>i < 32. owner s' i = (if msg_rkey (recv_msg ?c) ! i \<noteq> 0 then None else owner ?s i)"
      and sz: "size_gb (rdma_remote s') = size_gb (rdma_remote ?s) - msg_size_gb (recv_msg ?c)"
    by auto
  show ?thesis using 1 sz own [rule_format, of 0] own [rule_format, of 1] demo_done_rkey [of 0] demo_done_rkey [of 1]
    by (intro exI [of _ s'] conjI) (simp_all add: demo_owner, simp add: demo_server_def demo_done_def)
qed

theorem recv_done_of_a_foreign_chunk_is_out_of_bounds_witness:
  "recv_done demo_host 0 (demo_server 1 demo_done) = Inl OutOfBounds"
  by (rule recv_done_of_a_foreign_chunk_is_out_of_bounds [OF demo_server_inv demo_server_conn, where i = 1])
    (use demo_done_rkey [of 1] in \<open>simp_all add: demo_owner\<close>)


section \<open>The books of the server\<close>

text \<open>The sizes the server keeps agree with its tables.\<close>

definition books_ok :: "rdma_remote_mem \<Rightarrow> bool" where
  "books_ok r \<longleftrightarrow> size_gb r = int (length (filter (\<lambda>x. x = CHUNK_MALLOCED) (malloc_map r))) \<and>
     mapped_size r = int (length (filter (\<lambda>x. x \<noteq> - 1) (conn_map r)))"

lemma distinct_free_list: "distinct (free_list s)"
  by (simp add: free_list_def del: upt_rec_numeral)

lemma set_free_list: "set (free_list s) = {i. i < 32 \<and> chunk_free i s}"
  by (auto simp: free_list_def)

lemma picked_subset: "set (picked n fs) \<subseteq> set fs" and picked_distinct: "distinct fs \<Longrightarrow> distinct (picked n fs)"
  by (auto simp: picked_def dest: in_set_takeD)

lemma length_picked: "0 < n \<Longrightarrow> int (length (picked n fs)) = min n (int (length fs))"
  by (simp add: picked_def min_def nat_le_iff) linarith

lemma free_list_length:
  assumes "wf_remote (rdma_remote s)"
  shows "length (free_list s) + length (filter (\<lambda>x. x \<noteq> - 1) (conn_map (rdma_remote s)))
    = length (filter (\<lambda>x. x = CHUNK_MALLOCED) (malloc_map (rdma_remote s)))"
proof -
  let ?r = "rdma_remote s"
  let ?A = "{i. i < 32 \<and> malloc_map ?r ! i = CHUNK_MALLOCED}" and ?B = "{i. i < 32 \<and> conn_map ?r ! i \<noteq> - 1}"
  have len: "length (conn_map ?r) = 32" "length (malloc_map ?r) = 32" using assms by (simp_all add: wf_remote_def)
  have sub: "?B \<subseteq> ?A" using assms by (auto simp: wf_remote_def)
  have "card (set (free_list s)) = card (?A - ?B)" by (rule arg_cong [of _ _ card]) (auto simp: set_free_list chunk_free_def)
  also have "\<dots> = card ?A - card ?B" by (rule card_Diff_subset [OF _ sub]) simp
  finally have "length (free_list s) = card ?A - card ?B" using distinct_card [OF distinct_free_list, of s] by simp
  moreover have "card ?B \<le> card ?A" by (rule card_mono [OF _ sub]) simp
  ultimately show ?thesis by (simp add: length_filter_conv_card len)
qed

text \<open>
  C37. The server grants what is asked without comparing it with what is free. If its books agree
  with its tables, then after a request for \<open>n\<close> gigabytes the free size it will report is the
  number of chunks that were free less \<open>n\<close>; its books still agree exactly when at least \<open>n\<close> chunks were free,
  and after a larger request the free size it reports is negative.
\<close>

theorem request_beyond_the_free_chunks_breaks_the_books:
  assumes works: "host_works H" and inv: "inv_server s" and c: "get_conn s k = Inr c" and up: "connected c \<noteq> 0"
    and books: "books_ok (rdma_remote s)" and n: "0 < n"
  shows "\<exists>s'. send_chunks_to_client H k n s = Inr s' \<and>
    size_gb (rdma_remote s') - mapped_size (rdma_remote s') = int (length (free_list s)) - n \<and>
    (books_ok (rdma_remote s') \<longleftrightarrow> n \<le> int (length (free_list s)))"
proof -
  let ?r = "rdma_remote s" and ?ps = "picked n (free_list s)"
  obtain s' where res: "send_chunks_to_client H k n s = Inr s'" and inv': "inv_server s'"
      and ms: "mapped_size (rdma_remote s') = mapped_size ?r + n" and sz: "size_gb (rdma_remote s') = size_gb ?r"
      and mm: "malloc_map (rdma_remote s') = malloc_map ?r"
      and cm: "\<forall>i < 32. conn_map (rdma_remote s') ! i = (if i \<in> set ?ps then conn_index c else conn_map ?r ! i)"
    using send_chunks_spec [OF works inv c up, of n] by blast
  have wf: "wf_remote ?r" "wf_remote (rdma_remote s')" and ci: "conn_index c \<noteq> - 1"
    using inv inv' c by (auto simp: inv_server_def conn_ok_def)
  let ?B = "{i. i < 32 \<and> conn_map ?r ! i \<noteq> - 1}" and ?B' = "{i. i < 32 \<and> conn_map (rdma_remote s') ! i \<noteq> - 1}"
  have ps: "i < 32" "conn_map ?r ! i = - 1" if "i \<in> set ?ps" for i
    using that picked_subset [of n "free_list s"] by (auto simp: set_free_list chunk_free_def)
  have "?B' = ?B \<union> set ?ps" using cm ci ps by (auto split: if_splits)
  moreover have "?B \<inter> set ?ps = {}" using ps by auto
  ultimately have "card ?B' = card ?B + card (set ?ps)" by (simp add: card_Un_disjoint)
  also have "card (set ?ps) = length ?ps" by (rule distinct_card [OF picked_distinct [OF distinct_free_list]])
  finally have cnt: "length (filter (\<lambda>x. x \<noteq> - 1) (conn_map (rdma_remote s'))) =
      length (filter (\<lambda>x. x \<noteq> - 1) (conn_map ?r)) + length ?ps"
    using wf by (simp add: length_filter_conv_card wf_remote_def)
  show ?thesis
    by (intro exI [of _ s'] conjI)
      (use res ms sz mm cnt books free_list_length [OF wf(1)] length_picked [OF n, of "free_list s"] in
        \<open>auto simp: books_ok_def min_def split: if_splits\<close>)
qed

theorem request_beyond_the_free_chunks_breaks_the_books_witness:
  "\<exists>s'. send_chunks_to_client demo_host 0 10 (demo_server 0 zero_message) = Inr s' \<and>
     size_gb (rdma_remote s') - mapped_size (rdma_remote s') = - 4 \<and> \<not> books_ok (rdma_remote s')"
proof -
  have "books_ok (rdma_remote (demo_server 0 zero_message))"
    by (simp add: books_ok_def demo_server_def CHUNK_MALLOCED_def CHUNK_EMPTY_def)
  from request_beyond_the_free_chunks_breaks_the_books
    [OF demo_host_works demo_server_inv [of 0 zero_message] demo_server_conn [of 0 zero_message] _ this, of 10]
  show ?thesis by (auto simp: demo_free_list simp del: upt_rec_numeral)
qed

text \<open>
  A second client while the first is connected: there is no idle slot, so its connection never
  gets an index, and the field keeps what was in the allocated memory; yet the connection is counted, registered and accepted.
\<close>

theorem surplus_connection_has_no_index:
  assumes works: "host_works H" and busy: "conns_state s = [st]" "st \<noteq> CONN_IDLE" and ctx: "s_ctx s = Some verbs"
  shows "\<exists>s'. on_connect_request H verbs s = Inr (0, s') \<and> conns s' = conns s \<and> conns_state s' = [st] \<and>
    conn_num s' = conn_num s + 1 \<and> get_conn s' (length (conn_heap s)) = Inr (new_connection H) \<and>
    conn_index (new_connection H) = h_undef H"
proof -
  have "get_conn (s\<lparr>conn_heap := conn_heap s @ [Some x]\<rparr>) (length (conn_heap s)) = Inr x" for x
    by (simp add: get_conn_append)
  with assms show ?thesis
    by (simp add: on_connect_request_def build_connection_def build_context_def add_to_session_def MAX_CLIENT_def
        register_memory_def post_receives_def test_succeeds Let_def upd_conn_def s_call_def get_conn_def
        new_connection_def atomic_set_def)
qed

theorem surplus_connection_has_no_index_witness:
  "\<exists>s'. on_connect_request demo_host 1 (demo_server 0 zero_message) = Inr (0, s') \<and> conn_num s' = 2 \<and>
     conns_state s' = [CONN_CONNECTED]"
  using surplus_connection_has_no_index [OF demo_host_works, of "demo_server 0 zero_message" CONN_CONNECTED 1]
  by (auto simp: demo_server_def)

end
