(* ===== verification/Server_Evict.thy ===== *)
theory Server_Evict
  imports Server_Chunks
begin

text \<open>
  The memory server adapts its offer to the memory that is free (\<^verbatim>\<open>evict_mem\<close> and \<^verbatim>\<open>free_mem\<close> of
  \<^verbatim>\<open>rdma-common.c\<close>) and serves its clients (\<^verbatim>\<open>main\<close> of \<^verbatim>\<open>infiniswap-daemon.c\<close>). Eviction first
  frees unmapped chunks, then asks clients for the activity of their chunks and has the least
  active ones given back. The whole server is a machine whose events are connection events,
  completions and rounds of the adaptation; its invariant holds in every reachable state.
\<close>

section \<open>Waiting for a client\<close>

text \<open>
  A wait on a semaphore of a connection: until it is posted, the poller thread handles the next
  completion of \<open>wcs\<close>; if none is left the wait does not end.
\<close>

datatype conn_sem = EvictSem | StopSem

definition sem_value :: "conn_sem \<Rightarrow> connection \<Rightarrow> nat" where
  "sem_value x c = (case x of EvictSem \<Rightarrow> evict_sem c | StopSem \<Rightarrow> stop_sem c)"

definition sem_dec :: "conn_sem \<Rightarrow> connection \<Rightarrow> connection" where
  "sem_dec x c = (case x of EvictSem \<Rightarrow> c\<lparr>evict_sem := evict_sem c - 1\<rparr> | StopSem \<Rightarrow> c\<lparr>stop_sem := stop_sem c - 1\<rparr>)"

type_synonym completion = "nat \<times> int \<times> message option"

fun sem_wait :: "host \<Rightarrow> conn_sem \<Rightarrow> nat \<Rightarrow> completion list \<Rightarrow> server \<Rightarrow> (completion list \<times> server) res" where
  "sem_wait H x k [] s =
     res_bind (get_conn s k) (\<lambda>c. if 0 < sem_value x c then Inr ([], upd_conn k (sem_dec x) s) else Inl Blocked)"
| "sem_wait H x k (wc # wcs) s =
     res_bind (get_conn s k) (\<lambda>c. if 0 < sem_value x c then Inr (wc # wcs, upd_conn k (sem_dec x) s)
       else res_bind (handle_cqe H (fst wc) (fst (snd wc)) (snd (snd wc)) s) (sem_wait H x k wcs))"

definition send_stop :: "host \<Rightarrow> nat \<Rightarrow> int \<Rightarrow> completion list \<Rightarrow> server \<Rightarrow> (completion list \<times> server) res" where
  "send_stop H k n wcs s =
     res_bind (get_conn s k) (\<lambda>_.
     res_bind (send_message H k (upd_send_msg k (\<lambda>m. m\<lparr>msg_type := server_message_type_code S_STOP, msg_size_gb := n\<rparr>) s)) (\<lambda>s.
       if n \<noteq> 0 then sem_wait H StopSem k wcs s else Inr (wcs, s)))"

section \<open>Eviction\<close>

text \<open>Free unmapped chunks until \<open>evict_g\<close> are freed; the flag says whether that was enough.\<close>

fun free_unmapped :: "nat list \<Rightarrow> int \<Rightarrow> int \<Rightarrow> server \<Rightarrow> bool \<times> int \<times> server" where
  "free_unmapped [] freed_g evict_g s = (False, freed_g, s)"
| "free_unmapped (i # is) freed_g evict_g s =
     (if chunk_free i s
      then let s = upd_remote (\<lambda>r. r\<lparr>malloc_map := (malloc_map r)[i := CHUNK_EMPTY]\<rparr>)
                     (s_call (FreeRegion (region_list (rdma_remote s) ! i)) s)
           in if freed_g + 1 = evict_g
              then (True, freed_g + 1, upd_remote (\<lambda>r. r\<lparr>size_gb := size_gb r - evict_g\<rparr>) s)
              else free_unmapped is (freed_g + 1) evict_g s
      else free_unmapped is freed_g evict_g s)"

text \<open>The chunks that can be selected: 0 for a mapped chunk, - 1 for an unmapped one.\<close>

definition random_chunk_select :: "server \<Rightarrow> int list" where
  "random_chunk_select s = map (\<lambda>i. if conn_map (rdma_remote s) ! i = - 1 then - 1 else 0) [0..<MAX_FREE_MEM_GB]"

text \<open>
  From a random position on, cyclically, the first chunk that can still be selected. After a full
  turn without one the loop of the code never ends; 32 steps of fuel are one full turn.
\<close>

fun next_selectable :: "nat \<Rightarrow> int list \<Rightarrow> nat \<Rightarrow> nat option" where
  "next_selectable 0 sel r = None"
| "next_selectable (Suc fuel) sel r =
     (if sel ! r \<noteq> 0 then next_selectable fuel sel ((r + 1) mod MAX_FREE_MEM_GB) else Some r)"

fun select_chunks :: "host \<Rightarrow> nat list \<Rightarrow> int list \<Rightarrow> int list \<Rightarrow> server \<Rightarrow> int list res" where
  "select_chunks H [] sel send_list s = Inr send_list"
| "select_chunks H (j # js) sel send_list s =
     (case next_selectable MAX_FREE_MEM_GB sel (h_rand H j mod MAX_FREE_MEM_GB) of
        None \<Rightarrow> Inl Blocked
      | Some r \<Rightarrow> res_bind (int_set send_list (conn_map (rdma_remote s) ! r) 1) (\<lambda>send_list.
                   select_chunks H js (sel[r := 1]) send_list s))"

text \<open>The connection in slot \<open>i\<close> of the session.\<close>

definition session_conn :: "server \<Rightarrow> nat \<Rightarrow> (nat \<times> connection) res" where
  "session_conn s i = res_bind (array_get (conns s) i) (\<lambda>p. res_bind (deref p) (\<lambda>k.
     res_bind (get_conn s k) (\<lambda>c. Inr (k, c))))"

text \<open>When too little is mapped, every client with mapped chunks is asked.\<close>

fun ask_all_mapped :: "nat list \<Rightarrow> int list \<Rightarrow> server \<Rightarrow> int list res" where
  "ask_all_mapped [] send_list s = Inr send_list"
| "ask_all_mapped (i # is) send_list s =
     (if conns_state s ! i = CONN_MAPPED
      then res_bind (session_conn s i) (\<lambda>_. ask_all_mapped is (send_list[i := 1]) s)
      else ask_all_mapped is send_list s)"

text \<open>Whom to ask, and how many chunks to evict.\<close>

definition choose_clients :: "host \<Rightarrow> int \<Rightarrow> server \<Rightarrow> (int list \<times> int) res" where
  "choose_clients H evict_g s =
     (let send_list = replicate MAX_CLIENT (- 1);
          mapped = mapped_size (rdma_remote s)
      in if mapped < evict_g + EXTRA_CHUNK_NUM
         then let evict_g = (if mapped < evict_g then mapped else evict_g)
              in res_bind (ask_all_mapped [0..<MAX_CLIENT] send_list s) (\<lambda>send_list. Inr (send_list, evict_g))
         else res_bind (select_chunks H [0..<nat (evict_g + EXTRA_CHUNK_NUM)] (random_chunk_select s) send_list s)
                (\<lambda>send_list. Inr (send_list, evict_g)))"

fun count_asked :: "nat list \<Rightarrow> int list \<Rightarrow> server \<Rightarrow> int res" where
  "count_asked [] send_list s = Inr 0"
| "count_asked (i # is) send_list s =
     (if send_list ! i = 1
      then res_bind (session_conn s i) (\<lambda>(k, c). res_bind (count_asked is send_list s) (\<lambda>n. Inr (mapped_chunk_size c + n)))
      else count_asked is send_list s)"

fun send_evicts :: "host \<Rightarrow> nat list \<Rightarrow> int list \<Rightarrow> int \<Rightarrow> server \<Rightarrow> server res" where
  "send_evicts H [] send_list j s = Inr s"
| "send_evicts H (i # is) send_list j s =
     (if send_list ! i = 1
      then res_bind (session_conn s i) (\<lambda>(k, c). res_bind (send_evict H k j s) (send_evicts H is send_list j))
      else send_evicts H is send_list j s)"

text \<open>The entries of a reply: the slots with an activity, in host byte order.\<close>

type_synonym chunk_activity = "u64 \<times> int"

definition reply_entries :: "message \<Rightarrow> chunk_activity list" where
  "reply_entries m = map (\<lambda>i. (ntohll (msg_buf m ! i), int i)) (filter (\<lambda>i. msg_buf m ! i \<noteq> 0) [0..<MAX_MR_SIZE_GB])"

text \<open>They are written into the list from position \<open>n\<close> on; the list has room for the mapped chunks.\<close>

fun write_entries :: "chunk_activity list \<Rightarrow> nat \<Rightarrow> chunk_activity list \<Rightarrow> (nat \<times> chunk_activity list) res" where
  "write_entries [] n xs = Inr (n, xs)"
| "write_entries (e # es) n xs = (if n < length xs then write_entries es (n + 1) (xs[n := e]) else Inl OutOfBounds)"

fun collect :: "host \<Rightarrow> nat list \<Rightarrow> int list \<Rightarrow> nat \<Rightarrow> chunk_activity list \<Rightarrow> completion list \<Rightarrow> server
    \<Rightarrow> (chunk_activity list \<times> completion list \<times> server) res" where
  "collect H [] send_list n xs wcs s = Inr (xs, wcs, s)"
| "collect H (i # is) send_list n xs wcs s =
     (if send_list ! i = 1
      then res_bind (session_conn s i) (\<lambda>(k, _).
           res_bind (sem_wait H EvictSem k wcs s) (\<lambda>(wcs, s).
           let s = upd_send_msg k (\<lambda>m. clear_rkeys (m\<lparr>msg_size_gb := 0\<rparr>)) s
           in res_bind (get_conn s k) (\<lambda>c.
              res_bind (write_entries (reply_entries (recv_msg c)) n xs) (\<lambda>(n, xs).
              res_bind (post_receives H k s) (\<lambda>s. collect H is send_list n xs wcs s)))))
      else collect H is send_list n xs wcs s)"

text \<open>One round of the exchange sort: the least active entry among those from \<open>n\<close> on moves to \<open>n\<close>.\<close>

definition exchange :: "nat \<Rightarrow> nat \<Rightarrow> chunk_activity list \<Rightarrow> chunk_activity list" where
  "exchange n m xs = (if fst (xs ! n) > fst (xs ! m) then xs[n := xs ! m, m := xs ! n] else xs)"

definition select_min :: "nat \<Rightarrow> chunk_activity list \<Rightarrow> chunk_activity list" where
  "select_min n xs = fold (exchange n) [n + 1..<length xs] xs"

text \<open>Marking a chunk in the stop message of the client it is mapped to.\<close>

definition mark_chunk :: "int \<Rightarrow> int list \<Rightarrow> server \<Rightarrow> (int \<times> int list \<times> server) res" where
  "mark_chunk chunk_index send_list s =
     res_bind (int_get (conn_map (rdma_remote s)) chunk_index) (\<lambda>conn_ix.
     res_bind (int_get send_list conn_ix) (\<lambda>x.
     res_bind (session_conn s (nat conn_ix)) (\<lambda>(k, _).
       Inr (conn_ix, if x = 1 then send_list[nat conn_ix := 2] else send_list,
            upd_send_msg k (\<lambda>m. m\<lparr>msg_rkey := (msg_rkey m)[nat chunk_index := 1], msg_size_gb := msg_size_gb m + 1\<rparr>) s))))"

fun sort_and_mark :: "nat list \<Rightarrow> chunk_activity list \<Rightarrow> int \<Rightarrow> int list \<Rightarrow> server
    \<Rightarrow> (chunk_activity list \<times> int \<times> int list \<times> server) res" where
  "sort_and_mark [] xs conn_ix send_list s = Inr (xs, conn_ix, send_list, s)"
| "sort_and_mark (n # ns) xs conn_ix send_list s =
     (let xs = select_min n xs
      in res_bind (array_get xs n) (\<lambda>e.
         res_bind (mark_chunk (snd e) send_list s) (\<lambda>(conn_ix, send_list, s).
           sort_and_mark ns xs conn_ix send_list s)))"

text \<open>
  The stop messages. The size in a stop message is read from the connection of the chunk that
  was marked last, not from the connection the message goes to.
\<close>

fun send_stops :: "host \<Rightarrow> nat list \<Rightarrow> int list \<Rightarrow> int \<Rightarrow> completion list \<Rightarrow> server \<Rightarrow> (completion list \<times> server) res" where
  "send_stops H [] send_list conn_ix wcs s = Inr (wcs, s)"
| "send_stops H (i # is) send_list conn_ix wcs s =
     (if send_list ! i = 2
      then res_bind (session_conn s i) (\<lambda>(k, _).
           res_bind (if 0 \<le> conn_ix then session_conn s (nat conn_ix) else Inl OutOfBounds) (\<lambda>(_, last).
           res_bind (send_stop H k (msg_size_gb (send_msg last)) wcs s) (\<lambda>(wcs, s).
             send_stops H is send_list conn_ix wcs s)))
      else if send_list ! i = 1
      then res_bind (session_conn s i) (\<lambda>(k, _).
           res_bind (send_stop H k 0 wcs s) (\<lambda>(wcs, s). send_stops H is send_list conn_ix wcs s))
      else send_stops H is send_list conn_ix wcs s)"

definition evict_mapped :: "host \<Rightarrow> int \<Rightarrow> completion list \<Rightarrow> server \<Rightarrow> (completion list \<times> server) res" where
  "evict_mapped H evict_g wcs s =
     res_bind (choose_clients H evict_g s) (\<lambda>(send_list, j).
     res_bind (count_asked [0..<MAX_CLIENT] send_list s) (\<lambda>k.
     res_bind (send_evicts H [0..<MAX_CLIENT] send_list j s) (\<lambda>s.
     res_bind (collect H [0..<MAX_CLIENT] send_list 0 (replicate (nat k) (of_int (h_undef H), h_undef H)) wcs s) (\<lambda>(xs, wcs, s).
     res_bind (sort_and_mark [0..<nat j] xs (h_undef H) send_list s) (\<lambda>(xs, conn_ix, send_list, s).
       send_stops H [0..<MAX_CLIENT] send_list conn_ix wcs s)))))"

definition evict_mem :: "host \<Rightarrow> int \<Rightarrow> completion list \<Rightarrow> server \<Rightarrow> (completion list \<times> server) res" where
  "evict_mem H stop_g wcs s =
     (case free_unmapped [0..<MAX_FREE_MEM_GB] 0 stop_g s of
        (True, _, s) \<Rightarrow> Inr (wcs, s)
      | (False, freed_g, s) \<Rightarrow>
          evict_mapped H (stop_g - freed_g) wcs (upd_remote (\<lambda>r. r\<lparr>size_gb := size_gb r - freed_g\<rparr>) s))"

section \<open>Adaptation\<close>

text \<open>What the adaptation thread keeps from one second to the next.\<close>

record free_mem_state =
  last_free_mem_g :: int
  evict_hit_count :: int
  expand_hit_count :: int

text \<open>Allocate empty chunks until \<open>expand_size_g\<close> are allocated.\<close>

fun expand_chunks :: "host \<Rightarrow> nat list \<Rightarrow> int \<Rightarrow> int \<Rightarrow> server \<Rightarrow> server" where
  "expand_chunks H [] j expand_size_g s = s"
| "expand_chunks H (i # is) j expand_size_g s =
     (if malloc_map (rdma_remote s) ! i = CHUNK_EMPTY
      then let s = alloc_chunk H i s
           in if j + 1 = expand_size_g then s else expand_chunks H is (j + 1) expand_size_g s
      else expand_chunks H is j expand_size_g s)"

definition expand_size :: "int \<Rightarrow> server \<Rightarrow> int" where
  "expand_size last_g s =
     (let expand_size_g = last_g - FREE_MEM_EXPAND_THRESHOLD
      in if expand_size_g + size_gb (rdma_remote s) > int MAX_FREE_MEM_GB
         then int MAX_FREE_MEM_GB - size_gb (rdma_remote s) else expand_size_g)"

definition expand_mem :: "host \<Rightarrow> int \<Rightarrow> server \<Rightarrow> server" where
  "expand_mem H last_g s =
     (let expand_size_g = expand_size last_g s
      in upd_remote (\<lambda>r. r\<lparr>size_gb := size_gb r + expand_size_g\<rparr>)
           (expand_chunks H [0..<MAX_FREE_MEM_GB] 0 expand_size_g s))"

definition stop_size :: "int \<Rightarrow> server \<Rightarrow> int" where
  "stop_size last_g s =
     (let stop_size_g = FREE_MEM_EVICT_THRESHOLD - last_g
      in if size_gb (rdma_remote s) < stop_size_g then size_gb (rdma_remote s) else stop_size_g)"

text \<open>One turn of the thread's loop, with the memory information it reads.\<close>

definition free_mem_round :: "host \<Rightarrow> string \<Rightarrow> completion list \<Rightarrow> free_mem_state \<Rightarrow> server
    \<Rightarrow> (free_mem_state \<times> completion list \<times> server) res" where
  "free_mem_round H line wcs f s =
     (let filtered = h_filter H (free_mem_in_gb line) (last_free_mem_g f);
          f = f\<lparr>last_free_mem_g := filtered\<rparr>
      in if filtered < FREE_MEM_EVICT_THRESHOLD
         then let f = f\<lparr>evict_hit_count := evict_hit_count f + 1, expand_hit_count := 0\<rparr>
              in if evict_hit_count f \<ge> MEM_EVICT_HIT_THRESHOLD
                 then let stop_size_g = stop_size filtered s
                      in res_bind (if stop_size_g > 0 then evict_mem H stop_size_g wcs s else Inr (wcs, s)) (\<lambda>(wcs, s).
                           Inr (f\<lparr>evict_hit_count := 0, last_free_mem_g := filtered + stop_size_g\<rparr>, wcs, s))
                 else Inr (f, wcs, s)
         else if filtered > FREE_MEM_EXPAND_THRESHOLD
         then let f = f\<lparr>expand_hit_count := expand_hit_count f + 1, evict_hit_count := 0\<rparr>
              in if expand_hit_count f \<ge> MEM_EXPAND_HIT_THRESHOLD
                 then Inr (f\<lparr>expand_hit_count := 0, last_free_mem_g := filtered - expand_size filtered s\<rparr>, wcs,
                           expand_mem H filtered s)
                 else Inr (f, wcs, s)
         else Inr (f, wcs, s))"

text \<open>The thread: it sets up the session and adapts once per entry of \<open>lines\<close> while the server runs.\<close>

fun free_mem_loop :: "host \<Rightarrow> (string \<times> completion list) list \<Rightarrow> free_mem_state \<Rightarrow> server \<Rightarrow> (free_mem_state \<times> server) res" where
  "free_mem_loop H [] f s = Inr (f, s)"
| "free_mem_loop H ((line, wcs) # ls) f s =
     (if running s = 0 then Inr (f, s)
      else res_bind (free_mem_round H line wcs f s) (\<lambda>(f, wcs, s).
           res_bind (poll_cq H wcs s) (free_mem_loop H ls f)))"

definition free_mem :: "host \<Rightarrow> string \<Rightarrow> string \<Rightarrow> (string \<times> completion list) list \<Rightarrow> server \<Rightarrow> (free_mem_state \<times> server) res" where
  "free_mem H line0 line1 ls s =
     free_mem_loop H ls \<lparr>last_free_mem_g = free_mem_in_gb line1, evict_hit_count = 0, expand_hit_count = 0\<rparr>
       (rdma_session_init H line0 s)"

section \<open>The daemon\<close>

fun event_loop :: "host \<Rightarrow> cm_event list \<Rightarrow> server \<Rightarrow> server res" where
  "event_loop H [] s = Inr s"
| "event_loop H (e # es) s = res_bind (on_cm_event H e s) (\<lambda>(r, s). if r \<noteq> 0 then Inr s else event_loop H es s)"

definition listen :: "host \<Rightarrow> string list \<Rightarrow> server \<Rightarrow> server res" where
  "listen H argv s =
     (if length argv \<noteq> 3 then Inl (Exit ''usage: ip port'')
      else res_bind (test_z H CreateEventChannel s) (\<lambda>s.
           res_bind (test_nz H CreateListener s) (\<lambda>s.
           res_bind (test_nz H (BindAddr (argv ! 1) (argv ! 2)) s) (\<lambda>s.
           res_bind (test_nz H (Listen 10) s) (\<lambda>s.
             test_nz H StartFreeMemThread (s\<lparr>running := 1\<rparr>))))))"

text \<open>The main thread, with the connection events it gets until reading them fails.\<close>

definition daemon_main :: "host \<Rightarrow> string list \<Rightarrow> string \<Rightarrow> cm_event list \<Rightarrow> server \<Rightarrow> (int \<times> server) res" where
  "daemon_main H argv line es s =
     res_bind (listen H argv s) (\<lambda>s.
     res_bind (event_loop H es (rdma_session_init H line s)) (\<lambda>s.
       Inr (0, s_call DestroyEventChannel (s_call DestroyListener s))))"

section \<open>The invariant under eviction and expansion\<close>

lemma own_frame_sem_dec [simp]: "own_frame (sem_dec x)"
  by (cases x) (simp_all add: own_frame_def sem_dec_def)

lemma inv_sem_wait: "inv_server s \<Longrightarrow> sem_wait H x k wcs s = Inr (wcs', s') \<Longrightarrow> inv_server s'"
proof (induction wcs arbitrary: s)
  case Nil
  then show ?case by (auto simp: res_bind_Inr_iff intro: inv_upd_conn split: if_splits)
next
  case (Cons wc wcs)
  then obtain c where "get_conn s k = Inr c" by (auto simp: res_bind_Inr_iff)
  with Cons show ?case
    by (cases "0 < sem_value x c") (auto simp: res_bind_Inr_iff intro: inv_upd_conn dest: inv_handle_cqe)
qed

lemma inv_send_stop: 
  assumes "inv_server s" and "send_stop H k n wcs s = Inr (wcs', s')"
  shows "inv_server s'"
proof -
  let ?u = "upd_send_msg k (\<lambda>m. m\<lparr>msg_type := server_message_type_code S_STOP, msg_size_gb := n\<rparr>) s"
  from assms(2) obtain s1 where 1: "send_message H k ?u = Inr s1"
      "(if n \<noteq> 0 then sem_wait H StopSem k wcs s1 else Inr (wcs, s1)) = Inr (wcs', s')"
    by (auto simp: send_stop_def res_bind_Inr_iff simp del: server_message_type_code.simps)
  have "inv_server ?u" using assms(1) by (intro inv_upd_send_msg) simp_all
  then have "inv_server s1" using 1(1) by (rule inv_send_message)
  with 1(2) inv_sem_wait show ?thesis by (auto split: if_splits)
qed

text \<open>Changing whether the chunks that nobody has mapped are allocated.\<close>

lemma inv_malloc_map:
  assumes inv: "inv_server s" and "i < 32"
    and ok: "conn_map (rdma_remote s) ! i = - 1 \<or> v = CHUNK_MALLOCED"
  shows "inv_server (upd_remote (\<lambda>r. r\<lparr>region_list := (region_list r)[i := a], malloc_map := (malloc_map r)[i := v]\<rparr>) s)"
proof (rule inv_upd_remote [OF inv])
  have "wf_remote (rdma_remote s)" using inv by (simp add: inv_server_def)
  then show "wf_remote ((rdma_remote s)\<lparr>region_list := (region_list (rdma_remote s))[i := a],
      malloc_map := (malloc_map (rdma_remote s))[i := v]\<rparr>)"
    using ok by (auto simp: wf_remote_def nth_update_if)
qed simp

lemma inv_free_one:
  assumes "inv_server s" and "i < 32" and "chunk_free i s"
  shows "inv_server (upd_remote (\<lambda>r. r\<lparr>malloc_map := (malloc_map r)[i := CHUNK_EMPTY]\<rparr>) s)"
proof -
  have "upd_remote (\<lambda>r. r\<lparr>region_list := (region_list r)[i := region_list r ! i], malloc_map := (malloc_map r)[i := CHUNK_EMPTY]\<rparr>) s
      = upd_remote (\<lambda>r. r\<lparr>malloc_map := (malloc_map r)[i := CHUNK_EMPTY]\<rparr>) s" by (simp add: upd_remote_def)
  moreover have "inv_server (upd_remote (\<lambda>r. r\<lparr>region_list := (region_list r)[i := region_list (rdma_remote s) ! i],
      malloc_map := (malloc_map r)[i := CHUNK_EMPTY]\<rparr>) s)"
    using assms by (intro inv_malloc_map) (simp_all add: chunk_free_def)
  ultimately show ?thesis by (simp add: upd_remote_def)
qed

lemma inv_sizes: "inv_server s \<Longrightarrow> inv_server (upd_remote (\<lambda>r. r\<lparr>size_gb := f r\<rparr>) s)"
  by (intro inv_upd_remote) (simp_all add: inv_server_def)

lemma inv_free_unmapped:
  "inv_server s \<Longrightarrow> \<forall>i \<in> set is. i < 32 \<Longrightarrow> free_unmapped is f g s = (b, n, s') \<Longrightarrow> inv_server s'"
proof (induction "is" arbitrary: f s)
  case Nil
  then show ?case by simp
next
  case (Cons i "is")
  let ?u = "upd_remote (\<lambda>r. r\<lparr>malloc_map := (malloc_map r)[i := CHUNK_EMPTY]\<rparr>)
      (s_call (FreeRegion (region_list (rdma_remote s) ! i)) s)"
  show ?case
  proof (cases "chunk_free i s")
    case False
    with Cons show ?thesis by simp
  next
    case True
    have "inv_server ?u" using Cons.prems(1,2) True by (intro inv_free_one) (simp_all add: chunk_free_def)
    with Cons True show ?thesis by (auto simp: Let_def intro: inv_sizes split: if_splits)
  qed
qed

lemma inv_send_evicts:
  "inv_server s \<Longrightarrow> send_evicts H is sl j s = Inr s' \<Longrightarrow> inv_server s'"
  by (induction "is" arbitrary: s) (auto simp: res_bind_Inr_iff split: if_splits dest: inv_send_simple(2))

lemma inv_collect:
  "inv_server s \<Longrightarrow> collect H is sl n xs wcs s = Inr (ys, wcs', s') \<Longrightarrow> inv_server s'"
proof (induction "is" arbitrary: n xs wcs s)
  case Nil
  then show ?case by simp
next
  case (Cons i "is")
  show ?case
  proof (cases "sl ! i = 1")
    case False
    with Cons show ?thesis by simp
  next
    case True
    with Cons.prems(2) obtain k wcs1 s1 n1 xs1 s2 where
        1: "sem_wait H EvictSem k wcs s = Inr (wcs1, s1)"
        and 2: "post_receives H k (upd_send_msg k (\<lambda>m. clear_rkeys (m\<lparr>msg_size_gb := 0\<rparr>)) s1) = Inr s2"
        and 3: "collect H is sl n1 xs1 wcs1 s2 = Inr (ys, wcs', s')"
      by (auto simp: res_bind_Inr_iff Let_def)
    have "inv_server s1" using Cons.prems(1) 1 by (rule inv_sem_wait)
    then have "inv_server (upd_send_msg k (\<lambda>m. clear_rkeys (m\<lparr>msg_size_gb := 0\<rparr>)) s1)" by (intro inv_upd_send_msg) simp_all
    then have "inv_server s2" using 2 by (rule inv_post_receives)
    then show ?thesis using 3 by (rule Cons.IH)
  qed
qed

lemma inv_mark_chunk:
  assumes "inv_server s" and "mark_chunk i sl s = Inr (ci, sl', s')"
  shows "inv_server s'"
proof -
  from assms(2) obtain k where "s' = upd_send_msg k (\<lambda>m. m\<lparr>msg_rkey := (msg_rkey m)[nat i := 1], msg_size_gb := msg_size_gb m + 1\<rparr>) s"
    by (auto simp: mark_chunk_def res_bind_Inr_iff)
  with assms(1) show ?thesis by (auto intro!: inv_upd_send_msg simp: wf_message_def)
qed

lemma inv_sort_and_mark:
  "inv_server s \<Longrightarrow> sort_and_mark ns xs ci sl s = Inr (ys, ci', sl', s') \<Longrightarrow> inv_server s'"
  by (induction ns arbitrary: xs ci sl s) (auto simp: res_bind_Inr_iff Let_def dest: inv_mark_chunk)

lemma inv_send_stops:
  "inv_server s \<Longrightarrow> send_stops H is sl ci wcs s = Inr (wcs', s') \<Longrightarrow> inv_server s'"
proof (induction "is" arbitrary: wcs s)
  case Nil
  then show ?case by simp
next
  case (Cons i "is")
  show ?case
  proof (cases "sl ! i = 2 \<or> sl ! i = 1")
    case False
    with Cons show ?thesis by simp
  next
    case True
    with Cons.prems(2) obtain k n wcs1 s1 where "send_stop H k n wcs s = Inr (wcs1, s1)"
        "send_stops H is sl ci wcs1 s1 = Inr (wcs', s')"
      by (auto simp: res_bind_Inr_iff)
    with Cons.IH Cons.prems(1) inv_send_stop show ?thesis by blast
  qed
qed

lemma inv_evict_mapped:
  assumes "inv_server s" and "evict_mapped H g wcs s = Inr (wcs', s')"
  shows "inv_server s'"
proof -
  from assms(2) obtain sl j k s1 xs wcs1 s2 ys ci sl' s3 where
      1: "send_evicts H [0..<MAX_CLIENT] sl j s = Inr s1" and
      2: "collect H [0..<MAX_CLIENT] sl 0 (replicate (nat k) (of_int (h_undef H), h_undef H)) wcs s1 = Inr (xs, wcs1, s2)" and
      3: "sort_and_mark [0..<nat j] xs (h_undef H) sl s2 = Inr (ys, ci, sl', s3)" and
      4: "send_stops H [0..<MAX_CLIENT] sl' ci wcs1 s3 = Inr (wcs', s')"
    unfolding evict_mapped_def by (clarsimp simp: res_bind_Inr_iff)
  show ?thesis
    by (rule inv_send_stops [OF inv_sort_and_mark [OF inv_collect [OF inv_send_evicts [OF assms(1) 1] 2] 3] 4])
qed

lemma inv_evict_mem:
  assumes inv: "inv_server s" and res: "evict_mem H g wcs s = Inr (wcs', s')"
  shows "inv_server s'"
proof -
  obtain b f s1 where f: "free_unmapped [0..<32] 0 g s = (b, f, s1)" by (metis prod_cases3)
  have s1: "inv_server s1" using inv_free_unmapped [OF inv _ f] by simp
  show ?thesis
  proof (cases b)
    case True
    with res f s1 show ?thesis by (simp add: evict_mem_def del: upt_rec_numeral)
  next
    case False
    with res f have "evict_mapped H (g - f) wcs (upd_remote (\<lambda>r. r\<lparr>size_gb := size_gb r - f\<rparr>) s1) = Inr (wcs', s')"
      by (simp add: evict_mem_def del: upt_rec_numeral)
    with inv_sizes [OF s1] show ?thesis by (rule inv_evict_mapped)
  qed
qed

lemma inv_expand_chunks: "inv_server s \<Longrightarrow> \<forall>i \<in> set is. i < 32 \<Longrightarrow> inv_server (expand_chunks H is j n s)"
proof (induction "is" arbitrary: j s)
  case Nil
  then show ?case by simp
next
  case (Cons i "is")
  have "inv_server (alloc_chunk H i s)"
    unfolding alloc_chunk_def using Cons.prems by (intro inv_malloc_map) simp_all
  with Cons show ?case by (simp add: Let_def)
qed

lemma inv_expand_mem: "inv_server s \<Longrightarrow> inv_server (expand_mem H g s)"
  unfolding expand_mem_def Let_def by (intro inv_sizes inv_expand_chunks) simp_all

lemma inv_free_mem_round:
  assumes "inv_server s" and "free_mem_round H line wcs f s = Inr (f', wcs', s')"
  shows "inv_server s'"
proof -
  from assms(2) consider "s' = s" | g where "s' = expand_mem H g s" | g where "evict_mem H g wcs s = Inr (wcs', s')"
    by (auto simp: free_mem_round_def Let_def res_bind_Inr_iff split: if_splits)
  then show ?thesis using assms(1) inv_expand_mem inv_evict_mem by cases simp_all
qed

lemma inv_poll_cq: "inv_server s \<Longrightarrow> poll_cq H wcs s = Inr s' \<Longrightarrow> inv_server s'"
proof (induction wcs arbitrary: s)
  case Nil
  then show ?case by simp
next
  case (Cons wc wcs)
  then obtain s1 where "handle_cqe H (fst wc) (fst (snd wc)) (snd (snd wc)) s = Inr s1" "poll_cq H wcs s1 = Inr s'"
    by (cases wc) (auto simp: res_bind_Inr_iff)
  with Cons inv_handle_cqe show ?case by blast
qed

section \<open>The server as a machine\<close>

datatype server_event =
    CmEvent cm_event
  | Completion nat int "message option"
  | Round string "completion list"

type_synonym server_machine_state = "host \<times> free_mem_state \<times> server"

fun server_step :: "server_event \<Rightarrow> server_machine_state \<Rightarrow> server_machine_state res" where
  "server_step (CmEvent e) (H, f, s) = res_bind (on_cm_event H e s) (\<lambda>(r, s). Inr (H, f, s))"
| "server_step (Completion k status msg) (H, f, s) = res_bind (handle_cqe H k status msg s) (\<lambda>s. Inr (H, f, s))"
| "server_step (Round line wcs) (H, f, s) =
     (if running s = 0 then Inr (H, f, s)
      else res_bind (free_mem_round H line wcs f s) (\<lambda>(f, wcs, s). res_bind (poll_cq H wcs s) (\<lambda>s. Inr (H, f, s))))"

text \<open>The server once it listens and its session is set up.\<close>

definition server_started :: "server_machine_state \<Rightarrow> bool" where
  "server_started st \<longleftrightarrow> (case st of (H, f, s) \<Rightarrow> host_ok H \<and>
     (\<exists>argv line s0. listen H argv zero_server = Inr s0 \<and> s = rdma_session_init H line s0 \<and>
        f = \<lparr>last_free_mem_g = free_mem_in_gb line, evict_hit_count = 0, expand_hit_count = 0\<rparr>))"

definition server_inv :: "server_machine_state \<Rightarrow> bool" where
  "server_inv st \<longleftrightarrow> (case st of (H, f, s) \<Rightarrow> host_ok H \<and> inv_server s)"

lemma listen_frame: "listen H argv s = Inr s' \<Longrightarrow> rdma_remote s' = rdma_remote s \<and> conn_heap s' = conn_heap s"
  by (auto simp: listen_def res_bind_Inr_iff split: if_splits dest!: test_inv)

lemma server_inv_step: "server_inv st \<Longrightarrow> server_step e st = Inr st' \<Longrightarrow> server_inv st'"
proof (cases e)
  case (CmEvent x)
  assume "server_inv st" "server_step e st = Inr st'"
  with CmEvent show ?thesis
    by (cases st) (auto simp: server_inv_def res_bind_Inr_iff dest: inv_on_cm_event)
next
  case (Completion k status msg)
  assume "server_inv st" "server_step e st = Inr st'"
  with Completion show ?thesis
    by (cases st) (auto simp: server_inv_def res_bind_Inr_iff dest: inv_handle_cqe)
next
  case (Round line wcs)
  assume "server_inv st" "server_step e st = Inr st'"
  with Round show ?thesis
    by (cases st) (auto simp: server_inv_def res_bind_Inr_iff split: if_splits
        dest: inv_free_mem_round inv_poll_cq)
qed

interpretation server_machine: invariant_machine server_started server_step server_inv
proof
  show "server_inv st" if "server_started st" for st
  proof -
    obtain H f s where st: "st = (H, f, s)" by (metis prod_cases3)
    from that obtain argv line s0 where H: "host_ok H" and s0: "listen H argv zero_server = Inr s0"
        and s: "s = rdma_session_init H line s0" by (auto simp: server_started_def st)
    have "inv_server s" unfolding s
      by (rule inv_session_init; use listen_frame [OF s0] in \<open>simp add: zero_server_def\<close>)
    with H show ?thesis by (simp add: server_inv_def st)
  qed
qed (rule server_inv_step)

text \<open>
  C2. Whatever connection events, completions and rounds of the adaptation the server serves
  after its start, and in whatever order: in every state it reaches, no chunk belongs to two
  connections, a chunk that belongs to a connection is allocated and recorded as mapped to that
  connection, and no chunk counts as free while it belongs to anyone.
\<close>

theorem no_chunk_is_ever_shared:
  assumes start: "server_started (H, f0, s0)" and run: "server_machine.run es (H, f0, s0) = Inr (H', f, s)"
    and c: "get_conn s k = Inr c" and own: "i < 32" "owns c i"
  shows "(\<forall>k' c'. get_conn s k' = Inr c' \<and> owns c' i \<longrightarrow> k' = k) \<and> malloc_map (rdma_remote s) ! i = CHUNK_MALLOCED \<and>
    conn_map (rdma_remote s) ! i = conn_index c \<and> owner s i = Some k \<and> \<not> chunk_free i s"
proof -
  have inv: "inv_server s" using server_machine.inv_reachable [OF start run] by (simp add: server_inv_def)
  then have ok: "conn_ok (rdma_remote s) c" and wf: "wf_remote (rdma_remote s)" and ex: "exclusive s"
    using c by (simp_all add: inv_server_def)
  have cm: "conn_map (rdma_remote s) ! i = conn_index c" "conn_index c \<noteq> - 1"
    using ok own by (auto simp: conn_ok_def owns_def)
  moreover have "malloc_map (rdma_remote s) ! i = CHUNK_MALLOCED" using wf cm own(1) by (auto simp: wf_remote_def)
  moreover have "\<forall>k' c'. get_conn s k' = Inr c' \<and> owns c' i \<longrightarrow> k' = k" using ex c own unfolding exclusive_def by blast
  moreover have "owner s i = Some k" using owner_Some_iff [OF ex own(1), of k] c own(2) by blast
  moreover have "\<not> chunk_free i s" using cm by (simp add: chunk_free_def)
  ultimately show ?thesis by blast
qed

lemma first_client_spec:
  assumes works: "host_works H" and idle: "conns_state s = [CONN_IDLE]" "conns s = [None]" and ctx: "s_ctx s = None"
    and k: "k = length (conn_heap s)"
  shows "\<exists>s1 s2 c. on_cm_event H (ConnectRequest verbs) s = Inr (0, s1) \<and> on_cm_event H (Established k) s1 = Inr (0, s2) \<and>
    get_conn s2 k = Inr c \<and> conn_index c = 0 \<and> connected c = 1 \<and> mapped_chunk_size c = 0 \<and>
    conns s2 = [Some k] \<and> conns_state s2 = [CONN_CONNECTED] \<and> conn_num s2 = conn_num s + 1 \<and> rdma_remote s2 = rdma_remote s \<and>
    s_calls s2 = s_calls s @ [AllocPd, CreateCompChannel, CreateCq, ReqNotifyCq, PthreadCreate, CreateQp k build_qp_attr,
      RegMsgMr k, RegMsgMr k, PostRecv k, Accept k build_params, PostSend k (send_msg c)] \<and>
    msg_type (send_msg c) = server_message_type_code S_FREE_SIZE \<and>
    msg_size_gb (send_msg c) = size_gb (rdma_remote s) - mapped_size (rdma_remote s)"
proof -
  let ?c0 = "(new_connection H)\<lparr>conn_index := 0, send_msg := h_raw_message H, recv_msg := h_raw_message H\<rparr>"
  let ?s1 = "s\<lparr>s_ctx := Some verbs, conns := [Some k], conns_state := [CONN_CONNECTED], conn_num := conn_num s + 1,
      conn_heap := conn_heap s @ [Some ?c0],
      s_calls := s_calls s @ [AllocPd, CreateCompChannel, CreateCq, ReqNotifyCq, PthreadCreate, CreateQp k build_qp_attr,
        RegMsgMr k, RegMsgMr k, PostRecv k, Accept k build_params]\<rparr>"
  let ?m = "(h_raw_message H)\<lparr>msg_type := server_message_type_code S_FREE_SIZE,
      msg_size_gb := size_gb (rdma_remote s) - mapped_size (rdma_remote s)\<rparr>"
  let ?c = "?c0\<lparr>connected := 1, send_msg := ?m\<rparr>"
  let ?s2 = "?s1\<lparr>conn_heap := conn_heap s @ [Some ?c], s_calls := s_calls ?s1 @ [PostSend k ?m]\<rparr>"
  have 1: "on_cm_event H (ConnectRequest verbs) s = Inr (0, ?s1)"
    using assms
    by (simp add: on_cm_event_def on_connect_request_def build_connection_def build_context_def add_to_session_def
        MAX_CLIENT_def register_memory_def post_receives_def test_succeeds Let_def upd_conn_def s_call_def get_conn_def
        del: server_message_type_code.simps)
  have 2: "on_cm_event H (Established k) ?s1 = Inr (0, ?s2)"
    using assms
    by (simp add: on_cm_event_def rdma_connected_def on_connect_def send_free_mem_size_def send_message_def upd_send_msg_def
        test_succeeds upd_conn_def s_call_def get_conn_def)
  show ?thesis
    using 1 2 by (intro exI [of _ ?s1] exI [of _ ?s2] exI [of _ ?c] conjI)
      (simp_all add: k get_conn_def new_connection_def atomic_set_def)
qed

text \<open>
  The first client: the server creates its context and the queue pair, registers the message
  buffers and posts a receive before it accepts the connection; when the connection is
  established it sends the size of its free memory. The client is in slot 0 and owns nothing yet.
\<close>

theorem first_client_is_told_the_free_size:
  assumes "host_works H" and "conns_state s = [CONN_IDLE]" and "conns s = [None]" and "s_ctx s = None"
    and "k = length (conn_heap s)"
  shows "\<exists>s1 s2 c. on_cm_event H (ConnectRequest verbs) s = Inr (0, s1) \<and> on_cm_event H (Established k) s1 = Inr (0, s2) \<and>
    get_conn s2 k = Inr c \<and> conn_index c = 0 \<and> mapped_chunk_size c = 0 \<and> conns_state s2 = [CONN_CONNECTED] \<and>
    rdma_remote s2 = rdma_remote s \<and>
    s_calls s2 = s_calls s @ [AllocPd, CreateCompChannel, CreateCq, ReqNotifyCq, PthreadCreate, CreateQp k build_qp_attr,
      RegMsgMr k, RegMsgMr k, PostRecv k, Accept k build_params, PostSend k (send_msg c)] \<and>
    msg_type (send_msg c) = server_message_type_code S_FREE_SIZE \<and>
    msg_size_gb (send_msg c) = size_gb (rdma_remote s) - mapped_size (rdma_remote s)"
  using first_client_spec [OF assms, of verbs] by blast

text \<open>The server after \<^verbatim>\<open>main\<close> has started it on a machine with 18 GB of free memory.\<close>

definition demo_line :: string where
  "demo_line = ''MemFree: 18874368 kB''"

definition demo_started :: server where
  "demo_started = rdma_session_init demo_host demo_line (zero_server\<lparr>running := 1,
     s_calls := [CreateEventChannel, CreateListener, BindAddr ''ib'' ''9400'', Listen 10, StartFreeMemThread]\<rparr>)"

definition demo_fm :: free_mem_state where
  "demo_fm = \<lparr>last_free_mem_g = 18, evict_hit_count = 0, expand_hit_count = 0\<rparr>"

lemma demo_line_gb: "free_mem_in_gb demo_line = 18"
  by code_simp

lemma demo_started: "server_started (demo_host, demo_fm, demo_started)"
proof -
  have "listen demo_host [''daemon'', ''ib'', ''9400''] zero_server = Inr (zero_server\<lparr>running := 1,
     s_calls := [CreateEventChannel, CreateListener, BindAddr ''ib'' ''9400'', Listen 10, StartFreeMemThread]\<rparr>)"
    using demo_host_works by (simp add: listen_def test_succeeds s_call_def zero_server_def)
  then show ?thesis
    using demo_host_ok demo_line_gb unfolding server_started_def demo_started_def demo_fm_def prod.case by metis
qed

lemma demo_started_fields:
  "conns_state demo_started = [CONN_IDLE]" "conns demo_started = [None]" "s_ctx demo_started = None" "conn_heap demo_started = []"
  "free_list demo_started = [0..<6]"
proof -
  let ?z = "zero_server\<lparr>running := 1,
     s_calls := [CreateEventChannel, CreateListener, BindAddr ''ib'' ''9400'', Listen 10, StartFreeMemThread]\<rparr>"
  have len: "length (region_list (rdma_remote ?z)) = 32" by (simp add: zero_server_def)
  have o: "initial_offer 18 = 6" by (simp add: initial_offer_def FREE_MEM_EXPAND_THRESHOLD_def FREE_MEM_EVICT_THRESHOLD_def)
  note eq = session_init_eq [OF len, of demo_host demo_line, folded demo_started_def, unfolded demo_line_gb o]
  show "conns_state demo_started = [CONN_IDLE]" "conns demo_started = [None]" "s_ctx demo_started = None" "conn_heap demo_started = []"
    by (simp_all add: eq MAX_CLIENT_def, simp_all add: zero_server_def)
  have "free_list demo_started = free_list (demo_server 0 zero_message)"
    unfolding free_list_def by (rule filter_cong) (simp_all add: chunk_free_def demo_server_def eq)
  then show "free_list demo_started = [0..<6]" by (simp add: demo_free_list)
qed

text \<open>The client of slot 0 asks for two chunks.\<close>

definition demo_request :: message where
  "demo_request = zero_message\<lparr>msg_size_gb := 2, msg_type := 8\<rparr>"

lemma demo_run:
  obtains f s c where
    "server_machine.run [CmEvent (ConnectRequest 1), CmEvent (Established 0), Completion 0 0 (Some demo_request)]
       (demo_host, demo_fm, demo_started) = Inr (demo_host, f, s)"
    "get_conn s 0 = Inr c" "owns c 0" "conns_state s = [CONN_MAPPED]"
proof -
  obtain s1 s2 c2 where 1: "on_cm_event demo_host (ConnectRequest 1) demo_started = Inr (0, s1)"
      and 2: "on_cm_event demo_host (Established 0) s1 = Inr (0, s2)"
      and c2: "get_conn s2 0 = Inr c2" "connected c2 = 1" "conn_index c2 = 0" "conns_state s2 = [CONN_CONNECTED]"
      and rem: "rdma_remote s2 = rdma_remote demo_started"
    using first_client_spec [OF demo_host_works demo_started_fields(1,2,3), of 0 1] demo_started_fields(4) by auto
  have inv2: "inv_server s2"
    using server_machine.inv_reachable [OF demo_started, of "[CmEvent (ConnectRequest 1), CmEvent (Established 0)]"
        "(demo_host, demo_fm, s2)"] 1 2 by (simp add: server_inv_def)
  have fl: "free_list s2 = [0..<6]"
    using demo_started_fields(5) rem by (simp add: free_list_def chunk_free_def del: upt_rec_numeral)
  have m: "msg_type demo_request = server_message_type_code S_REQUEST_CHUNKS" "msg_size_gb demo_request = 2"
    by (simp_all add: demo_request_def)
  have up: "connected c2 \<noteq> 0" "0 \<le> conn_index c2" "conn_index c2 < int (length (conns_state s2))" using c2 by simp_all
  obtain s3 c3 where 3: "handle_cqe demo_host 0 0 (Some demo_request) s2 = Inr s3" "get_conn s3 0 = Inr c3"
      and own: "\<forall>i < 32. owner s3 i = (if i \<in> set (picked 2 (free_list s2)) then Some 0 else owner s2 i)"
      and st: "conns_state s3 = (conns_state s2)[nat (conn_index c2) := CONN_MAPPED]"
    using handle_request_spec [OF demo_host_works inv2 c2(1) up m(1)] unfolding m(2) by blast
  have "0 \<in> set (picked 2 (free_list s2))" by (simp add: fl picked_def upt_rec)
  then have "owner s3 0 = Some 0" using own by simp
  then have o3: "owns c3 0" using ownerD [of s3 0 0] 3(2) by simp
  from 1 2 3(1) have "server_machine.run [CmEvent (ConnectRequest 1), CmEvent (Established 0), Completion 0 0 (Some demo_request)]
       (demo_host, demo_fm, demo_started) = Inr (demo_host, demo_fm, s3)" by simp
  then show thesis by (rule that [of _ _ c3]) (use 3(2) o3 st c2 in simp_all)
qed

theorem no_chunk_is_ever_shared_witness:
  "\<exists>f s c. server_machine.run [CmEvent (ConnectRequest 1), CmEvent (Established 0), Completion 0 0 (Some demo_request)]
       (demo_host, demo_fm, demo_started) = Inr (demo_host, f, s) \<and> get_conn s 0 = Inr c \<and> owns c 0 \<and> \<not> chunk_free 0 s"
proof -
  obtain f s c where run: "server_machine.run [CmEvent (ConnectRequest 1), CmEvent (Established 0), Completion 0 0 (Some demo_request)]
       (demo_host, demo_fm, demo_started) = Inr (demo_host, f, s)" and c: "get_conn s 0 = Inr c" and own: "owns c 0"
    using demo_run by metis
  have "\<not> chunk_free 0 s" using no_chunk_is_ever_shared [OF demo_started run c _ own] by simp
  with run c own show ?thesis by blast
qed

theorem first_client_is_told_the_free_size_witness:
  "\<exists>s1 s2 c. on_cm_event demo_host (ConnectRequest 1) demo_started = Inr (0, s1) \<and>
     on_cm_event demo_host (Established 0) s1 = Inr (0, s2) \<and> get_conn s2 0 = Inr c \<and> conns_state s2 = [CONN_CONNECTED]"
  using first_client_is_told_the_free_size [OF demo_host_works demo_started_fields(1,2,3), of 0 1] demo_started_fields(4)
  by auto

section \<open>Eviction takes the least active chunks\<close>

lemma exchange_props:
  assumes "n < m" and "m < length xs"
  shows "length (exchange n m xs) = length xs" "mset (exchange n m xs) = mset xs"
    "fst (exchange n m xs ! n) \<le> fst (exchange n m xs ! m)" "fst (exchange n m xs ! n) \<le> fst (xs ! n)"
    "i \<noteq> n \<Longrightarrow> i \<noteq> m \<Longrightarrow> exchange n m xs ! i = xs ! i"
  using assms by (auto simp: exchange_def mset_swap)

lemma select_min_prefix:
  assumes "n < length xs" and "b \<le> length xs"
  shows "let ys = fold (exchange n) [n + 1..<b] xs
    in length ys = length xs \<and> mset ys = mset xs \<and> (\<forall>i < n. ys ! i = xs ! i) \<and> (\<forall>m. n < m \<and> m < b \<longrightarrow> fst (ys ! n) \<le> fst (ys ! m))"
  using assms(2)
proof (induction b)
  case 0
  then show ?case by simp
next
  case (Suc b)
  let ?ys = "fold (exchange n) [n + 1..<b] xs"
  show ?case
  proof (cases "n < b")
    case False
    then have "[n + 1..<Suc b] = []" by simp
    with False show ?thesis by (auto simp: Let_def)
  next
    case True
    have ih: "length ?ys = length xs" "mset ?ys = mset xs" "\<forall>i < n. ?ys ! i = xs ! i"
        "\<forall>m. n < m \<and> m < b \<longrightarrow> fst (?ys ! n) \<le> fst (?ys ! m)"
      using Suc by (simp_all add: Let_def)
    have b: "b < length ?ys" using Suc.prems ih(1) by simp
    note e = exchange_props [OF True b]
    have "fst (exchange n b ?ys ! n) \<le> fst (exchange n b ?ys ! m)" if "n < m" "m < Suc b" for m
      using e(3) e(4) e(5) [of m] ih(4) that by (cases "m = b") (auto intro: order_trans)
    with True e ih show ?thesis by (simp add: Let_def)
  qed
qed

lemma select_min_spec:
  assumes "n < length xs"
  shows "length (select_min n xs) = length xs" "mset (select_min n xs) = mset xs" "i < n \<Longrightarrow> select_min n xs ! i = xs ! i"
    "n < m \<Longrightarrow> m < length xs \<Longrightarrow> fst (select_min n xs ! n) \<le> fst (select_min n xs ! m)"
  using select_min_prefix [OF assms order_refl] by (simp_all add: select_min_def Let_def)

text \<open>The first \<open>n\<close> entries are the least, in order.\<close>

definition least_first :: "nat \<Rightarrow> chunk_activity list \<Rightarrow> bool" where
  "least_first n xs \<longleftrightarrow> (\<forall>a b. a < n \<and> a < b \<and> b < length xs \<longrightarrow> fst (xs ! a) \<le> fst (xs ! b))"

lemma least_first_step:
  assumes "least_first n xs" and n: "n < length xs"
  shows "least_first (Suc n) (select_min n xs)"
  unfolding least_first_def
proof (intro allI impI)
  fix a b
  let ?ys = "select_min n xs"
  assume ab: "a < Suc n \<and> a < b \<and> b < length ?ys"
  note sm = select_min_spec [OF n]
  show "fst (?ys ! a) \<le> fst (?ys ! b)"
  proof (cases "a = n")
    case True
    with sm ab show ?thesis by simp
  next
    case False
    with ab have a: "a < n" by simp
    have eq: "take n ?ys = take n xs" using sm n by (intro nth_take_lemma) auto
    have "mset (take n ?ys) + mset (drop n ?ys) = mset (take n xs) + mset (drop n xs)"
      using sm(2) by (metis append_take_drop_id mset_append)
    with eq have set: "set (drop n ?ys) = set (drop n xs)" by (metis add_left_cancel set_mset_mset)
    have "fst (xs ! a) \<le> fst e" if "e \<in> set (drop n xs)" for e
    proof -
      from that obtain i where "i < length xs - n" "e = xs ! (n + i)" by (auto simp: in_set_conv_nth)
      with assms(1) a show ?thesis by (simp add: least_first_def)
    qed
    moreover have "?ys ! b \<in> set (drop n ?ys)" if "n \<le> b" 
      using that ab by (auto simp: in_set_conv_nth intro!: exI [of _ "b - n"])
    moreover have "fst (xs ! a) \<le> fst (xs ! b)" if "b < n" using assms(1) a ab that n by (simp add: least_first_def)
    ultimately show ?thesis using sm(3) a ab set by (cases "b < n") auto
  qed
qed

text \<open>One chunk of the only client is marked.\<close>

lemma mark_chunk_spec:
  assumes one: "conns s = [Some k]" and c: "get_conn s k = Inr c" and sl: "length sl = 1"
    and wf: "wf_remote (rdma_remote s)" and i: "0 \<le> i" "i < 32" "conn_map (rdma_remote s) ! nat i = 0"
  shows "\<exists>sl'. mark_chunk i sl s = Inr (0, sl', upd_send_msg k (\<lambda>m. m\<lparr>msg_rkey := (msg_rkey m)[nat i := 1],
           msg_size_gb := msg_size_gb m + 1\<rparr>) s) \<and> length sl' = 1"
  using assms by (auto simp: mark_chunk_def int_get_def wf_remote_def session_conn_def)

lemma sort_and_mark_spec:
  assumes "conns s = [Some k]" and "get_conn s k = Inr c" and "length sl = 1" and "inv_server s"
    and "\<forall>e \<in> set xs. 0 \<le> snd e \<and> snd e < 32 \<and> conn_map (rdma_remote s) ! nat (snd e) = 0"
    and "n \<le> j" and "j \<le> length xs" and "least_first n xs"
  shows "\<exists>ys ci' sl' s' c'. sort_and_mark [n..<j] xs ci sl s = Inr (ys, ci', sl', s') \<and>
    length ys = length xs \<and> mset ys = mset xs \<and> (\<forall>i < n. ys ! i = xs ! i) \<and> least_first j ys \<and> get_conn s' k = Inr c' \<and>
    msg_size_gb (send_msg c') = msg_size_gb (send_msg c) + int (j - n) \<and>
    (\<forall>i < 32. msg_rkey (send_msg c') ! i = (if \<exists>a. n \<le> a \<and> a < j \<and> snd (ys ! a) = int i then 1 else msg_rkey (send_msg c) ! i))"
  using assms
proof (induction "j - n" arbitrary: n xs ci sl s c)
  case 0
  then have "n = j" by simp
  with 0 show ?case by auto
next
  case (Suc d)
  then have n: "n < j" "n < length xs" by simp_all
  let ?xs = "select_min n xs"
  note sm = select_min_spec [OF n(2)]
  have set: "set ?xs = set xs" using sm(2) by (metis set_mset_mset)
  let ?e = "snd (?xs ! n)"
  have "?xs ! n \<in> set xs" using set n(2) sm(1) by (metis nth_mem)
  with Suc.prems(5) have e: "0 \<le> ?e" "?e < 32" "conn_map (rdma_remote s) ! nat ?e = 0" by auto
  let ?s = "upd_send_msg k (\<lambda>m. m\<lparr>msg_rkey := (msg_rkey m)[nat ?e := 1], msg_size_gb := msg_size_gb m + 1\<rparr>) s"
  let ?c = "c\<lparr>send_msg := (send_msg c)\<lparr>msg_rkey := (msg_rkey (send_msg c))[nat ?e := 1], msg_size_gb := msg_size_gb (send_msg c) + 1\<rparr>\<rparr>"
  have wf: "wf_remote (rdma_remote s)" using Suc.prems(4) by (simp add: inv_server_def)
  obtain sl1 where mark: "mark_chunk ?e sl s = Inr (0, sl1, ?s)" and sl1: "length sl1 = 1"
    using mark_chunk_spec [OF Suc.prems(1,2,3) wf e] by blast
  have c1: "get_conn ?s k = Inr ?c" using Suc.prems(2) by (simp add: upd_send_msg_def get_conn_upd_conn)
  have s1: "conns ?s = [Some k]" "rdma_remote ?s = rdma_remote s" using Suc.prems(1) by (simp_all add: upd_send_msg_def)
  have inv1: "inv_server ?s" by (rule inv_mark_chunk [OF Suc.prems(4) mark])
  have d: "d = j - Suc n" using Suc.hyps(2) by simp
  have all: "\<forall>e \<in> set ?xs. 0 \<le> snd e \<and> snd e < 32 \<and> conn_map (rdma_remote ?s) ! nat (snd e) = 0"
    using Suc.prems(5) set s1(2) by simp
  have len1: "Suc n \<le> j" "j \<le> length ?xs" using n(1) Suc.prems(7) sm(1) by simp_all
  obtain ys ci' sl' s' c' where rec: "sort_and_mark [Suc n..<j] ?xs 0 sl1 ?s = Inr (ys, ci', sl', s')"
      and ys: "length ys = length ?xs" "mset ys = mset ?xs" "\<forall>i < Suc n. ys ! i = ?xs ! i" "least_first j ys"
      and c': "get_conn s' k = Inr c'" "msg_size_gb (send_msg c') = msg_size_gb (send_msg ?c) + int (j - Suc n)"
        "\<forall>i < 32. msg_rkey (send_msg c') ! i = (if \<exists>a. Suc n \<le> a \<and> a < j \<and> snd (ys ! a) = int i then 1 else msg_rkey (send_msg ?c) ! i)"
    using Suc.hyps(1) [OF d s1(1) c1 sl1 inv1 all len1 least_first_step [OF Suc.prems(8) n(2)], of 0] by blast
  have len: "length (msg_rkey (send_msg c)) = 32" using Suc.prems(2,4) by (auto simp: inv_server_def conn_ok_def wf_message_def)
  have rk: "msg_rkey (send_msg c') ! i = (if \<exists>a. n \<le> a \<and> a < j \<and> snd (ys ! a) = int i then 1 else msg_rkey (send_msg c) ! i)"
    if i: "i < 32" for i
  proof -
    have "(\<exists>a. n \<le> a \<and> a < j \<and> snd (ys ! a) = int i) \<longleftrightarrow> ?e = int i \<or> (\<exists>a. Suc n \<le> a \<and> a < j \<and> snd (ys ! a) = int i)"
      using ys(3) n(1) by (metis Suc_leD Suc_leI lessI order_le_less order_refl)
    moreover have "nat ?e = i \<longleftrightarrow> ?e = int i" using e by auto
    ultimately show ?thesis using c'(3) i len by (auto simp: nth_update_if)
  qed
  have "sort_and_mark [n..<j] xs ci sl s = Inr (ys, ci', sl', s')"
    using rec mark n sm(1) by (simp add: upt_conv_Cons Let_def)
  with ys sm c' rk n show ?case by (intro exI conjI) (assumption, auto)
qed



section \<open>Eviction of free chunks\<close>

lemma free_unmapped_spec:
  assumes "inv_server s" and "distinct is" and "\<forall>i \<in> set is. i < 32" and "0 < g - f"
    and "fs = filter (\<lambda>i. chunk_free i s) is"
  shows "if g - f \<le> int (length fs)
    then free_unmapped is f g s = (True, g, upd_remote (\<lambda>r. r\<lparr>size_gb := size_gb r - g,
        malloc_map := fold (\<lambda>i m. m[i := CHUNK_EMPTY]) (take (nat (g - f)) fs) (malloc_map r)\<rparr>)
        (s\<lparr>s_calls := s_calls s @ map (\<lambda>i. FreeRegion (region_list (rdma_remote s) ! i)) (take (nat (g - f)) fs)\<rparr>))
    else free_unmapped is f g s = (False, f + int (length fs), upd_remote (\<lambda>r. r\<lparr>
        malloc_map := fold (\<lambda>i m. m[i := CHUNK_EMPTY]) fs (malloc_map r)\<rparr>)
        (s\<lparr>s_calls := s_calls s @ map (\<lambda>i. FreeRegion (region_list (rdma_remote s) ! i)) fs\<rparr>))"
  using assms
proof (induction "is" arbitrary: f s fs)
  case Nil
  then show ?case by (simp add: upd_remote_def)
next
  case (Cons i "is")
  show ?case
  proof (cases "chunk_free i s")
    case False
    with Cons show ?thesis by simp
  next
    case True
    let ?u = "upd_remote (\<lambda>r. r\<lparr>malloc_map := (malloc_map r)[i := CHUNK_EMPTY]\<rparr>)
        (s_call (FreeRegion (region_list (rdma_remote s) ! i)) s)"
    let ?gs = "filter (\<lambda>i. chunk_free i s) is"
    have fs: "fs = i # ?gs" using Cons.prems(5) True by simp
    show ?thesis
    proof (cases "g - f = 1")
      case one: True
      with True fs show ?thesis by (simp add: upd_remote_def s_call_def)
    next
      case False
      have inv: "inv_server ?u" using Cons.prems(1,3) True by (intro inv_free_one) (simp_all add: chunk_free_def)
      have eq: "?gs = filter (\<lambda>j. chunk_free j ?u) is" 
      proof (rule filter_cong [OF refl])
        fix j assume "j \<in> set is"
        with Cons.prems(2) have "i \<noteq> j" by auto
        then show "chunk_free j s = chunk_free j ?u" by (simp add: chunk_free_def)
      qed
      have g: "0 < g - (f + 1)" "nat (g - f) = Suc (nat (g - (f + 1)))" using Cons.prems(4) False by simp_all
      have step: "free_unmapped (i # is) f g s = free_unmapped is (f + 1) g ?u" using True False by (simp add: Let_def)
      have rl: "region_list (rdma_remote ?u) = region_list (rdma_remote s)" by simp
      have d: "distinct is" "\<forall>i \<in> set is. i < 32" using Cons.prems(2,3) by simp_all
      show ?thesis
      proof (cases "g - (f + 1) \<le> int (length ?gs)")
        case le: True
        with Cons.IH [OF inv d g(1) eq] fs show ?thesis unfolding step rl g(2) by (simp add: upd_remote_def s_call_def)
      next
        case le: False
        with Cons.IH [OF inv d g(1) eq] fs show ?thesis unfolding step rl by (simp add: upd_remote_def s_call_def)
      qed
    qed
  qed
qed

lemma nth_fold_update: "j < length m \<Longrightarrow> fold (\<lambda>i m. m[i := v]) ps m ! j = (if j \<in> set ps then v else m ! j)"
  by (induction ps arbitrary: m) (auto simp: nth_update_if)

text \<open>
  When enough chunks are free, eviction takes the first of the free chunks, frees their memory in
  this order and lowers the size by what was asked; no client hears of it, no connection changes
  and no mapped chunk is touched.
\<close>

theorem eviction_of_free_chunks_disturbs_nobody:
  assumes inv: "inv_server s" and g: "0 < g" "g \<le> int (length (free_list s))"
  shows "\<exists>s'. evict_mem H g wcs s = Inr (wcs, s') \<and> inv_server s' \<and> conn_heap s' = conn_heap s \<and>
    conn_map (rdma_remote s') = conn_map (rdma_remote s) \<and>
    (\<forall>i < 32. malloc_map (rdma_remote s') ! i = (if i \<in> set (take (nat g) (free_list s)) then CHUNK_EMPTY else malloc_map (rdma_remote s) ! i)) \<and>
    s_calls s' = s_calls s @ map (\<lambda>i. FreeRegion (region_list (rdma_remote s) ! i)) (take (nat g) (free_list s)) \<and>
    size_gb (rdma_remote s') = size_gb (rdma_remote s) - g \<and> mapped_size (rdma_remote s') = mapped_size (rdma_remote s)"
proof -
  let ?ps = "take (nat g) (free_list s)"
  let ?s' = "upd_remote (\<lambda>r. r\<lparr>size_gb := size_gb r - g, malloc_map := fold (\<lambda>i m. m[i := CHUNK_EMPTY]) ?ps (malloc_map r)\<rparr>)
      (s\<lparr>s_calls := s_calls s @ map (\<lambda>i. FreeRegion (region_list (rdma_remote s) ! i)) ?ps\<rparr>)"
  have "free_unmapped [0..<32] 0 g s = (True, g, ?s')"
    using free_unmapped_spec [OF inv _ _ _ free_list_def [of s], of g 0] g by simp
  then have res: "evict_mem H g wcs s = Inr (wcs, ?s')" by (simp add: evict_mem_def del: upt_rec_numeral)
  have len: "length (malloc_map (rdma_remote s)) = 32" using inv by (simp add: inv_server_def wf_remote_def)
  have "inv_server ?s'" by (rule inv_evict_mem [OF inv res])
  with res len show ?thesis by (intro exI [of _ ?s'] conjI) (simp_all add: nth_fold_update)
qed

theorem eviction_of_free_chunks_disturbs_nobody_witness:
  "\<exists>s'. evict_mem demo_host 3 [] (demo_server 2 zero_message) = Inr ([], s') \<and> conn_heap s' = conn_heap (demo_server 2 zero_message) \<and>
     size_gb (rdma_remote s') = 3"
proof -
  have sz: "size_gb (rdma_remote (demo_server 2 zero_message)) = 6" by (simp add: demo_server_def)
  show ?thesis
    using eviction_of_free_chunks_disturbs_nobody [OF demo_server_inv [of 2 zero_message], of 3 demo_host "[]"]
    by (auto simp: demo_free_list sz simp del: upt_rec_numeral)
qed

section \<open>Selecting clients at random\<close>

lemma next_selectable_Some: "next_selectable f sel r = Some r' \<Longrightarrow> r < 32 \<Longrightarrow> r' < 32 \<and> sel ! r' = 0"
  by (induction f arbitrary: r) (auto split: if_splits)

lemma next_selectable_None:
  "next_selectable f sel r = None \<longleftrightarrow> (\<forall>d < f. sel ! ((r + d) mod 32) \<noteq> 0)" if "r < 32"
  using that
proof (induction f arbitrary: r)
  case 0
  then show ?case by simp
next
  case (Suc f)
  have "next_selectable f sel ((r + 1) mod 32) = None \<longleftrightarrow> (\<forall>d < f. sel ! (((r + 1) mod 32 + d) mod 32) \<noteq> 0)"
    by (rule Suc.IH) simp
  also have "\<dots> \<longleftrightarrow> (\<forall>d < f. sel ! ((r + Suc d) mod 32) \<noteq> 0)" by (simp add: mod_add_left_eq)
  finally have ih: "next_selectable f sel ((r + 1) mod 32) = None \<longleftrightarrow> (\<forall>d < f. sel ! ((r + Suc d) mod 32) \<noteq> 0)" .
  have "(\<forall>d < Suc f. sel ! ((r + d) mod 32) \<noteq> 0) \<longleftrightarrow> sel ! r \<noteq> 0 \<and> (\<forall>d < f. sel ! ((r + Suc d) mod 32) \<noteq> 0)"
    using Suc.prems by (auto simp: less_Suc_eq_0_disj)
  with ih show ?case by simp
qed

text \<open>One full turn reaches every chunk.\<close>

lemma next_selectable_full_turn:
  assumes "r < 32"
  shows "next_selectable 32 sel r = None \<longleftrightarrow> (\<forall>i < 32. sel ! i \<noteq> 0)"
proof -
  have "\<exists>d < 32. (r + d) mod 32 = i" if "i < 32" for i
    using that assms by (intro exI [of _ "(i + 32 - r) mod 32"]) (simp add: mod_add_right_eq)
  then show ?thesis unfolding next_selectable_None [OF assms] by (metis mod_less_divisor zero_less_numeral)
qed

lemma select_chunks_spec:
  assumes "length sel = 32" and "\<forall>i < 32. sel ! i = 0 \<longrightarrow> conn_map (rdma_remote s) ! i = 0" and "length sl = 1"
  shows "select_chunks H js sel sl s =
    (if length js \<le> length (filter (\<lambda>x. x = 0) sel) then Inr (if js = [] then sl else [1]) else Inl Blocked)"
  using assms
proof (induction js arbitrary: sel sl)
  case Nil
  then show ?case by simp
next
  case (Cons j js)
  let ?r = "h_rand H j mod 32"
  show ?case
  proof (cases "next_selectable 32 sel ?r")
    case None
    then have "\<forall>x \<in> set sel. x \<noteq> 0" using next_selectable_full_turn [of ?r sel] Cons.prems(1) by (auto simp: in_set_conv_nth)
    then have "filter (\<lambda>x. x = 0) sel = []" by (simp add: filter_empty_conv)
    with None show ?thesis by simp
  next
    case (Some r)
    then have r: "r < 32" "sel ! r = 0" using next_selectable_Some [OF Some] by simp_all
    have cnt: "length (filter (\<lambda>x. x = 0) sel) = Suc (length (filter (\<lambda>x. x = 0) (sel[r := 1])))"
      using length_filter_update [of r sel "\<lambda>x. x = 0" 1] r Cons.prems(1) by simp
    have set: "int_set sl (conn_map (rdma_remote s) ! r) 1 = Inr [1]"
      using Cons.prems(2,3) r by (cases sl) (simp_all add: int_set_def)
    have "select_chunks H js (sel[r := 1]) [1] s = (if length js \<le> length (filter (\<lambda>x. x = 0) (sel[r := 1]))
        then Inr (if js = [] then [1] else [1]) else Inl Blocked)"
      by (rule Cons.IH) (use Cons.prems in \<open>auto simp: nth_update_if\<close>)
    with Some set cnt show ?thesis by simp
  qed
qed



section \<open>Expansion\<close>

definition malloced :: "rdma_remote_mem \<Rightarrow> nat" where
  "malloced r = length (filter (\<lambda>x. x = CHUNK_MALLOCED) (malloc_map r))"

definition empties :: "server \<Rightarrow> nat list \<Rightarrow> nat" where
  "empties s is = length (filter (\<lambda>i. malloc_map (rdma_remote s) ! i = CHUNK_EMPTY) is)"

lemma expand_chunks_frame:
  "get_conn (expand_chunks H is j n s) = get_conn s" "conn_heap (expand_chunks H is j n s) = conn_heap s"
  "conn_map (rdma_remote (expand_chunks H is j n s)) = conn_map (rdma_remote s)"
  "size_gb (rdma_remote (expand_chunks H is j n s)) = size_gb (rdma_remote s)"
  "mapped_size (rdma_remote (expand_chunks H is j n s)) = mapped_size (rdma_remote s)"
  by (induction "is" arbitrary: j s) (simp_all add: Let_def alloc_chunk_def)

lemma expand_chunks_keeps:
  "malloc_map (rdma_remote s) ! i = CHUNK_MALLOCED \<Longrightarrow>
     malloc_map (rdma_remote (expand_chunks H is j n s)) ! i = CHUNK_MALLOCED \<and>
     region_list (rdma_remote (expand_chunks H is j n s)) ! i = region_list (rdma_remote s) ! i"
proof (induction "is" arbitrary: j s)
  case Nil
  then show ?case by simp
next
  case (Cons x "is")
  show ?case
  proof (cases "malloc_map (rdma_remote s) ! x = CHUNK_EMPTY")
    case False
    with Cons show ?thesis by simp
  next
    case True
    with Cons.prems have "x \<noteq> i" by (auto simp: CHUNK_MALLOCED_def CHUNK_EMPTY_def)
    with Cons.prems have "malloc_map (rdma_remote (alloc_chunk H x s)) ! i = CHUNK_MALLOCED"
        "region_list (rdma_remote (alloc_chunk H x s)) ! i = region_list (rdma_remote s) ! i" by (simp_all add: alloc_chunk_def)
    with Cons.IH True show ?thesis by (simp add: Let_def)
  qed
qed

lemma expand_chunks_count:
  assumes "length (malloc_map (rdma_remote s)) = 32" and "\<forall>i \<in> set is. i < 32" and "distinct is"
  shows "int (malloced (rdma_remote (expand_chunks H is j n s))) = int (malloced (rdma_remote s)) +
    (if 0 < n - j \<and> n - j \<le> int (empties s is) then n - j else int (empties s is))"
  using assms
proof (induction "is" arbitrary: j s)
  case Nil
  then show ?case by (simp add: empties_def)
next
  case (Cons x "is")
  let ?s = "alloc_chunk H x s"
  show ?case
  proof (cases "malloc_map (rdma_remote s) ! x = CHUNK_EMPTY")
    case False
    then have "empties s (x # is) = empties s is" by (simp add: empties_def)
    with False Cons show ?thesis by simp
  next
    case True
    have x: "x < length (malloc_map (rdma_remote s))" using Cons.prems(1,2) by simp
    have m: "malloced (rdma_remote ?s) = Suc (malloced (rdma_remote s))"
      using length_filter_update [OF x, of "\<lambda>x. x = CHUNK_MALLOCED" CHUNK_MALLOCED] True
      by (simp add: malloced_def alloc_chunk_def CHUNK_MALLOCED_def CHUNK_EMPTY_def)
    have "filter (\<lambda>i. malloc_map (rdma_remote ?s) ! i = CHUNK_EMPTY) is = filter (\<lambda>i. malloc_map (rdma_remote s) ! i = CHUNK_EMPTY) is"
    proof (rule filter_cong [OF refl])
      fix i assume "i \<in> set is"
      with Cons.prems(3) have "x \<noteq> i" by auto
      then show "(malloc_map (rdma_remote ?s) ! i = CHUNK_EMPTY) = (malloc_map (rdma_remote s) ! i = CHUNK_EMPTY)"
        by (simp add: alloc_chunk_def)
    qed
    then have e: "empties s (x # is) = Suc (empties ?s is)" using True by (simp add: empties_def)
    have len: "length (malloc_map (rdma_remote ?s)) = 32" using Cons.prems(1) by (simp add: alloc_chunk_def)
    show ?thesis
    proof (cases "j + 1 = n")
      case one: True
      with True m e show ?thesis by (auto simp: Let_def)
    next
      case False
      then have "expand_chunks H (x # is) j n s = expand_chunks H is (j + 1) n ?s" using True by (simp add: Let_def)
      with Cons.IH [OF len, of "j + 1"] Cons.prems(2,3) m e False show ?thesis by auto
    qed
  qed
qed

lemma empties_all:
  assumes "length (malloc_map (rdma_remote s)) = 32"
    and "\<forall>i < 32. malloc_map (rdma_remote s) ! i = CHUNK_MALLOCED \<or> malloc_map (rdma_remote s) ! i = CHUNK_EMPTY"
  shows "empties s [0..<32] + malloced (rdma_remote s) = 32"
proof -
  let ?m = "malloc_map (rdma_remote s)"
  have "empties s [0..<32] = length (filter (\<lambda>x. x = CHUNK_EMPTY) (map (nth ?m) [0..<32]))"
    by (simp add: empties_def filter_map comp_def del: upt_rec_numeral)
  also have "map (nth ?m) [0..<32] = ?m" using assms(1) map_nth [of ?m] by simp
  also have "filter (\<lambda>x. x = CHUNK_EMPTY) ?m = filter (\<lambda>x. \<not> x = CHUNK_MALLOCED) ?m"
    by (rule filter_cong) (use assms in \<open>auto simp: in_set_conv_nth CHUNK_MALLOCED_def CHUNK_EMPTY_def\<close>)
  finally show ?thesis using sum_length_filter_compl [of "\<lambda>x. x = CHUNK_MALLOCED" ?m] assms(1) by (simp add: malloced_def)
qed

text \<open>
  C16. When the machine has memory to spare, the offer grows to what leaves the threshold free, but
  to no more than 32 chunks: exactly that many empty chunks are allocated, so that the books agree
  with the tables as before; every chunk keeps its owner, and a chunk that was allocated keeps its memory.
\<close>

theorem expansion_keeps_the_books:
  assumes inv: "inv_server s" and books: "books_ok (rdma_remote s)" and g: "16 < g"
    and two: "\<forall>i < 32. malloc_map (rdma_remote s) ! i = CHUNK_MALLOCED \<or> malloc_map (rdma_remote s) ! i = CHUNK_EMPTY"
  shows "inv_server (expand_mem H g s) \<and> books_ok (rdma_remote (expand_mem H g s)) \<and>
    size_gb (rdma_remote (expand_mem H g s)) = min 32 (size_gb (rdma_remote s) + (g - 16)) \<and>
    owner (expand_mem H g s) = owner s \<and>
    (\<forall>i < 32. malloc_map (rdma_remote s) ! i = CHUNK_MALLOCED \<longrightarrow>
       malloc_map (rdma_remote (expand_mem H g s)) ! i = CHUNK_MALLOCED \<and>
       region_list (rdma_remote (expand_mem H g s)) ! i = region_list (rdma_remote s) ! i)"
proof -
  let ?n = "expand_size g s" and ?r = "rdma_remote s" and ?t = "expand_chunks H [0..<32] 0 (expand_size g s) s"
  have len: "length (malloc_map ?r) = 32" using inv by (simp add: inv_server_def wf_remote_def)
  have sz: "size_gb ?r = int (malloced ?r)" using books by (simp add: books_ok_def malloced_def)
  have all: "empties s [0..<32] + malloced ?r = 32" by (rule empties_all [OF len two])
  have n: "?n = min (g - 16) (32 - size_gb ?r)" by (auto simp: expand_size_def FREE_MEM_EXPAND_THRESHOLD_def Let_def)
  have "int (malloced (rdma_remote ?t)) = int (malloced ?r) +
      (if 0 < ?n - 0 \<and> ?n - 0 \<le> int (empties s [0..<32]) then ?n - 0 else int (empties s [0..<32]))"
    by (rule expand_chunks_count [OF len]) simp_all
  then have cnt: "int (malloced (rdma_remote ?t)) = int (malloced ?r) + ?n" using all n sz g by (auto split: if_splits)
  have e: "expand_mem H g s = upd_remote (\<lambda>r. r\<lparr>size_gb := size_gb r + ?n\<rparr>) ?t"
    by (simp add: expand_mem_def Let_def del: upt_rec_numeral)
  have "books_ok (rdma_remote (expand_mem H g s))"
    using cnt books sz unfolding e by (simp add: books_ok_def malloced_def expand_chunks_frame del: upt_rec_numeral)
  moreover have "owner (expand_mem H g s) = owner s"
    unfolding e owner_def by (simp add: expand_chunks_frame fun_eq_iff del: upt_rec_numeral)
  moreover have "size_gb (rdma_remote (expand_mem H g s)) = min 32 (size_gb ?r + (g - 16))"
    unfolding e using n by (simp add: expand_chunks_frame min_def del: upt_rec_numeral)
  moreover have "inv_server (expand_mem H g s)" by (rule inv_expand_mem [OF inv])
  ultimately show ?thesis unfolding e using expand_chunks_keeps [of s _ H "[0..<32]" 0 ?n] by simp
qed

theorem expansion_keeps_the_books_witness:
  "size_gb (rdma_remote (expand_mem demo_host 20 (demo_server 2 zero_message))) = 10 \<and>
   books_ok (rdma_remote (expand_mem demo_host 20 (demo_server 2 zero_message)))"
proof -
  let ?s = "demo_server 2 zero_message"
  have b: "books_ok (rdma_remote ?s)" "size_gb (rdma_remote ?s) = 6"
      "\<forall>i < 32. malloc_map (rdma_remote ?s) ! i = CHUNK_MALLOCED \<or> malloc_map (rdma_remote ?s) ! i = CHUNK_EMPTY"
    by (simp_all add: books_ok_def demo_server_def CHUNK_MALLOCED_def CHUNK_EMPTY_def nth_append)
  show ?thesis using expansion_keeps_the_books [OF demo_server_inv b(1) _ b(3), of 20 demo_host] b(2) by simp
qed

end
