(* ===== verification/Server_Isolation.thy ===== *)
theory Server_Isolation
  imports Server_Evict
begin

text \<open>
  What one client of the memory server can do to another. Every event of the server has its
  actors: the connections whose completions it serves, the connection that is closed. The locale
  \<open>isolated_machine\<close> extends the machines with an invariant by the contract that an event leaves
  what the others hold as it was; for the server, what a connection holds is a chunk with the address of its memory
  and its registration, which is all the client needs to reach it.
\<close>

section \<open>What a connection holds\<close>

type_synonym holding = "nat \<times> u64 \<times> (u64 \<times> u32)"

definition chunk_held :: "nat \<Rightarrow> holding \<Rightarrow> server \<Rightarrow> bool" where
  "chunk_held k x s = (case x of (i, region, mr) \<Rightarrow>
     i < 32 \<and> (case get_conn s k of Inl _ \<Rightarrow> False | Inr c \<Rightarrow> owns c i) \<and>
     region_list (rdma_remote s) ! i = region \<and> mr_list (rdma_remote s) ! i = mr)"

text \<open>All but the connections of \<open>J\<close> hold afterwards what they held before.\<close>

definition undisturbed :: "nat set \<Rightarrow> server \<Rightarrow> server \<Rightarrow> bool" where
  "undisturbed J s s' \<longleftrightarrow> (\<forall>k x. k \<notin> J \<longrightarrow> chunk_held k x s' = chunk_held k x s)"

lemma undisturbed_refl [simp]: "undisturbed J s s"
  by (simp add: undisturbed_def)

lemma undisturbed_trans [trans]: "undisturbed J s t \<Longrightarrow> undisturbed J t u \<Longrightarrow> undisturbed J s u"
  by (simp add: undisturbed_def)

lemma undisturbed_mono: "undisturbed J s t \<Longrightarrow> J \<subseteq> J' \<Longrightarrow> undisturbed J' s t"
  by (auto simp: undisturbed_def)

lemma undisturbedI:
  assumes "\<And>k c i. k \<notin> J \<Longrightarrow> get_conn s k = Inr c \<Longrightarrow> i < 32 \<Longrightarrow> owns c i \<Longrightarrow>
      (\<exists>c'. get_conn s' k = Inr c' \<and> owns c' i) \<and> region_list (rdma_remote s') ! i = region_list (rdma_remote s) ! i \<and>
      mr_list (rdma_remote s') ! i = mr_list (rdma_remote s) ! i"
    and "\<And>k c i. k \<notin> J \<Longrightarrow> get_conn s' k = Inr c \<Longrightarrow> i < 32 \<Longrightarrow> owns c i \<Longrightarrow> \<exists>c'. get_conn s k = Inr c' \<and> owns c' i"
  shows "undisturbed J s s'"
  unfolding undisturbed_def
proof (intro allI impI)
  fix k and x :: holding
  assume k: "k \<notin> J"
  obtain i region mr where x: "x = (i, region, mr)" by (metis prod_cases3)
  show "chunk_held k x s' = chunk_held k x s"
  proof (cases "\<exists>c. get_conn s k = Inr c \<and> owns c i \<and> i < 32")
    case True
    then obtain c where "get_conn s k = Inr c" "owns c i" "i < 32" by blast
    with assms(1) [OF k this(1,3,2)] show ?thesis by (auto simp: chunk_held_def x)
  next
    case False
    with assms(2) [OF k] show ?thesis by (auto simp: chunk_held_def x split: sum.splits)
  qed
qed

lemma undisturbed_same:
  assumes "get_conn s' = get_conn s" and "region_list (rdma_remote s') = region_list (rdma_remote s)"
    and "mr_list (rdma_remote s') = mr_list (rdma_remote s)"
  shows "undisturbed J s s'"
  by (rule undisturbedI) (use assms in auto)

lemma undisturbed_s_call [simp]: "undisturbed J s (s_call x s)"
  by (rule undisturbed_same) simp_all

lemma undisturbed_upd_conn:
  assumes "k \<in> J \<or> own_frame f"
  shows "undisturbed J s (upd_conn k f s)"
  by (rule undisturbedI) (use assms in \<open>auto simp: get_conn_upd_conn owns_own_frame split: if_splits sum.splits\<close>)

lemma undisturbed_upd_remote:
  assumes "\<And>r. region_list (g r) = region_list r" "\<And>r. mr_list (g r) = mr_list r"
  shows "undisturbed J s (upd_remote g s)"
  by (rule undisturbed_same) (use assms in simp_all)

lemma undisturbed_upd_send_msg:
  assumes "\<And>m :: message. wf_message m \<Longrightarrow> wf_message (f m)"
  shows "undisturbed J s (upd_send_msg k f s)"
  unfolding upd_send_msg_def using assms by (intro undisturbed_upd_conn) simp

lemma undisturbed_send_message: "send_message H k s = Inr s' \<Longrightarrow> undisturbed J s s'"
  by (auto simp: send_message_def res_inversion split: if_splits dest: test_inv)

lemma undisturbed_post_receives: "post_receives H k s = Inr s' \<Longrightarrow> undisturbed J s s'"
  by (auto simp: post_receives_def res_inversion dest: test_inv)

section \<open>Messages\<close>

text \<open>A free chunk is held by nobody, so handing it out concerns its new owner only.\<close>

lemma free_chunk_not_owned:
  assumes "inv_server s" and "chunk_free i s" and "i < 32" and "get_conn s k = Inr c"
  shows "\<not> owns c i"
  using assms unfolding inv_server_def conn_ok_def chunk_free_def owns_def by force

lemma undisturbed_map_chunk:
  assumes inv: "inv_server s" and free: "chunk_free i s" "i < 32" and res: "map_chunk H k i s = Inr s'"
  shows "undisturbed {k} s s'"
proof -
  from res obtain c where c: "get_conn s k = Inr c" by (auto simp: map_chunk_def res_inversion)
  note s' = map_chunk_eq [OF res c]
  have same: "get_conn s' j = get_conn s j" if "j \<noteq> k" for j
    using that by (simp add: s' upd_send_msg_def get_conn_upd_conn)
  have mr: "mr_list (rdma_remote s') ! j = mr_list (rdma_remote s) ! j" if "j \<noteq> i" for j
    using that by (simp add: s' upd_send_msg_def)
  have reg: "region_list (rdma_remote s') = region_list (rdma_remote s)" by (simp add: s' upd_send_msg_def)
  show ?thesis
  proof (rule undisturbedI)
    fix j c i' assume "j \<notin> {k}" "get_conn s j = Inr c" "i' < 32" "owns c i'"
    moreover from this have "i' \<noteq> i" using free_chunk_not_owned [OF inv free] by blast
    ultimately show "(\<exists>c'. get_conn s' j = Inr c' \<and> owns c' i') \<and>
        region_list (rdma_remote s') ! i' = region_list (rdma_remote s) ! i' \<and> mr_list (rdma_remote s') ! i' = mr_list (rdma_remote s) ! i'"
      by (simp add: same mr reg)
  qed (auto simp: same)
qed

lemma undisturbed_send_loop:
  "inv_server s \<Longrightarrow> \<forall>i \<in> set is. i < 32 \<Longrightarrow> send_loop H k is n s = Inr s' \<Longrightarrow> undisturbed {k} s s'"
proof (induction "is" arbitrary: n s)
  case Nil
  then show ?case by simp
next
  case (Cons i "is")
  show ?case
  proof (cases "chunk_free i s")
    case False
    with Cons show ?thesis by simp
  next
    case True
    with Cons.prems(3) obtain s1 where 1: "map_chunk H k i s = Inr s1"
        "(if n - 1 = 0 then Inr s1 else send_loop H k is (n - 1) s1) = Inr s'"
      by (auto simp: res_inversion)
    have "inv_server s1" "undisturbed {k} s s1"
      using inv_map_chunk [OF Cons.prems(1) True _ 1(1)] undisturbed_map_chunk [OF Cons.prems(1) True _ 1(1)] Cons.prems(2) by simp_all
    with 1(2) Cons.IH Cons.prems(2) show ?thesis by (auto split: if_splits intro: undisturbed_trans)
  qed
qed

lemma undisturbed_first_free:
  "inv_server s \<Longrightarrow> \<forall>i \<in> set is. i < 32 \<Longrightarrow> map_first_free H k is s = Inr s' \<Longrightarrow> undisturbed {k} s s'"
  by (induction "is") (auto split: if_splits dest: undisturbed_map_chunk)

lemma undisturbed_add_mapped: "undisturbed {k} s (add_mapped k n s)"
  unfolding add_mapped_def by (rule undisturbed_trans [OF undisturbed_upd_remote undisturbed_upd_conn]) simp_all

text \<open>The frame of a message that carries chunks: prepared before they are picked, finished and sent afterwards.\<close>

lemma undisturbed_chunk_message:
  assumes "undisturbed {k} (upd_send_msg k (\<lambda>m. clear_rkeys (m\<lparr>msg_size_gb := n\<rparr>)) s) s1"
    and "send_message H k (upd_send_msg k (\<lambda>m. m\<lparr>msg_type := t\<rparr>) (add_mapped k n' s1)) = Inr s'"
  shows "undisturbed {k} s s'"
proof -
  have "undisturbed {k} s (upd_send_msg k (\<lambda>m. clear_rkeys (m\<lparr>msg_size_gb := n\<rparr>)) s)" by (rule undisturbed_upd_send_msg) simp
  also note assms(1)
  also note undisturbed_add_mapped
  also have "undisturbed {k} (add_mapped k n' s1) (upd_send_msg k (\<lambda>m. m\<lparr>msg_type := t\<rparr>) (add_mapped k n' s1))"
    by (rule undisturbed_upd_send_msg) simp
  also note undisturbed_send_message [OF assms(2)]
  finally show ?thesis .
qed

lemma undisturbed_send_chunks:
  assumes "inv_server s" and "send_chunks_to_client H k n s = Inr s'"
  shows "undisturbed {k} s s'"
proof -
  let ?s = "upd_send_msg k (\<lambda>m. clear_rkeys (m\<lparr>msg_size_gb := n\<rparr>)) s"
  from assms(2) obtain s1 where s1: "send_loop H k [0..<32] n ?s = Inr s1"
      and snd: "send_message H k (upd_send_msg k (\<lambda>m. m\<lparr>msg_type := server_message_type_code SEND_CHUNKS\<rparr>) (add_mapped k n s1)) = Inr s'"
    by (auto simp: send_chunks_to_client_def Let_def res_inversion simp del: upt_rec_numeral)
  have "inv_server ?s" using assms(1) by (intro inv_upd_send_msg) simp_all
  from undisturbed_send_loop [OF this _ s1] snd show ?thesis by (auto intro: undisturbed_chunk_message)
qed

lemma undisturbed_send_single:
  assumes "inv_server s" and "send_single_chunk_to_client H k n s = Inr s'"
  shows "undisturbed {k} s s'"
proof -
  let ?s = "upd_send_msg k (\<lambda>m. clear_rkeys (m\<lparr>msg_size_gb := n\<rparr>)) s"
  from assms(2) obtain s1 where s1: "map_first_free H k [0..<32] ?s = Inr s1"
      and snd: "send_message H k (upd_send_msg k (\<lambda>m. m\<lparr>msg_type := server_message_type_code SEND_SINGLE_CHUNK\<rparr>) (add_mapped k 1 s1)) = Inr s'"
    by (auto simp: send_single_chunk_to_client_def Let_def res_inversion simp del: upt_rec_numeral)
  have "inv_server ?s" using assms(1) by (intro inv_upd_send_msg) simp_all
  from undisturbed_first_free [OF this _ s1] snd show ?thesis by (auto intro: undisturbed_chunk_message)
qed

lemma undisturbed_send_simple:
  "send_free_mem_size H k s = Inr s' \<Longrightarrow> undisturbed J s s'"
  "send_evict H k n s = Inr s' \<Longrightarrow> undisturbed J s s'"
  by (auto simp: send_free_mem_size_def send_evict_def res_inversion
      dest!: undisturbed_send_message [where J = J] elim!: undisturbed_trans [rotated] intro!: undisturbed_upd_send_msg)

section \<open>Handlers\<close>

lemma undisturbed_stop_chunk: "stop_chunk k i s = Inr s' \<Longrightarrow> undisturbed {k} s s'"
  by (rule undisturbedI) (auto simp: stop_chunk_def res_bind_Inr_iff Let_def get_conn_upd_conn)

lemma undisturbed_stop_chunks: "stop_chunks k is m s = Inr s' \<Longrightarrow> undisturbed {k} s s'"
  by (induction "is" arbitrary: s) (auto simp: res_inversion split: if_splits dest: undisturbed_stop_chunk intro: undisturbed_trans)

lemma undisturbed_finish_done: "finish_done H k n s = Inr s' \<Longrightarrow> undisturbed {k} s s'"
proof -
  assume res: "finish_done H k n s = Inr s'"
  let ?s = "upd_conn k (\<lambda>c. c\<lparr>mapped_chunk_size := mapped_chunk_size c - n, stop_sem := stop_sem c + 1\<rparr>)
      (upd_remote (\<lambda>r. r\<lparr>size_gb := size_gb r - n, mapped_size := mapped_size r - n\<rparr>) s)"
  from res obtain u where u: "post_receives H k u = Inr s'" "u = ?s \<or> (\<exists>st. u = ?s\<lparr>conns_state := st\<rparr>)"
    by (auto simp: finish_done_def Let_def res_bind_Inr_iff split: if_splits)
  have "undisturbed {k} s ?s" by (rule undisturbed_trans [OF undisturbed_upd_remote undisturbed_upd_conn]) simp_all
  also have "undisturbed {k} ?s u" using u(2) by (auto intro: undisturbed_same)
  also note undisturbed_post_receives [OF u(1)]
  finally show ?thesis .
qed

lemma undisturbed_recv_done: "recv_done H k s = Inr s' \<Longrightarrow> undisturbed {k} s s'"
  by (auto simp: recv_done_def res_bind_Inr_iff simp del: upt_rec_numeral
      intro: undisturbed_trans dest!: undisturbed_stop_chunks undisturbed_finish_done)

lemma undisturbed_set_conn_state: "set_conn_state k st s = Inr s' \<Longrightarrow> undisturbed J s s'"
  by (auto simp: set_conn_state_def res_bind_Inr_iff intro: undisturbed_same)

lemma undisturbed_handle_recv:
  assumes "inv_server s" and "handle_recv H k s = Inr s'"
  shows "undisturbed {k} s s'"
proof -
  let ?b = "upd_conn k (\<lambda>c. (atomic_set CQ_QP_BUSY c)\<lparr>conn_server_state := S_BIND\<rparr>) s"
    and ?q = "upd_conn k (atomic_set CQ_QP_BUSY) s"
  have b: "inv_server ?b" using assms(1) by (auto intro: inv_upd_conn)
  have start: "undisturbed {k} s ?b" "undisturbed {k} s ?q" by (rule undisturbed_upd_conn, simp)+
  from assms(2) obtain c where "get_conn s k = Inr c" by (auto simp: handle_recv_def res_bind_Inr_iff)
  with assms(2) consider
      s1 where "send_free_mem_size H k ?q = Inr s1" "post_receives H k s1 = Inr s'"
    | n s1 s2 where "send_chunks_to_client H k n ?b = Inr s1 \<or> send_single_chunk_to_client H k n ?b = Inr s1"
        "set_conn_state k CONN_MAPPED s1 = Inr s2" "post_receives H k s2 = Inr s'"
    | "s' = upd_conn k (\<lambda>c. c\<lparr>evict_sem := evict_sem c + 1\<rparr>) s"
    | "recv_done H k ?q = Inr s'"
    by (auto simp: handle_recv_def res_bind_Inr_iff Let_def die_def split: if_splits)
  then show ?thesis
  proof cases
    case 1
    from start(2) undisturbed_send_simple(1) [OF 1(1)] undisturbed_post_receives [OF 1(2)] show ?thesis by (blast intro: undisturbed_trans)
  next
    case 2
    then have "undisturbed {k} ?b s1" using b undisturbed_send_chunks undisturbed_send_single by blast
    with start(1) undisturbed_set_conn_state [OF 2(2)] undisturbed_post_receives [OF 2(3)] show ?thesis by (blast intro: undisturbed_trans)
  next
    case 3
    then show ?thesis by (auto intro: undisturbed_upd_conn)
  next
    case 4
    from undisturbed_trans [OF start(2) undisturbed_recv_done [OF 4]] show ?thesis .
  qed
qed

lemma undisturbed_handle_cqe:
  assumes "inv_server s" and "handle_cqe H k status msg s = Inr s'"
  shows "undisturbed {k} s s'"
proof (cases msg)
  case None
  with assms show ?thesis by (auto simp: handle_cqe_def res_bind_Inr_iff die_def intro: undisturbed_upd_conn split: if_splits)
next
  case (Some m)
  let ?u = "upd_conn k (\<lambda>c. c\<lparr>recv_msg := m\<rparr>) s"
  have "handle_recv H k ?u = Inr s'"
    using assms(2) Some by (auto simp: handle_cqe_def res_bind_Inr_iff die_def split: if_splits)
  moreover have "inv_server ?u" using assms(1) by (intro inv_upd_conn) simp_all
  ultimately have "undisturbed {k} ?u s'" using undisturbed_handle_recv by blast
  then show ?thesis by (rule undisturbed_trans [OF undisturbed_upd_conn, rotated]) simp
qed

section \<open>Eviction and adaptation\<close>

lemma undisturbed_poll_cq: "inv_server s \<Longrightarrow> poll_cq H wcs s = Inr s' \<Longrightarrow> fst ` set wcs \<subseteq> J \<Longrightarrow> undisturbed J s s'"
proof (induction wcs arbitrary: s)
  case Nil
  then show ?case by simp
next
  case (Cons wc wcs)
  then obtain s1 where s1: "handle_cqe H (fst wc) (fst (snd wc)) (snd (snd wc)) s = Inr s1" "poll_cq H wcs s1 = Inr s'"
    by (cases wc) (auto simp: res_bind_Inr_iff)
  have "undisturbed J s s1" using undisturbed_handle_cqe [OF Cons.prems(1) s1(1)] by (rule undisturbed_mono) (use Cons.prems(3) in simp)
  also have "undisturbed J s1 s'" using Cons s1 by (intro Cons.IH) (auto intro: inv_handle_cqe)
  finally show ?case .
qed

lemma undisturbed_sem_wait:
  "inv_server s \<Longrightarrow> sem_wait H x k wcs s = Inr (wcs', s') \<Longrightarrow> fst ` set wcs \<subseteq> J \<Longrightarrow> undisturbed J s s' \<and> set wcs' \<subseteq> set wcs"
proof (induction wcs arbitrary: s)
  case Nil
  then show ?case by (auto simp: res_bind_Inr_iff intro: undisturbed_upd_conn split: if_splits)
next
  case (Cons wc wcs)
  then obtain c where c: "get_conn s k = Inr c" by (auto simp: res_bind_Inr_iff)
  show ?case
  proof (cases "0 < sem_value x c")
    case True
    with Cons.prems c show ?thesis by (auto intro: undisturbed_upd_conn)
  next
    case False
    with Cons.prems c obtain s1 where s1: "handle_cqe H (fst wc) (fst (snd wc)) (snd (snd wc)) s = Inr s1"
        "sem_wait H x k wcs s1 = Inr (wcs', s')"
      by (auto simp: res_bind_Inr_iff)
    have "undisturbed J s s1" using undisturbed_handle_cqe [OF Cons.prems(1) s1(1)] by (rule undisturbed_mono) (use Cons.prems(3) in simp)
    moreover have "undisturbed J s1 s' \<and> set wcs' \<subseteq> set wcs"
      using Cons.prems s1 by (intro Cons.IH) (auto intro: inv_handle_cqe)
    ultimately show ?thesis by (auto intro: undisturbed_trans)
  qed
qed

lemma undisturbed_send_stop:
  assumes "inv_server s" and "send_stop H k n wcs s = Inr (wcs', s')" and "fst ` set wcs \<subseteq> J"
  shows "undisturbed J s s' \<and> set wcs' \<subseteq> set wcs"
proof -
  let ?u = "upd_send_msg k (\<lambda>m. m\<lparr>msg_type := server_message_type_code S_STOP, msg_size_gb := n\<rparr>) s"
  from assms(2) obtain s1 where 1: "send_message H k ?u = Inr s1"
      "(if n \<noteq> 0 then sem_wait H StopSem k wcs s1 else Inr (wcs, s1)) = Inr (wcs', s')"
    by (auto simp: send_stop_def res_bind_Inr_iff simp del: server_message_type_code.simps)
  have "inv_server ?u" using assms(1) by (intro inv_upd_send_msg) simp_all
  then have inv: "inv_server s1" using 1(1) by (rule inv_send_message)
  have "undisturbed J s ?u" by (rule undisturbed_upd_send_msg) simp
  also have "undisturbed J ?u s1" using 1(1) by (rule undisturbed_send_message)
  finally have "undisturbed J s s1" .
  with 1(2) undisturbed_sem_wait [OF inv _ assms(3)] show ?thesis by (auto split: if_splits intro: undisturbed_trans)
qed

lemma undisturbed_free_unmapped: "free_unmapped is f g s = (b, n, s') \<Longrightarrow> undisturbed J s s'"
proof (induction "is" arbitrary: f s)
  case Nil
  then show ?case by simp
next
  case (Cons i "is")
  let ?u = "upd_remote (\<lambda>r. r\<lparr>malloc_map := (malloc_map r)[i := CHUNK_EMPTY]\<rparr>)
      (s_call (FreeRegion (region_list (rdma_remote s) ! i)) s)"
  have "undisturbed J s ?u" by (rule undisturbed_same) simp_all
  moreover have "undisturbed J t (upd_remote (\<lambda>r. r\<lparr>size_gb := size_gb r - g\<rparr>) t)" for t by (rule undisturbed_upd_remote) simp_all
  ultimately show ?case using Cons by (auto simp: Let_def split: if_splits intro: undisturbed_trans)
qed

lemma undisturbed_send_evicts: "send_evicts H is sl j s = Inr s' \<Longrightarrow> undisturbed J s s'"
  by (induction "is" arbitrary: s) (auto simp: res_bind_Inr_iff split: if_splits dest!: undisturbed_send_simple(2) [where J = J] intro: undisturbed_trans)

lemma undisturbed_collect:
  "inv_server s \<Longrightarrow> collect H is sl n xs wcs s = Inr (ys, wcs', s') \<Longrightarrow> fst ` set wcs \<subseteq> J \<Longrightarrow>
     undisturbed J s s' \<and> set wcs' \<subseteq> set wcs"
proof (induction "is" arbitrary: n xs wcs s)
  case Nil
  then show ?case by simp
next
  case (Cons i "is")
  show ?case
  proof (cases "sl ! i = 1")
    case False
    with Cons show ?thesis by simp
  next
    case True
    with Cons.prems(2) obtain k wcs1 s1 n1 xs1 s2 where
        1: "sem_wait H EvictSem k wcs s = Inr (wcs1, s1)"
        and 2: "post_receives H k (upd_send_msg k (\<lambda>m. clear_rkeys (m\<lparr>msg_size_gb := 0\<rparr>)) s1) = Inr s2"
        and 3: "collect H is sl n1 xs1 wcs1 s2 = Inr (ys, wcs', s')"
      by (auto simp: res_bind_Inr_iff Let_def)
    let ?u = "upd_send_msg k (\<lambda>m. clear_rkeys (m\<lparr>msg_size_gb := 0\<rparr>)) s1"
    have w: "undisturbed J s s1" "set wcs1 \<subseteq> set wcs" using undisturbed_sem_wait [OF Cons.prems(1) 1 Cons.prems(3)] by simp_all
    have "inv_server s1" using Cons.prems(1) 1 by (rule inv_sem_wait)
    then have "inv_server ?u" by (intro inv_upd_send_msg) simp_all
    then have inv: "inv_server s2" using 2 by (rule inv_post_receives)
    note w(1)
    also have "undisturbed J s1 ?u" by (rule undisturbed_upd_send_msg) simp
    also have "undisturbed J ?u s2" using 2 by (rule undisturbed_post_receives)
    finally have "undisturbed J s s2" .
    moreover have "undisturbed J s2 s' \<and> set wcs' \<subseteq> set wcs1" using Cons.IH [OF inv 3] w(2) Cons.prems(3) by blast
    ultimately show ?thesis using w(2) by (blast intro: undisturbed_trans)
  qed
qed

lemma undisturbed_sort_and_mark: "sort_and_mark ns xs ci sl s = Inr (ys, ci', sl', s') \<Longrightarrow> undisturbed J s s'"
proof (induction ns arbitrary: xs ci sl s)
  case (Cons n ns)
  then obtain e ci1 sl1 s1 where m: "mark_chunk e sl s = Inr (ci1, sl1, s1)"
      and r: "sort_and_mark ns (select_min n xs) ci1 sl1 s1 = Inr (ys, ci', sl', s')"
    by (auto simp: res_bind_Inr_iff Let_def)
  from m have "undisturbed J s s1"
    by (auto simp: mark_chunk_def res_bind_Inr_iff wf_message_def intro!: undisturbed_upd_send_msg)
  with Cons.IH [OF r] show ?case by (blast intro: undisturbed_trans)
qed simp

lemma undisturbed_send_stops:
  "inv_server s \<Longrightarrow> send_stops H is sl ci wcs s = Inr (wcs', s') \<Longrightarrow> fst ` set wcs \<subseteq> J \<Longrightarrow>
     undisturbed J s s' \<and> set wcs' \<subseteq> set wcs"
proof (induction "is" arbitrary: wcs s)
  case Nil
  then show ?case by simp
next
  case (Cons i "is")
  show ?case
  proof (cases "sl ! i = 2 \<or> sl ! i = 1")
    case False
    with Cons show ?thesis by simp
  next
    case True
    with Cons.prems(2) obtain k n wcs1 s1 where 1: "send_stop H k n wcs s = Inr (wcs1, s1)"
        "send_stops H is sl ci wcs1 s1 = Inr (wcs', s')"
      by (auto simp: res_bind_Inr_iff)
    note k = undisturbed_send_stop [OF Cons.prems(1) 1(1) Cons.prems(3)]
    have "undisturbed J s1 s' \<and> set wcs' \<subseteq> set wcs1"
      using Cons.IH [OF inv_send_stop [OF Cons.prems(1) 1(1)] 1(2)] k Cons.prems(3) by blast
    with k show ?thesis by (blast intro: undisturbed_trans)
  qed
qed

lemma undisturbed_evict_mapped:
  assumes "inv_server s" and "evict_mapped H g wcs s = Inr (wcs', s')" and J: "fst ` set wcs \<subseteq> J"
  shows "undisturbed J s s' \<and> set wcs' \<subseteq> set wcs"
proof -
  from assms(2) obtain sl j k s1 xs wcs1 s2 ys ci sl' s3 where
      1: "send_evicts H [0..<MAX_CLIENT] sl j s = Inr s1" and
      2: "collect H [0..<MAX_CLIENT] sl 0 (replicate (nat k) (of_int (h_undef H), h_undef H)) wcs s1 = Inr (xs, wcs1, s2)" and
      3: "sort_and_mark [0..<nat j] xs (h_undef H) sl s2 = Inr (ys, ci, sl', s3)" and
      4: "send_stops H [0..<MAX_CLIENT] sl' ci wcs1 s3 = Inr (wcs', s')"
    unfolding evict_mapped_def by (clarsimp simp: res_bind_Inr_iff)
  have s1: "inv_server s1" by (rule inv_send_evicts [OF assms(1) 1])
  have s2: "inv_server s2" by (rule inv_collect [OF s1 2])
  have s3: "inv_server s3" by (rule inv_sort_and_mark [OF s2 3])
  have c: "undisturbed J s1 s2" "set wcs1 \<subseteq> set wcs" using undisturbed_collect [OF s1 2 J] by simp_all
  with J have "fst ` set wcs1 \<subseteq> J" by blast
  then have e: "undisturbed J s3 s' \<and> set wcs' \<subseteq> set wcs1" by (rule undisturbed_send_stops [OF s3 4])
  note undisturbed_send_evicts [OF 1]
  also note c(1)
  also note undisturbed_sort_and_mark [OF 3]
  also note conjunct1 [OF e]
  finally show ?thesis using e c(2) by blast
qed

lemma undisturbed_evict_mem:
  assumes inv: "inv_server s" and res: "evict_mem H g wcs s = Inr (wcs', s')" and J: "fst ` set wcs \<subseteq> J"
  shows "undisturbed J s s' \<and> set wcs' \<subseteq> set wcs"
proof -
  obtain b f s1 where f: "free_unmapped [0..<32] 0 g s = (b, f, s1)" by (metis prod_cases3)
  have s1: "inv_server s1" using inv_free_unmapped [OF inv _ f] by simp
  have k: "undisturbed J s s1" by (rule undisturbed_free_unmapped [OF f])
  show ?thesis
  proof (cases b)
    case True
    with res f k show ?thesis by (simp add: evict_mem_def del: upt_rec_numeral)
  next
    case False
    let ?u = "upd_remote (\<lambda>r. r\<lparr>size_gb := size_gb r - f\<rparr>) s1"
    from False res f have "evict_mapped H (g - f) wcs ?u = Inr (wcs', s')"
      by (simp add: evict_mem_def del: upt_rec_numeral)
    from undisturbed_evict_mapped [OF inv_sizes [OF s1] this J] have e: "undisturbed J ?u s' \<and> set wcs' \<subseteq> set wcs" .
    note k
    also have "undisturbed J s1 ?u" by (rule undisturbed_upd_remote) simp_all
    also note conjunct1 [OF e]
    finally show ?thesis using e by blast
  qed
qed

text \<open>Expansion allocates chunks that are empty, which nobody owns.\<close>

lemma undisturbed_alloc_chunk:
  assumes inv: "inv_server s" and e: "malloc_map (rdma_remote s) ! i = CHUNK_EMPTY" "i < 32"
  shows "undisturbed J s (alloc_chunk H i s)"
proof (rule undisturbedI)
  fix k c i' assume c: "get_conn s k = Inr c" "i' < 32" "owns c i'"
  have "i' \<noteq> i"
    using inv e c unfolding inv_server_def wf_remote_def conn_ok_def owns_def CHUNK_EMPTY_def CHUNK_MALLOCED_def by force
  with c show "(\<exists>c'. get_conn (alloc_chunk H i s) k = Inr c' \<and> owns c' i') \<and>
      region_list (rdma_remote (alloc_chunk H i s)) ! i' = region_list (rdma_remote s) ! i' \<and>
      mr_list (rdma_remote (alloc_chunk H i s)) ! i' = mr_list (rdma_remote s) ! i'"
    by (simp add: alloc_chunk_def)
qed (simp add: alloc_chunk_def)

lemma undisturbed_expand_chunks:
  "inv_server s \<Longrightarrow> \<forall>i \<in> set is. i < 32 \<Longrightarrow> undisturbed J s (expand_chunks H is j n s)"
proof (induction "is" arbitrary: j s)
  case Nil
  then show ?case by simp
next
  case (Cons i "is")
  show ?case
  proof (cases "malloc_map (rdma_remote s) ! i = CHUNK_EMPTY")
    case False
    with Cons show ?thesis by simp
  next
    case True
    have "inv_server (alloc_chunk H i s)"
      unfolding alloc_chunk_def using Cons.prems by (intro inv_malloc_map) simp_all
    moreover have "undisturbed J s (alloc_chunk H i s)" using Cons.prems True by (intro undisturbed_alloc_chunk) simp_all
    ultimately show ?thesis using Cons True by (auto simp: Let_def intro: undisturbed_trans)
  qed
qed

lemma undisturbed_expand_mem: "inv_server s \<Longrightarrow> undisturbed J s (expand_mem H g s)"
  unfolding expand_mem_def Let_def
  by (rule undisturbed_trans [OF undisturbed_expand_chunks undisturbed_upd_remote]) simp_all

lemma undisturbed_free_mem_round:
  assumes "inv_server s" and "free_mem_round H line wcs f s = Inr (f', wcs', s')" and "fst ` set wcs \<subseteq> J"
  shows "undisturbed J s s' \<and> set wcs' \<subseteq> set wcs"
proof -
  from assms(2) have "s' = s \<and> wcs' = wcs \<or> (\<exists>g. s' = expand_mem H g s \<and> wcs' = wcs) \<or> (\<exists>g. evict_mem H g wcs s = Inr (wcs', s'))"
    by (auto simp: free_mem_round_def Let_def res_bind_Inr_iff split: if_splits)
  then show ?thesis using undisturbed_expand_mem [OF assms(1)] undisturbed_evict_mem [OF assms(1) _ assms(3)] by (elim disjE exE) simp_all
qed

section \<open>Connections\<close>

text \<open>A new connection holds nothing, and neither did its number before.\<close>

lemma undisturbed_new_connection: "undisturbed J s (s\<lparr>conn_heap := conn_heap s @ [Some (new_connection H)]\<rparr>)"
proof (rule undisturbedI)
  fix k c i assume "get_conn (s\<lparr>conn_heap := conn_heap s @ [Some (new_connection H)]\<rparr>) k = Inr c" "i < 32" "owns c i"
  then show "\<exists>c'. get_conn s k = Inr c' \<and> owns c' i"
    by (auto simp: get_conn_append owns_def new_connection_def atomic_set_def split: if_splits)
next
  fix k c i assume "get_conn s k = Inr c" "i < 32" "owns c i"
  moreover from this have "k \<noteq> length (conn_heap s)" using get_conn_index by blast
  ultimately show "(\<exists>c'. get_conn (s\<lparr>conn_heap := conn_heap s @ [Some (new_connection H)]\<rparr>) k = Inr c' \<and> owns c' i) \<and>
     region_list (rdma_remote (s\<lparr>conn_heap := conn_heap s @ [Some (new_connection H)]\<rparr>)) ! i = region_list (rdma_remote s) ! i \<and>
     mr_list (rdma_remote (s\<lparr>conn_heap := conn_heap s @ [Some (new_connection H)]\<rparr>)) ! i = mr_list (rdma_remote s) ! i"
    by (simp add: get_conn_append)
qed

lemma undisturbed_same_owns:
  assumes "\<And>c i. owns (f c) i = owns c i"
  shows "undisturbed J s (upd_conn k f s)"
  by (rule undisturbedI) (use assms in \<open>auto simp: get_conn_upd_conn split: if_splits sum.splits\<close>)

lemma undisturbed_add_to_session: "undisturbed J s (add_to_session k s)"
proof (cases "find (\<lambda>i. conns_state s ! i = CONN_IDLE) [0..<MAX_CLIENT]")
  case None
  then show ?thesis by (simp add: add_to_session_def)
next
  case (Some i)
  let ?u = "s\<lparr>conns := (conns s)[i := Some k], conns_state := (conns_state s)[i := CONN_CONNECTED]\<rparr>"
  have "undisturbed J s ?u" by (rule undisturbed_same) simp_all
  also have "undisturbed J ?u (upd_conn k (\<lambda>c. c\<lparr>conn_index := int i\<rparr>) ?u)" by (rule undisturbed_same_owns) (simp add: owns_def)
  finally show ?thesis by (simp add: add_to_session_def Some)
qed

lemma undisturbed_build_connection:
  assumes res: "build_connection H verbs s = Inr s'"
  shows "undisturbed J s s'"
proof -
  let ?k = "length (conn_heap s)"
  let ?add = "\<lambda>u. add_to_session ?k (u\<lparr>conn_heap := conn_heap u @ [Some (new_connection H)]\<rparr>)"
  from res obtain s1 s3 where s1: "build_context H verbs s = Inr s1"
      and s3: "register_memory H ?k ((?add (s_call (CreateQp ?k build_qp_attr) s1))
          \<lparr>conn_num := conn_num (?add (s_call (CreateQp ?k build_qp_attr) s1)) + 1\<rparr>) = Inr s3"
      and s': "post_receives H ?k s3 = Inr s'"
    by (auto simp: build_connection_def Let_def res_bind_Inr_iff dest!: test_inv)
  let ?u = "s_call (CreateQp ?k build_qp_attr) s1"
  let ?v = "?u\<lparr>conn_heap := conn_heap ?u @ [Some (new_connection H)]\<rparr>"
  let ?w = "(add_to_session ?k ?v)\<lparr>conn_num := conn_num (add_to_session ?k ?v) + 1\<rparr>"
  have "undisturbed J s s1"
    using s1 by (intro undisturbed_same) (auto simp: build_context_def res_bind_Inr_iff die_def dest!: test_inv split: option.splits if_splits)
  also have "undisturbed J s1 ?u" by simp
  also have "undisturbed J ?u ?v" by (rule undisturbed_new_connection)
  also have "undisturbed J ?v (add_to_session ?k ?v)" by (rule undisturbed_add_to_session)
  also have "undisturbed J (add_to_session ?k ?v) ?w" by (rule undisturbed_same) simp_all
  also have "undisturbed J ?w (upd_conn ?k (\<lambda>c. c\<lparr>send_msg := h_raw_message H, recv_msg := h_raw_message H\<rparr>) ?w)"
    by (rule undisturbed_same_owns) (simp add: owns_def)
  also have "undisturbed J (upd_conn ?k (\<lambda>c. c\<lparr>send_msg := h_raw_message H, recv_msg := h_raw_message H\<rparr>) ?w) s3"
    using s3 by (intro undisturbed_same) (auto simp: register_memory_def Let_def res_bind_Inr_iff dest!: test_inv)
  also note undisturbed_post_receives [OF s']
  finally show ?thesis .
qed

lemma undisturbed_destroy_connection:
  assumes "destroy_connection k s = Inr s'"
  shows "undisturbed {k} s s'"
proof -
  obtain c :: connection and s1 where s1: "(if 0 < mapped_chunk_size c
      then res_bind (unmap_chunks (take 32 (sess_chunk_map c)) (rdma_remote s)) (\<lambda>r.
             Inr ((s_call (DeregMsgMr k) (s_call (DeregMsgMr k) (s_call (DestroyQp k) s)))
               \<lparr>rdma_remote := r\<lparr>mapped_size := mapped_size r - mapped_chunk_size c\<rparr>\<rparr>))
      else Inr (s_call (DeregMsgMr k) (s_call (DeregMsgMr k) (s_call (DestroyQp k) s)))) = Inr s1"
    and h: "conn_heap s' = (conn_heap s1)[k := None]" "rdma_remote s' = rdma_remote s1"
    by (rule destroy_connection_cases [OF assms]) (erule (2) that)
  from s1 have r: "region_list (rdma_remote s1) = region_list (rdma_remote s)" "mr_list (rdma_remote s1) = mr_list (rdma_remote s)"
      "conn_heap s1 = conn_heap s"
    by (auto simp: res_bind_Inr_iff split: if_splits dest: unmap_chunks_eq)
  have g: "get_conn s' j = get_conn s j" if "j \<noteq> k" for j using h r that by (simp add: get_conn_def array_get_def)
  show ?thesis by (rule undisturbedI) (use g h r in auto)
qed

section \<open>The server isolates its clients\<close>

text \<open>The connections an event acts for.\<close>

fun event_actors :: "server_event \<Rightarrow> nat set" where
  "event_actors (CmEvent (Disconnected k)) = {k}"
| "event_actors (CmEvent _) = {}"
| "event_actors (Completion k _ _) = {k}"
| "event_actors (Round _ wcs) = fst ` set wcs"

definition machine_held :: "nat \<Rightarrow> holding \<Rightarrow> server_machine_state \<Rightarrow> bool" where
  "machine_held k x st = chunk_held k x (snd (snd st))"

lemma undisturbed_on_cm_event:
  assumes "on_cm_event H e s = Inr (r, s')"
  shows "undisturbed (event_actors (CmEvent e)) s s'"
proof (cases e)
  case (ConnectRequest verbs)
  with assms obtain s1 where "build_connection H verbs s = Inr s1" "s' = s_call (Accept (length (conn_heap s)) build_params) s1"
    by (auto simp: on_cm_event_def on_connect_request_def Let_def res_bind_Inr_iff dest!: test_inv)
  with undisturbed_trans [OF undisturbed_build_connection undisturbed_s_call] show ?thesis by blast
next
  case (Established k)
  with assms have "send_free_mem_size H k (upd_conn k (\<lambda>c. c\<lparr>connected := 1\<rparr>) s) = Inr s'"
    by (auto simp: on_cm_event_def rdma_connected_def on_connect_def res_bind_Inr_iff)
  from undisturbed_trans [OF undisturbed_same_owns undisturbed_send_simple(1) [OF this]] show ?thesis by (simp add: owns_def)
next
  case (Disconnected k)
  with assms show ?thesis
    by (auto simp: on_cm_event_def on_disconnect_def res_bind_Inr_iff intro: undisturbed_destroy_connection)
next
  case OtherCmEvent
  with assms show ?thesis by (simp add: on_cm_event_def die_def)
qed

lemma undisturbed_server_step:
  assumes inv: "inv_server s" and res: "server_step e (H, f, s) = Inr (H', f', s')"
  shows "undisturbed (event_actors e) s s'"
proof (cases e)
  case (CmEvent x)
  with res undisturbed_on_cm_event show ?thesis by (auto simp: res_bind_Inr_iff)
next
  case (Completion k status msg)
  with res undisturbed_handle_cqe [OF inv] show ?thesis by (auto simp: res_bind_Inr_iff)
next
  case (Round line wcs)
  show ?thesis
  proof (cases "running s = 0")
    case True
    with Round res show ?thesis by simp
  next
    case False
    with Round res obtain f1 wcs1 s1 where 1: "free_mem_round H line wcs f s = Inr (f1, wcs1, s1)" "poll_cq H wcs1 s1 = Inr s'"
      by (auto simp: res_bind_Inr_iff)
    have k: "undisturbed (event_actors e) s s1 \<and> set wcs1 \<subseteq> set wcs" by (rule undisturbed_free_mem_round [OF inv 1(1)]) (simp add: Round)
    have "undisturbed (event_actors e) s1 s'"
      by (rule undisturbed_poll_cq [OF inv_free_mem_round [OF inv 1(1)] 1(2)]) (use k Round in auto)
    with k show ?thesis by (blast intro: undisturbed_trans)
  qed
qed

interpretation isolated_server: isolated_machine server_started server_step server_inv event_actors machine_held
proof unfold_locales
  fix st e st' k and x :: holding
  assume inv: "server_inv st" and res: "server_step e st = Inr st'" and k: "k \<notin> event_actors e"
  obtain H f s H' f' s' where st: "st = (H, f, s)" "st' = (H', f', s')" by (metis prod_cases3)
  have "undisturbed (event_actors e) s s'" using inv res by (intro undisturbed_server_step) (simp_all add: server_inv_def st)
  with k show "machine_held k x st' = machine_held k x st" unfolding undisturbed_def machine_held_def st snd_conv by blast
qed

text \<open>
  C3. Clients of the memory server are isolated from each other. Take any state the server
  reaches and let it serve further events, of which none is a completion or the disconnection of
  client \<open>k\<close>: requests and stops of others, new connections, rounds of the adaptation with eviction and
  expansion. Then \<open>k\<close> holds exactly the chunks it held, each at the same address and with the same
  registration, so that everything its table says about remote memory is still true.
\<close>

theorem clients_are_isolated:
  assumes "server_started (H, f0, s0)" and "server_machine.run es (H, f0, s0) = Inr (H1, f1, s1)"
    and "server_machine.run fs (H1, f1, s1) = Inr (H2, f2, s2)" and "\<forall>e \<in> set fs. k \<notin> event_actors e"
  shows "chunk_held k (i, region, mr) s2 = chunk_held k (i, region, mr) s1"
  using isolated_server.held_until_acts [OF assms, of "(i, region, mr)"] by (simp add: machine_held_def)

text \<open>A second client connects while the first holds chunk 0.\<close>

lemma connect_returns:
  assumes "host_works H"
  shows "\<exists>v s'. on_cm_event H (ConnectRequest v) s = Inr (0, s')"
proof -
  define v where "v = (case s_ctx s of None \<Rightarrow> 1 | Some v \<Rightarrow> v)"
  have get: "get_conn (add_to_session (length (conn_heap t)) (t\<lparr>conn_heap := conn_heap t @ [Some c]\<rparr>)) (length (conn_heap t)) \<noteq> Inl e" for t c e
    by (simp add: add_to_session_def get_conn_upd_conn get_conn_append split: option.splits)
  obtain s1 where s1: "build_context H v s = Inr s1" "conn_heap s1 = conn_heap s"
    using assms by (cases "s_ctx s") (simp_all add: build_context_def test_succeeds v_def)
  then have "on_cm_event H (ConnectRequest v) s \<noteq> Inl e" for e
    using assms get [of "s_call (CreateQp (length (conn_heap s)) build_qp_attr) s1" "new_connection H"]
    by (auto simp: on_cm_event_def on_connect_request_def build_connection_def register_memory_def post_receives_def
        test_succeeds get_conn_upd_conn Let_def split: sum.splits)
  then show ?thesis
    by (cases "on_cm_event H (ConnectRequest v) s") (auto simp: on_cm_event_def on_connect_request_def Let_def res_bind_Inr_iff)
qed

theorem clients_are_isolated_witness:
  "\<exists>v f1 s1 f2 s2 region mr. server_machine.run [CmEvent (ConnectRequest 1), CmEvent (Established 0), Completion 0 0 (Some demo_request)]
       (demo_host, demo_fm, demo_started) = Inr (demo_host, f1, s1) \<and>
     server_machine.run [CmEvent (ConnectRequest v)] (demo_host, f1, s1) = Inr (demo_host, f2, s2) \<and>
     chunk_held 0 (0, region, mr) s1 \<and> chunk_held 0 (0, region, mr) s2"
proof -
  obtain f1 s1 and c :: connection where run: "server_machine.run [CmEvent (ConnectRequest 1), CmEvent (Established 0), Completion 0 0 (Some demo_request)]
       (demo_host, demo_fm, demo_started) = Inr (demo_host, f1, s1)" and c: "get_conn s1 0 = Inr c" "owns c 0"
    using demo_run by metis
  obtain v s2 where "on_cm_event demo_host (ConnectRequest v) s1 = Inr (0, s2)" using connect_returns [OF demo_host_works] by blast
  then have r2: "server_machine.run [CmEvent (ConnectRequest v)] (demo_host, f1, s1) = Inr (demo_host, f1, s2)" by simp
  let ?r = "region_list (rdma_remote s1) ! 0" and ?m = "mr_list (rdma_remote s1) ! 0"
  have "chunk_held 0 (0, ?r, ?m) s1" using c by (simp add: chunk_held_def)
  moreover from this have "chunk_held 0 (0, ?r, ?m) s2" using clients_are_isolated [OF demo_started run r2, of 0 0 ?r ?m] by simp
  ultimately show ?thesis using run r2 by blast
qed

end
