(* ===== verification/Early_Client.thy ===== *)
theory Early_Client
  imports Client_Connection Log2
begin

text \<open>
  The first version of the client (\<^verbatim>\<open>src/IB-test-case/Kernel_Level_RDMA_connection/client\<close>), which only
  connects, asks for eight chunks and binds them. Its structures, its connection manager and its queue
  pair are those of the later client, whose definitions are used for them; the handlers, the table,
  the handshake and the release are its own.
\<close>

section \<open>Handlers and messages\<close>

text \<open>The result is the C return value, which is left uninitialised on most branches.\<close>

definition early_cm_event_handler :: "kernel \<Rightarrow> rdma_cm_event_type \<Rightarrow> client \<Rightarrow> int \<times> client" where
  "early_cm_event_handler K e w =
     (case e of
        RDMA_CM_EVENT_ADDR_RESOLVED \<Rightarrow> call K RdmaResolveRoute (set_state ADDR_RESOLVED w)
      | RDMA_CM_EVENT_ROUTE_RESOLVED \<Rightarrow> (k_undef K, wake_up_interruptible (set_state ROUTE_RESOLVED w))
      | RDMA_CM_EVENT_CONNECT_REQUEST \<Rightarrow> (k_undef K, set_state CONNECT_REQUEST w)
      | RDMA_CM_EVENT_ESTABLISHED \<Rightarrow> (k_undef K, wake_up_interruptible (set_state CONNECTED w))
      | RDMA_CM_EVENT_ADDR_ERROR \<Rightarrow> (k_undef K, wake_up_interruptible (set_state ERROR w))
      | RDMA_CM_EVENT_ROUTE_ERROR \<Rightarrow> (k_undef K, wake_up_interruptible (set_state ERROR w))
      | RDMA_CM_EVENT_CONNECT_ERROR \<Rightarrow> (k_undef K, wake_up_interruptible (set_state ERROR w))
      | RDMA_CM_EVENT_UNREACHABLE \<Rightarrow> (k_undef K, wake_up_interruptible (set_state ERROR w))
      | RDMA_CM_EVENT_REJECTED \<Rightarrow> (k_undef K, wake_up_interruptible (set_state ERROR w))
      | RDMA_CM_EVENT_DISCONNECTED \<Rightarrow> (k_undef K, wake_up_interruptible (set_state CM_DISCONNECT w))
      | RDMA_CM_EVENT_DEVICE_REMOVAL \<Rightarrow> (- 1, w)
      | _ \<Rightarrow> (k_undef K, wake_up_interruptible w))"

definition early_CHUNK_INDEX_OFSSET :: u64 where
  "early_CHUNK_INDEX_OFSSET = 30 + power_of_2 1"

text \<open>The table is built as in the later client, but the return value is not set.\<close>

definition early_init_remote_chunk_list :: "kernel \<Rightarrow> client \<Rightarrow> (int \<times> client) res" where
  "early_init_remote_chunk_list K w = res_bind (init_remote_chunk_list K w) (\<lambda>(_, w). Inr (k_undef K, w))"

text \<open>One round of the loop binds first and looks at the size of the table afterwards.\<close>

fun early_bind_loop :: "message option \<Rightarrow> nat list \<Rightarrow> remote_mapping_chunk_list \<Rightarrow> remote_mapping_chunk_list res" where
  "early_bind_loop m [] l = Inr l"
| "early_bind_loop m (i # is) l =
     res_bind (deref m) (\<lambda>msg.
     res_bind (if msg_rkey msg ! i \<noteq> 0
               then res_bind (deref (remote_chunk l)) (\<lambda>cs.
                    res_bind (array_get cs (unat (chunk_ptr l))) (\<lambda>_.
                      Inr (l\<lparr>remote_chunk := Some (cs[unat (chunk_ptr l) :=
                          \<lparr>remote_rkey = ntohl (msg_rkey msg ! i), remote_addr = ntohll (msg_buf msg ! i), chunk_state = MAPPED\<rparr>]),
                        chunk_ptr := chunk_ptr l + 1\<rparr>)))
               else Inr l) (\<lambda>l.
       if chunk_num l \<le> chunk_ptr l then Inr l else early_bind_loop m is l))"

definition early_bind_remote_memory_chunks :: "client \<Rightarrow> client res" where
  "early_bind_remote_memory_chunks w =
     res_bind (early_bind_loop (recv_buf (session w)) [0..<MAX_CHUNKS] (remote_chunk_list (session w)))
       (\<lambda>l. Inr (upd_session (\<lambda>s. s\<lparr>remote_chunk_list := l\<rparr>) w))"

definition early_send_message_to_remote :: "kernel \<Rightarrow> int \<Rightarrow> int \<Rightarrow> client \<Rightarrow> (int \<times> client) res" where
  "early_send_message_to_remote K messge_type size_gb w =
     res_bind (deref (send_buf (session w))) (\<lambda>m.
       let m = m\<lparr>msg_type := messge_type, msg_size_gb := size_gb\<rparr>;
           w = upd_session (\<lambda>s. s\<lparr>send_buf := Some m\<rparr>) w
       in res_bind (deref_kptr (qp (session w))) (\<lambda>_. Inr (call K (IbPostSend m) w)))"

definition early_handle_recv_wr :: "kernel \<Rightarrow> ib_wc \<Rightarrow> client \<Rightarrow> (int \<times> client) res" where
  "early_handle_recv_wr K wc w =
     (if wc_byte_len wc \<noteq> sizeof_message then Inr (- 1, w)
      else if state (session w) < CONNECTED then Inr (- 1, w)
      else res_bind (deref (recv_buf (session w))) (\<lambda>m.
        if msg_type m = message_type_code FREE_SIZE
        then let w = upd_session (\<lambda>s. s\<lparr>remote_chunk_list :=
                   (remote_chunk_list s)\<lparr>remote_free_size_gb := word_of_int (msg_size_gb m)\<rparr>,
                   state := FREE_MEM_RECV\<rparr>) w
             in res_bind (early_init_remote_chunk_list K w) (\<lambda>(_, w). Inr (0, wake_up_interruptible w))
        else if msg_type m = message_type_code GOT_CHUNKS
        then res_bind (early_bind_remote_memory_chunks w) (\<lambda>w. Inr (0, wake_up_interruptible (set_state TEST_DONE w)))
        else if msg_type m = message_type_code GOT_SINGLE_CHUNK
        then Inr (0, wake_up_interruptible (set_state TEST_DONE w))
        else if msg_type m = message_type_code EVICT then Inr (0, set_state RECV_EVICT w)
        else if msg_type m = message_type_code STOP then Inr (0, set_state RECV_STOP w)
        else Inr (- 1, w)))"

definition early_requset_for_chunk :: "kernel \<Rightarrow> int \<Rightarrow> client \<Rightarrow> (int \<times> client) res" where
  "early_requset_for_chunk K num_chunk w =
     (if num_chunk = 0 then Inr (0, w)
      else res_bind (deref_kptr (qp (session w))) (\<lambda>_.
        let (ret, w) = call K IbPostRecv w
        in if ret \<noteq> 0 then Inr (ret, w)
           else early_send_message_to_remote K
                  (message_type_code (if num_chunk = 1 then REQUEST_SINGLE_CHUNK else REQUEST_CHUNKS))
                  (num_chunk * uint CHUNK_SIZE_GB) w))"

text \<open>
  The handler of the completion queue polls one completion, the first of those present, and arms
  the queue for the next.
\<close>

definition early_handle_wc :: "kernel \<Rightarrow> ib_wc \<Rightarrow> client \<Rightarrow> (bool \<times> client) res" where
  "early_handle_wc K wc w =
     (if wc_status wc \<noteq> 0 then Inr (False, w)
      else case wc_opcode wc of
          IB_WC_RECV \<Rightarrow> res_bind (early_handle_recv_wr K wc (deliver wc w)) (\<lambda>(ret, w). Inr (ret = 0, w))
        | IB_WC_OTHER _ \<Rightarrow> Inr (False, w)
        | _ \<Rightarrow> Inr (True, w))"

definition early_cq_event_handler :: "kernel \<Rightarrow> int \<Rightarrow> ib_wc list \<Rightarrow> client \<Rightarrow> client res" where
  "early_cq_event_handler K c wcs w =
     (if cq (session w) \<noteq> c then Inl BugOn
      else if state (session w) = ERROR then Inr w
      else case wcs of
          [] \<Rightarrow> Inr (set_state ERROR w)
        | wc # _ \<Rightarrow> res_bind (early_handle_wc K wc w) (\<lambda>(ok, w).
            if \<not> ok then Inr (set_state ERROR w)
            else let (ret, w) = call K IbReqNotifyCq w
                 in if ret \<noteq> 0 then Inr (set_state ERROR w) else Inr w))"

definition early_handler :: "kernel \<Rightarrow> handler" where
  "early_handler K e evs w =
     (case e of
        CmEvent c \<Rightarrow> Inr (evs, snd (early_cm_event_handler K c w))
      | CqEvent c wcs \<Rightarrow> res_bind (early_cq_event_handler K c wcs w) (\<lambda>w. Inr (evs, w))
      | Signal \<Rightarrow> Inr (evs, w))"

section \<open>Connection\<close>

definition early_resolve_ip_to_ib_device :: "kernel \<Rightarrow> event list \<Rightarrow> client \<Rightarrow> (int \<times> event list \<times> client) res" where
  "early_resolve_ip_to_ib_device K evs w =
     (let (ret, w) = call K RdmaResolveAddr w
      in if ret \<noteq> 0 then Inr (ret, evs, w)
         else res_bind (wait_event_interruptible (early_handler K) (\<lambda>w. ROUTE_RESOLVED \<le> state (session w)) evs w)
                (\<lambda>(evs, w). if state (session w) \<noteq> ROUTE_RESOLVED then Inr (- EINTR, evs, w) else Inr (ret, evs, w)))"

text \<open>The session's own key is zero, so that the key of the DMA region is used for both buffers.\<close>

definition early_setup_message_wr :: "kernel \<Rightarrow> client \<Rightarrow> client res" where
  "early_setup_message_wr K w =
     res_bind (if mem (session w) = DMA then res_bind (deref_kptr (dma_mr (session w))) (\<lambda>_. Inr (k_mr_lkey K (dma_mr (session w))))
               else Inr 0) (\<lambda>k.
     Inr (upd_session (\<lambda>s. s\<lparr>
         recv_sgl := \<lparr>sge_addr = recv_dma_addr s, sge_length = sizeof_message, sge_lkey = k\<rparr>,
         rq_wr := (rq_wr s)\<lparr>wr_sg_list := SG_RECV, wr_num_sge := 1\<rparr>,
         send_sgl := \<lparr>sge_addr = send_dma_addr s, sge_length = sizeof_message, sge_lkey = k\<rparr>,
         sq_wr := (sq_wr s)\<lparr>wr_opcode := IB_WR_SEND, wr_signaled := True, wr_sg_list := SG_SEND, wr_num_sge := 1\<rparr>\<rparr>) w))"

definition early_setup_buffers :: "kernel \<Rightarrow> client \<Rightarrow> (int \<times> client) res" where
  "early_setup_buffers K w =
     (let (r, w) = call K (Kzalloc RecvBuf) w;
          (s, w) = call K (Kzalloc SendBuf) w;
          w = upd_session (\<lambda>c. c\<lparr>recv_buf := (if r = 0 then None else Some zero_message),
                send_buf := (if s = 0 then None else Some zero_message), mem := DMA\<rparr>) w
      in res_bind (deref_kptr (pd (session w))) (\<lambda>_.
           let (ra, w) = call K (IbDmaMapSingle RecvBuf) w;
               (sa, w) = call K (IbDmaMapSingle SendBuf) w;
               (mr, w) = call K GetDmaMr w;
               w = upd_session (\<lambda>c. c\<lparr>recv_dma_addr := word_of_int ra, send_dma_addr := word_of_int sa,
                     dma_mr := mr\<rparr>) w
           in if IS_ERR mr then Inr (mr, w)
              else res_bind (early_setup_message_wr K w) (\<lambda>w. Inr (k_undef K, w))))"

definition early_connect_remote_memory_server :: "kernel \<Rightarrow> event list \<Rightarrow> client \<Rightarrow> (int \<times> event list \<times> client) res" where
  "early_connect_remote_memory_server K evs w =
     (let (ret, w) = call K RdmaConnect w
      in if ret \<noteq> 0 then Inr (ret, evs, w)
         else res_bind (wait_event_interruptible (early_handler K) (\<lambda>w. CONNECTED \<le> state (session w)) evs w)
                (\<lambda>(evs, w). Inr (ret, evs, w)))"

text \<open>The session is allocated, all zero, and its fields are set.\<close>

definition early_connect_init :: "kernel \<Rightarrow> client \<Rightarrow> client res" where
  "early_connect_init K w =
     (let (a, w) = call K (Kzalloc SessionObj) w
      in if a = 0 then Inl NullDeref
         else let (p, w) = call K RdmaCreateId (w\<lparr>session := rdma_session_global\<rparr>);
                  (n, w) = call K NumOnlineCpus w;
                  (r, w) = call K (In4Pton ''10.0.0.2'') w
              in Inr (upd_session (\<lambda>s. s\<lparr>cm_id := p, state := IDLE, txdepth := RDMA_READ_WRITE_QUEUE_DEPTH * n + 1,
                   port := htons 9400, addr := (if r = 0 then addr s else k_in4_addr K), addr_type := AF_INET\<rparr>) w))"

text \<open>The results of the set-up, of the first receive and of the connection are only printed or not looked at.\<close>

definition early_negotiate :: "kernel \<Rightarrow> event list \<Rightarrow> client \<Rightarrow> (int \<times> event list \<times> client) res" where
  "early_negotiate K evs w =
     res_bind (deref_kptr (qp (session w))) (\<lambda>_.
     res_bind (early_connect_remote_memory_server K evs (snd (call K IbPostRecv w))) (\<lambda>(_, evs, w).
       let (ret, w) = call K IbReqNotifyCq w
       in if ret \<noteq> 0 then Inr (ret, evs, w)
          else res_bind (wait_event_interruptible (early_handler K) (\<lambda>w. state (session w) = FREE_MEM_RECV) evs w) (\<lambda>(evs, w).
               res_bind (early_requset_for_chunk K 8 w) (\<lambda>(ret, w).
                 if ret \<noteq> 0 then Inr (ret, evs, w)
                 else res_bind (wait_event_interruptible (early_handler K) (\<lambda>w. state (session w) = TEST_DONE) evs w)
                        (\<lambda>(evs, w). Inr (ret, evs, w))))))"

definition early_RDMA_connect :: "kernel \<Rightarrow> event list \<Rightarrow> client \<Rightarrow> (int \<times> event list \<times> client) res" where
  "early_RDMA_connect K evs w =
     res_bind (early_connect_init K w) (\<lambda>w.
     res_bind (early_resolve_ip_to_ib_device K evs w) (\<lambda>(ret, evs, w).
       if ret \<noteq> 0 then Inr (ret, evs, w)
       else res_bind (octopus_create_rdma_queues K w) (\<lambda>(_, w).
            res_bind (early_setup_buffers K w) (\<lambda>(_, w).
            early_negotiate K evs w))))"

section \<open>Release and the module\<close>

definition early_free_buffers :: "client \<Rightarrow> client" where
  "early_free_buffers w =
     (let w = (if recv_buf (session w) \<noteq> None then call_void (Kfree RecvBuf) w else w);
          w = (if send_buf (session w) \<noteq> None then call_void (Kfree SendBuf) w else w)
      in if remote_chunk (remote_chunk_list (session w)) \<noteq> None then call_void (Kfree ChunkArray) w else w)"

definition early_disconenct_and_collect_resource :: "kernel \<Rightarrow> event list \<Rightarrow> client \<Rightarrow> (int \<times> event list \<times> client) res" where
  "early_disconenct_and_collect_resource K evs w =
     res_bind
       (if state (session w) \<noteq> CM_DISCONNECT
        then let (ret, w) = call K RdmaDisconnect w
             in res_bind (wait_event_interruptible (early_handler K) (\<lambda>w. state (session w) = CM_DISCONNECT) evs w)
                  (\<lambda>(evs, w). Inr (ret, evs, w))
        else Inr (k_undef K, evs, w))
       (\<lambda>(ret, evs, w). Inr (ret, evs, call_void (Kfree SessionObj) (octopus_free_rdma_structure (early_free_buffers w))))"

definition early_init_module :: "kernel \<Rightarrow> event list \<Rightarrow> client \<Rightarrow> (int \<times> event list \<times> client) res" where
  "early_init_module K evs w = res_bind (early_RDMA_connect K evs w) (\<lambda>(_, evs, w). Inr (0, evs, w))"

definition early_cleanup_module :: "kernel \<Rightarrow> event list \<Rightarrow> client \<Rightarrow> (event list \<times> client) res" where
  "early_cleanup_module K evs w =
     res_bind (early_disconenct_and_collect_resource K evs w) (\<lambda>(_, evs, w). Inr (evs, w))"

section \<open>The table\<close>

lemma early_CHUNK_INDEX_OFSSET_eq: "early_CHUNK_INDEX_OFSSET = of_nat CHUNK_SHIFT"
proof -
  have "power_of_2 1 = 0" by code_simp
  then show ?thesis by (simp add: early_CHUNK_INDEX_OFSSET_def)
qed

lemma early_bind_loop_spec:
  assumes "wf_chunks l" and "chunk_ptr l < chunk_num l"
  shows "\<exists>l'. early_bind_loop (Some m) is l = Inr l' \<and> wf_chunks l' \<and> chunk_num l' = chunk_num l \<and>
           mapped_chunks l' = mapped_chunks l @ take (room l) (offered m is)"
  using assms
proof (induction "is" arbitrary: l)
  case Nil
  then show ?case by simp
next
  case (Cons i "is")
  show ?case
  proof (cases "msg_rkey m ! i = 0")
    case True
    have "\<not> chunk_num l \<le> chunk_ptr l" using Cons.prems(2) by simp
    with True Cons.IH [OF Cons.prems] show ?thesis by simp
  next
    case False
    let ?ra = "(ntohl (msg_rkey m ! i), ntohll (msg_buf m ! i))"
    note one = bind_one_props(1-4) [OF Cons.prems, of ?ra]
    from bind_one_props(5) [OF Cons.prems] obtain cs where cs: "remote_chunk l = Some cs" "unat (chunk_ptr l) < length cs" by blast
    have step: "early_bind_loop (Some m) (i # is) l =
        (if chunk_num (bind_one ?ra l) \<le> chunk_ptr (bind_one ?ra l) then Inr (bind_one ?ra l)
         else early_bind_loop (Some m) is (bind_one ?ra l))"
      using cs False by (simp add: bind_one_def)
    show ?thesis
    proof (cases "chunk_ptr (bind_one ?ra l) < chunk_num (bind_one ?ra l)")
      case True
      with Cons.IH [OF one(1) True] one False step show ?thesis by (auto simp: not_le)
    next
      case full: False
      then have "room (bind_one ?ra l) = 0" using room_zero_iff [OF one(1)] by (simp add: not_less)
      with one False step full show ?thesis by (simp add: not_less)
    qed
  qed
qed

text \<open>
  The first version keeps the size of the table, so that a second message is appended to the first.
\<close>

theorem early_bind_appends:
  assumes wf: "wf_chunks (remote_chunk_list (session w))" and room: "0 < room (remote_chunk_list (session w))"
    and buf: "recv_buf (session w) = Some m"
  shows "\<exists>w'. early_bind_remote_memory_chunks w = Inr w' \<and> wf_chunks (remote_chunk_list (session w')) \<and>
    chunk_num (remote_chunk_list (session w')) = chunk_num (remote_chunk_list (session w)) \<and>
    mapped_chunks (remote_chunk_list (session w')) = mapped_chunks (remote_chunk_list (session w)) @
      take (room (remote_chunk_list (session w))) (offered m [0..<MAX_CHUNKS])"
proof -
  have "chunk_ptr (remote_chunk_list (session w)) < chunk_num (remote_chunk_list (session w))"
    using room_zero_iff [OF wf] room by (auto simp: not_le)
  from early_bind_loop_spec [OF wf this, of m "[0..<MAX_CHUNKS]"] buf show ?thesis
    by (auto simp: early_bind_remote_memory_chunks_def)
qed

text \<open>
  The first version of the client looks at the size of the table only after it has bound a chunk:
  when the table is full, a message with a chunk in its first slot is written past the end of the table.
\<close>

theorem early_bind_overruns_a_full_table:
  assumes full: "remote_chunk (remote_chunk_list (session w)) = Some cs"
      "unat (chunk_ptr (remote_chunk_list (session w))) = length cs"
    and buf: "recv_buf (session w) = Some m" and offer: "msg_rkey m ! 0 \<noteq> 0"
  shows "early_bind_remote_memory_chunks w = Inl OutOfBounds"
proof -
  have "[0..<MAX_CHUNKS] = 0 # [1..<MAX_CHUNKS]" by (simp add: MAX_CHUNKS_def upt_rec)
  then show ?thesis using assms by (simp only: early_bind_remote_memory_chunks_def early_bind_loop.simps) simp
qed

section \<open>The handshake\<close>

lemma early_resolve_succeeds:
  assumes ok: "adapter_ok K c" and idle: "state (session w) = IDLE"
  shows "\<exists>w'. early_resolve_ip_to_ib_device K (CmEvent RDMA_CM_EVENT_ADDR_RESOLVED # CmEvent RDMA_CM_EVENT_ROUTE_RESOLVED # evs) w = Inr (0, evs, w') \<and>
    session w' = (session w)\<lparr>state := ROUTE_RESOLVED\<rparr>"
  using idle adapter_okD(4) [OF ok]
  by (simp add: early_resolve_ip_to_ib_device_def wait_event_interruptible_def early_handler_def early_cm_event_handler_def
      call_def set_state_def session_state_order)

lemma early_setup_succeeds:
  assumes ok: "adapter_ok K c" and cm: "valid_ptr (cm_id (session w))"
  shows "\<exists>r w1 r' w2. octopus_create_rdma_queues K w = Inr (r, w1) \<and> early_setup_buffers K w1 = Inr (r', w2) \<and>
    state (session w2) = state (session w) \<and> cq (session w2) = c \<and> valid_ptr (qp (session w2)) \<and>
    recv_buf (session w2) \<noteq> None \<and> send_buf (session w2) \<noteq> None \<and>
    remote_chunk_list (session w2) = remote_chunk_list (session w)"
proof -
  note ok' = adapter_okD [OF ok]
  have nerr: "\<not> IS_ERR c" "\<And>h. \<not> IS_ERR (k_ret K h IbAllocPd)" "\<And>h. \<not> IS_ERR (k_ret K h GetDmaMr)" "\<And>h. k_ret K h IbAllocPd \<noteq> 0"
      "\<And>h. k_ret K h GetDmaMr \<noteq> 0"
    using ok'(1,5,9) by (simp_all add: valid_ptr_def)
  have "cm_id (session w) \<noteq> 0" "\<not> IS_ERR (cm_id (session w))" using cm by (simp_all add: valid_ptr_def)
  with ok' nerr show ?thesis
    by (simp add: octopus_create_rdma_queues_def octopus_create_qp_def early_setup_buffers_def early_setup_message_wr_def
        call_def Let_def deref_kptr_def)
qed

lemma early_free_size_arrives:
  assumes ok: "adapter_ok K c" and w: "cq (session w) = c" "CONNECTED \<le> state (session w)" "state (session w) \<noteq> ERROR"
      "recv_buf (session w) \<noteq> None" and m: "msg_type m = message_type_code FREE_SIZE"
  shows "\<exists>w' l. early_handler K (CqEvent c [recv_wc m]) evs w = Inr (evs, w') \<and> sem_woken w' \<and>
     session w' = (session w)\<lparr>recv_buf := Some m, remote_chunk_list := l, state := FREE_MEM_RECV\<rparr> \<and>
     wf_chunks l \<and> mapped_chunks l = [] \<and> room l = unat (word_of_int (msg_size_gb m) :: u32)"
proof -
  let ?v = "deliver (recv_wc m) w"
  let ?u = "upd_session (\<lambda>s. s\<lparr>remote_chunk_list := (remote_chunk_list s)\<lparr>remote_free_size_gb := word_of_int (msg_size_gb m)\<rparr>,
      state := FREE_MEM_RECV\<rparr>) ?v"
  have v: "session ?v = (session w)\<lparr>recv_buf := Some m\<rparr>" using w(4) by (auto simp: deliver_def recv_wc_def)
  have "k_ret K (calls ?u) (Kzalloc ChunkArray) \<noteq> 0" using adapter_okD(8) [OF ok] by blast
  then obtain w1 l where w1: "init_remote_chunk_list K ?u = Inr (0, w1)" "session w1 = (session ?u)\<lparr>remote_chunk_list := l\<rparr>"
      "wf_chunks l" "mapped_chunks l = []" "room l = unat (word_of_int (msg_size_gb m) :: u32)"
    using clear_chunks_zeroed
    by (auto simp: init_remote_chunk_list_def call_def CHUNK_SIZE_GB_def wf_chunks_def mapped_chunks_def
        room_def empty_chunk_def Let_def)
  have "early_handle_recv_wr K (recv_wc m) ?v = Inr (0, wake_up_interruptible w1)"
    using w v m w1(1) by (simp add: early_handle_recv_wr_def recv_wc_def early_init_remote_chunk_list_def)
  then have "early_handle_wc K (recv_wc m) w = Inr (True, wake_up_interruptible w1)"
    by (simp add: early_handle_wc_def recv_wc_def)
  then have "early_handler K (CqEvent c [recv_wc m]) evs w = Inr (evs, snd (call K IbReqNotifyCq (wake_up_interruptible w1)))"
    using w adapter_okD(12) [OF ok] by (simp add: early_handler_def early_cq_event_handler_def call_def)
  moreover have "sem_woken (snd (call K IbReqNotifyCq (wake_up_interruptible w1)))" by (simp add: call_def wake_up_interruptible_def)
  ultimately show ?thesis using w1 v by (intro exI [of _ "snd (call K IbReqNotifyCq (wake_up_interruptible w1))"] exI [of _ l]) simp
qed

lemma early_chunks_arrive:
  assumes ok: "adapter_ok K c" and w: "cq (session w) = c" "CONNECTED \<le> state (session w)" "state (session w) \<noteq> ERROR"
      "recv_buf (session w) \<noteq> None" and m: "msg_type m = message_type_code GOT_CHUNKS"
    and wf: "wf_chunks (remote_chunk_list (session w))" "0 < room (remote_chunk_list (session w))"
  shows "\<exists>w' l. early_handler K (CqEvent c [recv_wc m]) evs w = Inr (evs, w') \<and> sem_woken w' \<and>
     session w' = (session w)\<lparr>recv_buf := Some m, remote_chunk_list := l, state := TEST_DONE\<rparr> \<and> calls w \<noteq> calls w' \<and> set (calls w) \<subseteq> set (calls w') \<and>
     wf_chunks l \<and> mapped_chunks l = mapped_chunks (remote_chunk_list (session w)) @
       take (room (remote_chunk_list (session w))) (offered m [0..<MAX_CHUNKS])"
proof -
  let ?v = "deliver (recv_wc m) w"
  have v: "session ?v = (session w)\<lparr>recv_buf := Some m\<rparr>" "calls ?v = calls w" using w(4) by (auto simp: deliver_def recv_wc_def)
  have "chunk_ptr (remote_chunk_list (session w)) < chunk_num (remote_chunk_list (session w))"
    using room_zero_iff [OF wf(1)] wf(2) by (auto simp: not_le)
  from early_bind_loop_spec [OF wf(1) this, of m "[0..<MAX_CHUNKS]"] obtain l where
    l: "early_bind_loop (Some m) [0..<MAX_CHUNKS] (remote_chunk_list (session w)) = Inr l" "wf_chunks l"
      "mapped_chunks l = mapped_chunks (remote_chunk_list (session w)) @ take (room (remote_chunk_list (session w))) (offered m [0..<MAX_CHUNKS])"
    by blast
  let ?w1 = "wake_up_interruptible (set_state TEST_DONE (upd_session (\<lambda>s. s\<lparr>remote_chunk_list := l\<rparr>) ?v))"
  have "early_handle_recv_wr K (recv_wc m) ?v = Inr (0, ?w1)"
    using w v m l(1) by (simp add: early_handle_recv_wr_def recv_wc_def early_bind_remote_memory_chunks_def)
  then have "early_handle_wc K (recv_wc m) w = Inr (True, ?w1)" by (simp add: early_handle_wc_def recv_wc_def)
  then have "early_handler K (CqEvent c [recv_wc m]) evs w = Inr (evs, snd (call K IbReqNotifyCq ?w1))"
    using w adapter_okD(12) [OF ok] by (simp add: early_handler_def early_cq_event_handler_def call_def)
  moreover have "sem_woken (snd (call K IbReqNotifyCq ?w1))" by (simp add: call_def wake_up_interruptible_def)
  ultimately show ?thesis using l v
    by (intro exI [of _ "snd (call K IbReqNotifyCq ?w1)"] exI [of _ l]) (auto simp: set_state_def call_def)
qed

lemma early_request_succeeds:
  assumes ok: "adapter_ok K c" and w: "valid_ptr (qp (session w))" "send_buf (session w) = Some m"
  shows "\<exists>w' m'. early_requset_for_chunk K 8 w = Inr (0, w') \<and> IbPostSend m' \<in> set (calls w') \<and>
     msg_type m' = message_type_code REQUEST_CHUNKS \<and> msg_size_gb m' = 8 \<and> session w' = (session w)\<lparr>send_buf := Some m'\<rparr>"
  using w adapter_okD(10,13) [OF ok]
  by (simp add: early_requset_for_chunk_def early_send_message_to_remote_def call_def Let_def CHUNK_SIZE_GB_def)
    (rule exI [of _ "m\<lparr>msg_type := 8, msg_size_gb := 8\<rparr>"], simp)

definition early_events :: "int \<Rightarrow> message \<Rightarrow> message \<Rightarrow> event list" where
  "early_events c m1 m2 = [CmEvent RDMA_CM_EVENT_ESTABLISHED, CqEvent c [recv_wc m1], CqEvent c [send_wc], CqEvent c [recv_wc m2]]"

definition early_handshake_events :: "int \<Rightarrow> message \<Rightarrow> message \<Rightarrow> event list" where
  "early_handshake_events c m1 m2 = [CmEvent RDMA_CM_EVENT_ADDR_RESOLVED, CmEvent RDMA_CM_EVENT_ROUTE_RESOLVED] @ early_events c m1 m2"

lemma early_send_done:
  assumes ok: "adapter_ok K c" and w: "cq (session w) = c" "state (session w) \<noteq> ERROR"
  shows "early_handler K (CqEvent c [send_wc]) evs w = Inr (evs, snd (call K IbReqNotifyCq w))"
  using w adapter_okD(12) [OF ok]
  by (simp add: early_handler_def early_cq_event_handler_def early_handle_wc_def send_wc_def call_def)

lemma wait_skip:
  assumes "\<not> cond w" and "e \<noteq> Signal" and "H e evs (w\<lparr>sem_woken := False\<rparr>) = Inr (evs, w')" and "\<not> cond w'"
  shows "wait_event_interruptible H cond (e # evs) w = wait_event_interruptible H cond evs w'"
  using assms by (simp add: wait_event_interruptible_def)

lemma early_connect_succeeds:
  assumes ok: "adapter_ok K c" and st: "state (session w) = ROUTE_RESOLVED"
  shows "\<exists>w'. early_connect_remote_memory_server K (CmEvent RDMA_CM_EVENT_ESTABLISHED # evs) w = Inr (0, evs, w') \<and>
    session w' = (session w)\<lparr>state := CONNECTED\<rparr>"
  using st adapter_okD(11) [OF ok]
  by (simp add: early_connect_remote_memory_server_def wait_event_interruptible_def early_handler_def early_cm_event_handler_def
      call_def set_state_def session_state_order)

lemma early_negotiation_succeeds:
  assumes ok: "adapter_ok K c" and st: "state (session w) = ROUTE_RESOLVED"
    and w: "cq (session w) = c" "valid_ptr (qp (session w))" "recv_buf (session w) \<noteq> None" "send_buf (session w) \<noteq> None"
    and m: "msg_type m1 = message_type_code FREE_SIZE" "msg_type m2 = message_type_code GOT_CHUNKS"
    and free: "0 < unat (word_of_int (msg_size_gb m1) :: u32)"
  shows "\<exists>w' m l. early_negotiate K (early_events c m1 m2 @ evs) w = Inr (0, evs, w') \<and>
    session w' = (session w)\<lparr>recv_buf := Some m2, send_buf := Some m, remote_chunk_list := l, state := TEST_DONE\<rparr> \<and>
    wf_chunks l \<and> mapped_chunks l = take (unat (word_of_int (msg_size_gb m1) :: u32)) (offered m2 [0..<MAX_CHUNKS]) \<and>
    IbPostSend m \<in> set (calls w') \<and> msg_type m = message_type_code REQUEST_CHUNKS \<and> msg_size_gb m = 8"
proof -
  let ?H = "early_handler K" and ?q1 = "CqEvent c [recv_wc m1]" and ?s = "CqEvent c [send_wc]" and ?q2 = "CqEvent c [recv_wc m2]"
  let ?done = "\<lambda>w :: client. state (session w) = TEST_DONE"
  note ok' = adapter_okD [OF ok]
  obtain w1 where w1: "early_connect_remote_memory_server K (early_events c m1 m2 @ evs) (snd (call K IbPostRecv w)) =
      Inr (0, ?q1 # ?s # ?q2 # evs, w1)" "session w1 = (session w)\<lparr>state := CONNECTED\<rparr>"
    using early_connect_succeeds [OF ok, of "snd (call K IbPostRecv w)" "?q1 # ?s # ?q2 # evs"] st by (auto simp: early_events_def)
  define w2 where "w2 = snd (call K IbReqNotifyCq w1)"
  have s2: "session w2 = session w1" by (simp add: w2_def)
  obtain w3 l where w3: "?H ?q1 (?s # ?q2 # evs) (w2\<lparr>sem_woken := False\<rparr>) = Inr (?s # ?q2 # evs, w3)" "sem_woken w3"
      "session w3 = (session w2)\<lparr>recv_buf := Some m1, remote_chunk_list := l, state := FREE_MEM_RECV\<rparr>"
      "wf_chunks l" "mapped_chunks l = []" "room l = unat (word_of_int (msg_size_gb m1) :: u32)"
    using early_free_size_arrives [OF ok _ _ _ _ m(1), of "w2\<lparr>sem_woken := False\<rparr>" "?s # ?q2 # evs"] w w1(2) s2
    by (auto simp: session_state_order)
  have wait1: "wait_event_interruptible ?H (\<lambda>w. state (session w) = FREE_MEM_RECV) (?q1 # ?s # ?q2 # evs) w2 = Inr (?s # ?q2 # evs, w3)"
    using w3 s2 w1(2) by (intro wait_one) simp_all
  obtain w4 m where w4: "early_requset_for_chunk K 8 w3 = Inr (0, w4)" "IbPostSend m \<in> set (calls w4)"
      "msg_type m = message_type_code REQUEST_CHUNKS" "msg_size_gb m = 8" "session w4 = (session w3)\<lparr>send_buf := Some m\<rparr>"
    using early_request_succeeds [OF ok, of w3] w w3(3) s2 w1(2) by auto
  define w5 where "w5 = snd (call K IbReqNotifyCq (w4\<lparr>sem_woken := False\<rparr>))"
  have s5: "session w5 = session w4" "set (calls w4) \<subseteq> set (calls w5)" by (auto simp: w5_def call_def)
  have skip: "wait_event_interruptible ?H ?done (?s # ?q2 # evs) w4 = wait_event_interruptible ?H ?done (?q2 # evs) w5"
    using early_send_done [OF ok, of "w4\<lparr>sem_woken := False\<rparr>"] w(1) w4(5) w3(3) s2 w1(2) s5
    by (intro wait_skip) (simp_all add: w5_def)
  obtain w6 l6 where w6: "?H ?q2 evs (w5\<lparr>sem_woken := False\<rparr>) = Inr (evs, w6)" "sem_woken w6"
      "session w6 = (session w5)\<lparr>recv_buf := Some m2, remote_chunk_list := l6, state := TEST_DONE\<rparr>" "set (calls w5) \<subseteq> set (calls w6)"
      "wf_chunks l6" "mapped_chunks l6 = take (room l) (offered m2 [0..<MAX_CHUNKS])"
    using early_chunks_arrive [OF ok _ _ _ _ m(2), of "w5\<lparr>sem_woken := False\<rparr>" evs] w w1(2) s2 w3 w4(5) s5 free
    by (auto simp: session_state_order)
  have wait2: "wait_event_interruptible ?H ?done (?q2 # evs) w5 = Inr (evs, w6)"
    using w6 s5 w4(5) w3(3) by (intro wait_one) simp_all
  have "early_negotiate K (early_events c m1 m2 @ evs) w = Inr (0, evs, w6)"
    using w(2) ok'(10,12) w1(1) wait1 skip wait2 w4(1)
    by (simp add: early_negotiate_def call_def w2_def Let_def)
  with w6 w4 w3 w1 s2 s5 show ?thesis by (intro exI [of _ w6] exI [of _ m] exI [of _ l6]) auto
qed

lemma early_handshake_spec:
  assumes ok: "adapter_ok K c"
    and m: "msg_type m1 = message_type_code FREE_SIZE" "msg_type m2 = message_type_code GOT_CHUNKS"
    and free: "0 < unat (word_of_int (msg_size_gb m1) :: u32)"
  shows "\<exists>w' m. early_RDMA_connect K (early_handshake_events c m1 m2 @ evs) w
      = Inr (0, evs, w') \<and> state (session w') = TEST_DONE \<and> wf_chunks (remote_chunk_list (session w')) \<and>
    mapped_chunks (remote_chunk_list (session w')) = take (unat (word_of_int (msg_size_gb m1) :: u32)) (offered m2 [0..<MAX_CHUNKS]) \<and>
    IbPostSend m \<in> set (calls w') \<and> msg_type m = message_type_code REQUEST_CHUNKS \<and> msg_size_gb m = 8"
proof -
  let ?e = "early_events c m1 m2 @ evs"
  obtain w0 where w0: "early_connect_init K w = Inr w0" "state (session w0) = IDLE" "valid_ptr (cm_id (session w0))"
    using adapter_okD(3,8) [OF ok] by (simp add: early_connect_init_def call_def Let_def)
  obtain w1 where w1: "early_resolve_ip_to_ib_device K (CmEvent RDMA_CM_EVENT_ADDR_RESOLVED # CmEvent RDMA_CM_EVENT_ROUTE_RESOLVED # ?e) w0 =
      Inr (0, ?e, w1)" "session w1 = (session w0)\<lparr>state := ROUTE_RESOLVED\<rparr>"
    using early_resolve_succeeds [OF ok w0(2)] by blast
  have "valid_ptr (cm_id (session w1))" using w0(3) w1(2) by simp
  from early_setup_succeeds [OF ok this] obtain r w2 r' w3 where w3: "octopus_create_rdma_queues K w1 = Inr (r, w2)"
      "early_setup_buffers K w2 = Inr (r', w3)" "state (session w3) = ROUTE_RESOLVED" "cq (session w3) = c" "valid_ptr (qp (session w3))"
      "recv_buf (session w3) \<noteq> None" "send_buf (session w3) \<noteq> None"
    using w1(2) by auto
  from early_negotiation_succeeds [OF ok w3(3-7) m free, of evs] obtain w4 m l where
    "early_negotiate K ?e w3 = Inr (0, evs, w4)"
    "session w4 = (session w3)\<lparr>recv_buf := Some m2, send_buf := Some m, remote_chunk_list := l, state := TEST_DONE\<rparr>"
    "wf_chunks l" "mapped_chunks l = take (unat (word_of_int (msg_size_gb m1) :: u32)) (offered m2 [0..<MAX_CHUNKS])"
    "IbPostSend m \<in> set (calls w4)" "msg_type m = message_type_code REQUEST_CHUNKS" "msg_size_gb m = 8" by blast
  with w0(1) w1(1) w3(1,2) show ?thesis
    by (intro exI [of _ w4] exI [of _ m]) (simp add: early_RDMA_connect_def early_handshake_events_def)
qed

section \<open>Properties\<close>

text \<open>
  The first version of the client, when every call succeeds, the events arrive in order and the
  server reports free memory: the connection function returns zero, has asked for eight chunks, and its
  table holds the chunks of the server's message, in order, cut to the size reported first.
\<close>

theorem early_handshake_maps_the_chunks:
  assumes ok: "adapter_ok K c"
    and m: "msg_type m1 = message_type_code FREE_SIZE" "msg_type m2 = message_type_code GOT_CHUNKS"
    and free: "0 < unat (word_of_int (msg_size_gb m1) :: u32)"
  shows "\<exists>w' m. early_RDMA_connect K (early_handshake_events c m1 m2 @ evs) w
      = Inr (0, evs, w') \<and> state (session w') = TEST_DONE \<and> wf_chunks (remote_chunk_list (session w')) \<and>
    mapped_chunks (remote_chunk_list (session w')) = take (unat (word_of_int (msg_size_gb m1) :: u32)) (offered m2 [0..<MAX_CHUNKS]) \<and>
    IbPostSend m \<in> set (calls w') \<and> msg_type m = message_type_code REQUEST_CHUNKS \<and> msg_size_gb m = 8"
  using assms by (rule early_handshake_spec)

text \<open>
  When the address of the server cannot be resolved, the first version of the module is
  loaded all the same; unloading it then waits for the acknowledgement of a disconnection that
  never comes.
\<close>

theorem early_unload_after_failed_connect_hangs:
  assumes ok: "adapter_ok K c"
  shows "\<exists>w'. early_RDMA_connect K [CmEvent RDMA_CM_EVENT_ADDR_ERROR] w = Inr (- EINTR, [], w') \<and>
    early_init_module K [CmEvent RDMA_CM_EVENT_ADDR_ERROR] w = Inr (0, [], w') \<and>
    early_cleanup_module K [] w' = Inl Blocked"
proof -
  obtain w0 where w0: "early_connect_init K w = Inr w0" "state (session w0) = IDLE"
    using adapter_okD(8) [OF ok] by (simp add: early_connect_init_def call_def Let_def)
  obtain w1 where w1: "early_resolve_ip_to_ib_device K [CmEvent RDMA_CM_EVENT_ADDR_ERROR] w0 = Inr (- EINTR, [], w1)"
      "state (session w1) = ERROR"
    using w0(2) adapter_okD(4) [OF ok]
    by (simp add: early_resolve_ip_to_ib_device_def wait_event_interruptible_def early_handler_def early_cm_event_handler_def
        call_def set_state_def session_state_order)
  have c: "early_RDMA_connect K [CmEvent RDMA_CM_EVENT_ADDR_ERROR] w = Inr (- EINTR, [], w1)"
    using w0(1) w1(1) by (simp add: early_RDMA_connect_def EINTR_def)
  have "early_cleanup_module K [] w1 = Inl Blocked"
    using w1(2) by (simp add: early_cleanup_module_def early_disconenct_and_collect_resource_def wait_event_interruptible_def call_def)
  with c show ?thesis by (intro exI [of _ w1]) (simp add: early_init_module_def)
qed

text \<open>
  Releasing the session of the first version disconnects, waits for the event, frees the buffers and
  the table, destroys the verbs objects and frees the session, each once.
\<close>

theorem early_release_frees_everything_once:
  assumes "recv_buf (session w) \<noteq> None" "send_buf (session w) \<noteq> None" "remote_chunk (remote_chunk_list (session w)) \<noteq> None"
    and "cm_id (session w) \<noteq> 0" "qp (session w) \<noteq> 0" "cq (session w) \<noteq> 0" "pd (session w) \<noteq> 0"
    and "state (session w) \<noteq> CM_DISCONNECT"
  shows "\<exists>w'. early_cleanup_module K (CmEvent RDMA_CM_EVENT_DISCONNECTED # evs) w = Inr (evs, w') \<and>
    calls w' = calls w @ [RdmaDisconnect, WakeUp, Kfree RecvBuf, Kfree SendBuf, Kfree ChunkArray,
      RdmaDestroyId, IbDestroyQp, IbDestroyCq, IbDeallocPd, Kfree SessionObj]"
  using assms
  by (auto simp: early_cleanup_module_def early_disconenct_and_collect_resource_def wait_event_interruptible_def early_handler_def
      early_cm_event_handler_def call_def set_state_def early_free_buffers_def octopus_free_rdma_structure_def Let_def)

theorem early_handshake_maps_the_chunks_witness:
  "\<exists>w' m. early_RDMA_connect full_kernel (early_handshake_events 3 (zero_message\<lparr>msg_type := 4, msg_size_gb := 2\<rparr>) (zero_message\<lparr>msg_type := 2\<rparr>)) unloaded = Inr (0, [], w') \<and>
     state (session w') = TEST_DONE \<and> IbPostSend m \<in> set (calls w') \<and> msg_size_gb m = 8"
  using early_handshake_maps_the_chunks [OF full_kernel_ok(1), of "zero_message\<lparr>msg_type := 4, msg_size_gb := 2\<rparr>"
      "zero_message\<lparr>msg_type := 2\<rparr>" "[]" unloaded] by auto

theorem early_unload_after_failed_connect_hangs_witness:
  "\<exists>w'. early_init_module full_kernel [CmEvent RDMA_CM_EVENT_ADDR_ERROR] unloaded = Inr (0, [], w') \<and>
    early_cleanup_module full_kernel [] w' = Inl Blocked"
  using early_unload_after_failed_connect_hangs [OF full_kernel_ok(1), of unloaded] by blast

definition full_table_client :: client where
  "full_table_client = unloaded\<lparr>session := rdma_session_global\<lparr>recv_buf := Some (zero_message\<lparr>msg_rkey := replicate 32 7\<rparr>),
     remote_chunk_list := \<lparr>remote_chunk = Some [empty_chunk], remote_free_size_gb = 1, chunk_num = 1, chunk_ptr = 1\<rparr>\<rparr>\<rparr>"

theorem early_bind_overruns_a_full_table_witness:
  "early_bind_remote_memory_chunks full_table_client = Inl OutOfBounds"
  using early_bind_overruns_a_full_table [of full_table_client "[empty_chunk]" "zero_message\<lparr>msg_rkey := replicate 32 7\<rparr>"]
  by (simp add: full_table_client_def)

theorem early_bind_appends_witness:
  "\<exists>w'. early_bind_remote_memory_chunks two_chunk_client = Inr w' \<and> wf_chunks (remote_chunk_list (session w')) \<and>
     chunk_num (remote_chunk_list (session w')) = 2"
proof -
  have "wf_chunks (remote_chunk_list (session two_chunk_client))" "0 < room (remote_chunk_list (session two_chunk_client))"
      "recv_buf (session two_chunk_client) = Some zero_message" "chunk_num (remote_chunk_list (session two_chunk_client)) = 2"
    by (auto simp: two_chunk_client_def wf_chunks_def empty_chunk_def less_Suc_eq nth_Cons' room_def)
  with early_bind_appends [OF this(1-3)] show ?thesis by auto
qed

theorem early_release_frees_everything_once_witness:
  "\<exists>w'. early_cleanup_module calm_kernel [CmEvent RDMA_CM_EVENT_DISCONNECTED] (upd_session (\<lambda>s. s\<lparr>pd := 9\<rparr>) built_client) = Inr ([], w') \<and>
    calls w' = [RdmaDisconnect, WakeUp, Kfree RecvBuf, Kfree SendBuf, Kfree ChunkArray,
      RdmaDestroyId, IbDestroyQp, IbDestroyCq, IbDeallocPd, Kfree SessionObj]"
proof -
  let ?w = "upd_session (\<lambda>s. s\<lparr>pd := 9\<rparr>) built_client"
  have "recv_buf (session ?w) \<noteq> None" "send_buf (session ?w) \<noteq> None" "remote_chunk (remote_chunk_list (session ?w)) \<noteq> None"
    "cm_id (session ?w) \<noteq> 0" "qp (session ?w) \<noteq> 0" "cq (session ?w) \<noteq> 0" "pd (session ?w) \<noteq> 0" "state (session ?w) \<noteq> CM_DISCONNECT"
    using built_client_built by (auto simp: fully_built_def)
  from early_release_frees_everything_once [OF this, of calm_kernel "[]"] show ?thesis by (simp add: built_client_built)
qed

end
