(* ===== verification/Block_Prototype.thy ===== *)
theory Block_Prototype
  imports Client_Disk
begin

text \<open>
  The block device the client's device grew from (\<^verbatim>\<open>src/block_device/register_disk.c\<close>): it registers a
  disk and completes every request at once without moving data. Its structures and its tag set
  are those of the client; the state is the client's device with an unused session.
\<close>

definition proto_RMEM_SIZE_IN_BYTES :: u64 where
  "proto_RMEM_SIZE_IN_BYTES = 1024 * 1024 * 1024 * 8"

definition proto_LOGICAL_SECT_SIZE :: u64 where
  "proto_LOGICAL_SECT_SIZE = 4096"

text \<open>The address of an entry of the array of queues is taken without a look at the array.\<close>

definition proto_init_hctx :: "nat \<Rightarrow> int \<times> nat" where
  "proto_init_hctx hw_index = (0, hw_index)"

definition proto_queue_rq :: "request \<Rightarrow> client \<Rightarrow> int \<times> client" where
  "proto_queue_rq rq w =
     (BLK_MQ_RQ_QUEUE_OK, call_void (BlkMqCompleteRequest (rq_tag rq) (rq_errors rq)) (call_void (BlkMqStartRequest (rq_tag rq)) w))"

definition proto_init_blk_mq_queue :: "kernel \<Rightarrow> client \<Rightarrow> (int \<times> client) res" where
  "proto_init_blk_mq_queue K w =
     (let (q, w) = call K BlkMqInitQueue w;
          w = upd_dev (\<lambda>d. d\<lparr>queue := q\<rparr>) w
      in if IS_ERR q then Inr (q, w)
         else if q = 0 then Inl NullDeref
         else let w = call_void (BlkQueueLogicalBlockSize proto_LOGICAL_SECT_SIZE) w;
                  w = call_void (BlkQueuePhysicalBlockSize RMEM_PHY_SECT_SIZE) w;
                  w = call_void (BlkQueueMaxHwSectors RMEM_QUEUE_MAX_SECT_SIZE) w
              in Inr (0, w))"

definition proto_init_gendisk :: "kernel \<Rightarrow> client \<Rightarrow> int \<times> client" where
  "proto_init_gendisk K w =
     (let (d, w) = call K AllocDiskNode w;
          w = upd_dev (\<lambda>c. c\<lparr>disk := d\<rparr>) w
      in if d = 0 then (- ENOMEM, w)
         else let w = call_void (SetCapacity (proto_RMEM_SIZE_IN_BYTES div proto_LOGICAL_SECT_SIZE)) w;
                  w = call_void (AddDisk (take DEVICE_NAME_LEN (dev_name (dev w)))) w
              in (0, w))"

definition proto_init_rmem_device_control :: "string option \<Rightarrow> bool \<Rightarrow> client \<Rightarrow> int \<times> client" where
  "proto_init_rmem_device_control name ctrl w =
     (if \<not> ctrl then (- 1, w)
      else (0, upd_dev (\<lambda>d. d\<lparr>
        dev_name := (case name of
            Some s \<Rightarrow> buf_write (take (if DEVICE_NAME_LEN \<le> length s then DEVICE_NAME_LEN else length s) s) (dev_name d)
          | None \<Rightarrow> buf_write (''rmempool'' @ [CHR 0x00]) (dev_name d)),
        major := rmem_major_num w, queue_depth := RMEM_QUEUE_DEPTH, nr_queues := word_of_int (online_cores w)\<rparr>) w))"

definition proto_create_device :: "kernel \<Rightarrow> string option \<Rightarrow> bool \<Rightarrow> client \<Rightarrow> (int \<times> client) res" where
  "proto_create_device K name ctrl w =
     (if \<not> ctrl then Inr (- 1, w)
      else let (ret, w) = proto_init_rmem_device_control name ctrl w
      in if ret \<noteq> 0 then Inr (ret, w)
         else let (ret, w) = init_blk_mq_tag_set K w
              in if ret \<noteq> 0 then Inr (ret, w)
                 else res_bind (proto_init_blk_mq_queue K w) (\<lambda>(ret, w).
                   if ret \<noteq> 0 then Inr (ret, w) else Inr (proto_init_gendisk K w)))"

definition proto_init_module :: "kernel \<Rightarrow> client \<Rightarrow> (int \<times> client) res" where
  "proto_init_module K w =
     (let (n, w) = call K (RegisterBlkdev ''rmempool'') w;
          w = w\<lparr>rmem_major_num := n\<rparr>
      in if n < 0 then Inr (n, w)
         else let (c, w) = call K NumOnlineCpus w
              in proto_create_device K None True (w\<lparr>online_cores := c\<rparr>))"

definition proto_cleanup_module :: "client \<Rightarrow> client" where
  "proto_cleanup_module w =
     (let w = (if disk (dev w) \<noteq> 0 then call_void (DelGendisk (disk (dev w))) w else w);
          w = (if queue (dev w) \<noteq> 0 then call_void (BlkCleanupQueue (queue (dev w))) w else w);
          w = call_void BlkMqFreeTagSet w;
          w = (if disk (dev w) \<noteq> 0 then call_void (PutDisk (disk (dev w))) w else w)
      in call_void (UnregisterBlkdev (rmem_major_num w) ''rmempool'') w)"

section \<open>Properties\<close>

lemma block_layer_okD:
  assumes "block_layer_ok K"
  shows "\<not> k_ret K h (RegisterBlkdev n) < 0" "k_ret K h (BlkMqAllocTagSet ts) = 0"
    "\<not> IS_ERR (k_ret K h BlkMqInitQueue)" "k_ret K h BlkMqInitQueue \<noteq> 0" "k_ret K h AllocDiskNode \<noteq> 0"
  using assms by (auto simp: block_layer_ok_def not_less)

lemmas proto_create_defs = proto_init_module_def proto_create_device_def proto_init_rmem_device_control_def
  init_blk_mq_tag_set_def proto_init_blk_mq_queue_def proto_init_gendisk_def call_def Let_def

text \<open>
  The capacity is divided by the logical sector of 4096 bytes but announced in units of 512
  bytes: the disk the module registers is an eighth of the eight gigabytes it is meant to have. Loading
  the module and unloading it releases what was acquired.
\<close>

theorem prototype_disk_is_an_eighth_of_its_size:
  assumes ok: "block_layer_ok K"
  shows "\<exists>w1 ts name. proto_init_module K w = Inr (0, w1) \<and>
    calls w1 = calls w @ [RegisterBlkdev ''rmempool'', NumOnlineCpus, BlkMqAllocTagSet ts, BlkMqInitQueue,
      BlkQueueLogicalBlockSize 4096, BlkQueuePhysicalBlockSize 512, BlkQueueMaxHwSectors 1024,
      AllocDiskNode, SetCapacity 2097152, AddDisk name] \<and>
    8 * (unat (2097152 :: u64) * unat RMEM_PHY_SECT_SIZE) = unat proto_RMEM_SIZE_IN_BYTES \<and>
    calls (proto_cleanup_module w1) = calls w1 @ [DelGendisk (disk (dev w1)), BlkCleanupQueue (queue (dev w1)), BlkMqFreeTagSet,
      PutDisk (disk (dev w1)), UnregisterBlkdev (rmem_major_num w1) ''rmempool'']"
proof -
  note ok' = block_layer_okD [OF ok]
  have "\<exists>w1 ts name. proto_init_module K w = Inr (0, w1) \<and>
    calls w1 = calls w @ [RegisterBlkdev ''rmempool'', NumOnlineCpus, BlkMqAllocTagSet ts, BlkMqInitQueue,
      BlkQueueLogicalBlockSize 4096, BlkQueuePhysicalBlockSize 512, BlkQueueMaxHwSectors 1024,
      AllocDiskNode, SetCapacity 2097152, AddDisk name] \<and> disk (dev w1) \<noteq> 0 \<and> queue (dev w1) \<noteq> 0"
    using ok' by (simp add: proto_create_defs proto_RMEM_SIZE_IN_BYTES_def proto_LOGICAL_SECT_SIZE_def RMEM_PHY_SECT_SIZE_def RMEM_QUEUE_MAX_SECT_SIZE_def)
  moreover have "8 * (unat (2097152 :: u64) * unat RMEM_PHY_SECT_SIZE) = unat proto_RMEM_SIZE_IN_BYTES"
    by (simp add: RMEM_PHY_SECT_SIZE_def proto_RMEM_SIZE_IN_BYTES_def)
  ultimately show ?thesis by (fastforce simp: proto_cleanup_module_def Let_def)
qed

text \<open>
  A disk node that cannot be allocated makes the load fail after the number, the tag set and
  the queue were acquired; none of them is given back, and a module that failed to load is not unloaded.
\<close>

theorem prototype_failed_load_keeps_its_resources:
  assumes ok: "\<And>h n. 0 \<le> k_ret K h (RegisterBlkdev n)" "\<And>h ts. k_ret K h (BlkMqAllocTagSet ts) = 0"
      "\<And>h. \<not> IS_ERR (k_ret K h BlkMqInitQueue)" "\<And>h. k_ret K h BlkMqInitQueue \<noteq> 0"
    and no_disk: "\<And>h. k_ret K h AllocDiskNode = 0"
  shows "\<exists>w1 ts. proto_init_module K w = Inr (- ENOMEM, w1) \<and>
    calls w1 = calls w @ [RegisterBlkdev ''rmempool'', NumOnlineCpus, BlkMqAllocTagSet ts, BlkMqInitQueue,
      BlkQueueLogicalBlockSize 4096, BlkQueuePhysicalBlockSize 512, BlkQueueMaxHwSectors 1024, AllocDiskNode]"
proof -
  have "\<not> k_ret K h (RegisterBlkdev n) < 0" for h n using ok(1) by (simp add: not_less)
  then show ?thesis using ok(2-4) no_disk
    by (simp add: proto_create_defs proto_LOGICAL_SECT_SIZE_def RMEM_PHY_SECT_SIZE_def RMEM_QUEUE_MAX_SECT_SIZE_def)
qed

lemma proto_requests_are_completed_unserved:
  "proto_queue_rq rq w = (BLK_MQ_RQ_QUEUE_OK, w') \<Longrightarrow> calls w' = calls w @ [BlkMqStartRequest (rq_tag rq), BlkMqCompleteRequest (rq_tag rq) (rq_errors rq)]
     \<and> session w' = session w \<and> dev w' = dev w"
  by (auto simp: proto_queue_rq_def)

theorem prototype_disk_is_an_eighth_of_its_size_witness:
  "\<exists>w1. proto_init_module block_kernel unloaded = Inr (0, w1) \<and> SetCapacity 2097152 \<in> set (calls w1)"
proof -
  have "block_layer_ok block_kernel" by (simp add: block_layer_ok_def block_kernel_def IS_ERR_def)
  from prototype_disk_is_an_eighth_of_its_size [OF this, of unloaded] show ?thesis by auto
qed

theorem prototype_failed_load_keeps_its_resources_witness:
  "\<exists>w1 ts. proto_init_module (block_kernel\<lparr>k_ret := (\<lambda>_ c. case c of BlkMqInitQueue \<Rightarrow> 4096 | _ \<Rightarrow> 0)\<rparr>) unloaded = Inr (- ENOMEM, w1) \<and>
     last (calls w1) = AllocDiskNode"
proof -
  let ?K = "block_kernel\<lparr>k_ret := (\<lambda>_ c. case c of BlkMqInitQueue \<Rightarrow> 4096 | _ \<Rightarrow> 0)\<rparr>"
  have "\<exists>w1 ts. proto_init_module ?K unloaded = Inr (- ENOMEM, w1) \<and>
    calls w1 = calls unloaded @ [RegisterBlkdev ''rmempool'', NumOnlineCpus, BlkMqAllocTagSet ts, BlkMqInitQueue,
      BlkQueueLogicalBlockSize 4096, BlkQueuePhysicalBlockSize 512, BlkQueueMaxHwSectors 1024, AllocDiskNode]"
    by (rule prototype_failed_load_keeps_its_resources) (simp_all add: IS_ERR_def)
  then show ?thesis by auto
qed

end
