(* ===== verification/Rdma_Exchange.thy ===== *)
theory Rdma_Exchange
  imports Prelude
begin

text \<open>
  The RDMA write test (\<^verbatim>\<open>src/IB-test-case/RDMA_read_write\<close>): two programs that exchange the
  description of a buffer as text over TCP, bring their queue pairs up, and let one write into the
  memory of the other. The verbs library and the network are parameters; \<^verbatim>\<open>sprintf\<close> and \<^verbatim>\<open>sscanf\<close>
  are modelled for the formats the code uses. The contract of printing and scanning a hexadecimal
  field is the locale \<open>text_field\<close>.
\<close>

section \<open>Hexadecimal fields\<close>

definition hex_char :: "nat \<Rightarrow> char" where
  "hex_char d = ''0123456789abcdef'' ! d"

definition hex_value :: "char \<Rightarrow> nat option" where
  "hex_value c =
     (let n = of_char c :: nat
      in if 48 \<le> n \<and> n \<le> 57 then Some (n - 48)
         else if 97 \<le> n \<and> n \<le> 102 then Some (n - 87)
         else if 65 \<le> n \<and> n \<le> 70 then Some (n - 55) else None)"

definition is_hex :: "char \<Rightarrow> bool" where
  "is_hex c \<longleftrightarrow> hex_value c \<noteq> None"

definition is_space :: "char \<Rightarrow> bool" where
  "is_space c \<longleftrightarrow> c \<in> {CHR '' '', CHR 0x09, CHR 0x0A, CHR 0x0B, CHR 0x0C, CHR 0x0D}"

fun hex_digits :: "nat \<Rightarrow> string" where
  "hex_digits n = (if n < 16 then [hex_char n] else hex_digits (n div 16) @ [hex_char (n mod 16)])"

declare hex_digits.simps [simp del]

text \<open>\<^verbatim>\<open>%0wx\<close>: at least \<open>w\<close> digits, padded with zeros.\<close>

definition print_hex :: "nat \<Rightarrow> nat \<Rightarrow> string" where
  "print_hex w n = replicate (w - length (hex_digits n)) (CHR ''0'') @ hex_digits n"

definition digits_value :: "string \<Rightarrow> nat" where
  "digits_value ds = foldl (\<lambda>a c. 16 * a + the (hex_value c)) 0 ds"

text \<open>
  \<^verbatim>\<open>%x\<close> in a scan: white space is skipped, then an optional sign and an optional \<^verbatim>\<open>0x\<close>, then as many
  digits as there are, at least one. The number saturates at 64 bits and is negated modulo \<open>2 ^ 64\<close>.
\<close>

definition scan_sign :: "string \<Rightarrow> bool \<times> string" where
  "scan_sign s = (case s of c # t \<Rightarrow> if c = CHR ''-'' then (True, t) else if c = CHR ''+'' then (False, t) else (False, s)
     | [] \<Rightarrow> (False, s))"

definition scan_prefix :: "string \<Rightarrow> string" where
  "scan_prefix s = (case s of a # b # t \<Rightarrow> if a = CHR ''0'' \<and> (b = CHR ''x'' \<or> b = CHR ''X'') then t else s | _ \<Rightarrow> s)"

definition scan_hex :: "string \<Rightarrow> (nat \<times> string) option" where
  "scan_hex s =
     (let (neg, s) = scan_sign (dropWhile is_space s);
          s = scan_prefix s;
          ds = takeWhile is_hex s;
          v = min (digits_value ds) (2 ^ 64 - 1)
      in if ds = [] then None else Some (if neg then (2 ^ 64 - v) mod 2 ^ 64 else v, drop (length ds) s))"

lemma less_16_cases:
  assumes "d < (16 :: nat)"
  shows "d \<in> {0, 1, 2, 3, 4, 5, 6, 7, 8, 9, 10, 11, 12, 13, 14, 15}"
  using assms by (simp add: numeral_eq_Suc less_Suc_eq)

lemma hex_value_char: "d < 16 \<Longrightarrow> hex_value (hex_char d) = Some d"
  using less_16_cases [of d] by (auto simp: hex_value_def hex_char_def)

lemma hex_char_facts: "d < 16 \<Longrightarrow> \<not> is_space (hex_char d) \<and> hex_char d \<noteq> CHR ''-'' \<and> hex_char d \<noteq> CHR ''+'' \<and>
    hex_char d \<noteq> CHR ''x'' \<and> hex_char d \<noteq> CHR ''X'' \<and> hex_char d \<noteq> CHR '':'' \<and> hex_char d \<noteq> CHR 0x00"
  using less_16_cases [of d] by (auto simp: is_space_def hex_char_def)

lemma hex_digits_set: "\<forall>c \<in> set (hex_digits n). \<exists>d < 16. c = hex_char d"
proof (induction n rule: hex_digits.induct)
  case (1 n)
  show ?case
  proof (cases "n < 16")
    case True
    then show ?thesis by (subst hex_digits.simps) auto
  next
    case False
    then have "hex_digits n = hex_digits (n div 16) @ [hex_char (n mod 16)]" by (subst hex_digits.simps) simp
    moreover have "\<exists>d < 16. hex_char (n mod 16) = hex_char d" by (rule exI [of _ "n mod 16"]) simp
    ultimately show ?thesis using 1 [OF False] by auto
  qed
qed

lemma hex_digits_value: "digits_value (hex_digits n) = n"
proof (induction n rule: hex_digits.induct)
  case (1 n)
  show ?case
  proof (cases "n < 16")
    case True
    then show ?thesis by (subst hex_digits.simps) (simp add: digits_value_def hex_value_char)
  next
    case False
    then have "hex_digits n = hex_digits (n div 16) @ [hex_char (n mod 16)]" by (subst hex_digits.simps) simp
    with 1 [OF False] show ?thesis by (simp add: digits_value_def hex_value_char)
  qed
qed

lemma hex_digits_length: "0 < w \<Longrightarrow> length (hex_digits n) \<le> w \<longleftrightarrow> n < 16 ^ w"
proof (induction n arbitrary: w rule: hex_digits.induct)
  case (1 n)
  show ?case
  proof (cases "n < 16")
    case True
    moreover have "(16 :: nat) ^ 1 \<le> 16 ^ w" using "1.prems" by (intro power_increasing) simp_all
    ultimately show ?thesis using "1.prems" by (subst hex_digits.simps) simp
  next
    case False
    then have l: "length (hex_digits n) = Suc (length (hex_digits (n div 16)))" by (subst hex_digits.simps) simp
    obtain v where w: "w = Suc v" using "1.prems" by (cases w) simp_all
    have pos: "0 < length (hex_digits (n div 16))" by (subst hex_digits.simps) simp
    show ?thesis
    proof (cases "v = 0")
      case True
      with l w False pos show ?thesis by simp
    next
      case v: False
      have "n div 16 < 16 ^ v \<longleftrightarrow> n < 16 ^ Suc v" by (simp add: div_less_iff_less_mult mult.commute)
      with 1(1) [OF False, of v] v l w show ?thesis by simp
    qed
  qed
qed

lemma print_hex_set: "\<forall>c \<in> set (print_hex w n). \<exists>d < 16. c = hex_char d"
proof -
  have "CHR ''0'' = hex_char 0" by (simp add: hex_char_def)
  then have "\<exists>d < 16. CHR ''0'' = hex_char d" by (metis zero_less_numeral)
  then show ?thesis using hex_digits_set [of n] by (auto simp: print_hex_def)
qed

lemma print_hex_not_empty: "print_hex w n \<noteq> []"
  by (subst print_hex_def, subst hex_digits.simps) simp

lemma print_hex_value: "digits_value (print_hex w n) = n"
proof -
  have "foldl (\<lambda>a c. 16 * a + the (hex_value c)) 0 (replicate k (CHR ''0'')) = 0" for k
    by (induction k) (simp_all add: hex_value_def)
  then show ?thesis using hex_digits_value [of n] by (simp add: print_hex_def digits_value_def)
qed

lemma print_hex_length: "length (print_hex w n) = max w (length (hex_digits n))"
  by (simp add: print_hex_def max_def)

text \<open>
  The contract between printing and scanning a field: what was printed is read back, when the
  text after it cannot be taken for more of the field.
\<close>

locale text_field =
  fixes print_field :: "nat \<Rightarrow> string"
    and scan_field :: "string \<Rightarrow> (nat \<times> string) option"
    and bound :: nat
    and stop :: "char \<Rightarrow> bool"
  assumes scan_print: "n < bound \<Longrightarrow> rest = [] \<or> stop (hd rest) \<Longrightarrow> scan_field (print_field n @ rest) = Some (n, rest)"
    and print_nonempty: "print_field n \<noteq> []"
begin

lemma print_inject: "n < bound \<Longrightarrow> k < bound \<Longrightarrow> print_field n = print_field k \<Longrightarrow> n = k"
  using scan_print [of n "[]"] scan_print [of k "[]"] by simp

end

lemma scan_print_hex:
  assumes n: "n < 2 ^ 64" and rest: "rest = [] \<or> hd rest = CHR '':'' \<or> hd rest = CHR 0x00"
  shows "scan_hex (print_hex w n @ rest) = Some (n, rest)"
proof -
  let ?p = "print_hex w n"
  obtain c cs where p: "?p = c # cs" using print_hex_not_empty [of w n] by (cases ?p) simp_all
  have cs: "\<exists>d < 16. x = hex_char d" if "x \<in> set (c # cs)" for x using print_hex_set [of w n] p that by auto
  obtain d where d: "d < 16" "c = hex_char d" using cs [of c] by auto
  have 1: "dropWhile is_space (?p @ rest) = ?p @ rest" using hex_char_facts [OF d(1)] d(2) p by simp
  have 2: "scan_sign (?p @ rest) = (False, ?p @ rest)" using hex_char_facts [OF d(1)] d(2) p by (simp add: scan_sign_def)
  have second: "x \<noteq> CHR ''x'' \<and> x \<noteq> CHR ''X''" if "cs @ rest = x # xs" for x xs
  proof (cases cs)
    case Nil
    with that rest show ?thesis by auto
  next
    case (Cons y ys)
    with that cs [of y] hex_char_facts show ?thesis by auto
  qed
  then have 3: "scan_prefix (?p @ rest) = ?p @ rest" by (auto simp: scan_prefix_def p split: list.splits)
  have hex: "is_hex x" if x: "x \<in> set ?p" for x
  proof -
    obtain d where "d < 16" "x = hex_char d" using cs [of x] x p by auto
    then show ?thesis by (simp add: is_hex_def hex_value_char)
  qed
  have "takeWhile is_hex rest = []" using rest by (cases rest) (auto simp: is_hex_def hex_value_def)
  with hex have 4: "takeWhile is_hex (?p @ rest) = ?p" by (simp add: takeWhile_append2)
  have "min n (2 ^ 64 - 1) = n" using n by simp
  then show ?thesis by (simp add: scan_hex_def 1 2 3 4 print_hex_not_empty print_hex_value)
qed

interpretation hex_field: text_field "print_hex w" scan_hex "2 ^ 64" "\<lambda>c. c = CHR '':'' \<or> c = CHR 0x00"
  by unfold_locales (use scan_print_hex print_hex_not_empty in auto)

section \<open>Connections as text\<close>

record ib_connection =
  ibc_lid :: u32
  ibc_qpn :: u32
  ibc_psn :: u32
  ibc_rkey :: u32
  ibc_vaddr :: u64

abbreviation colon :: string where "colon \<equiv> '':''"

definition MSG_SIZE :: nat where
  "MSG_SIZE = length ''0000:000000:000000:00000000:0000000000000000'' + 1"

definition info_text :: "ib_connection \<Rightarrow> string" where
  "info_text c = print_hex 4 (unat (ibc_lid c)) @ colon @ print_hex 6 (unat (ibc_qpn c)) @ colon
     @ print_hex 6 (unat (ibc_psn c)) @ colon @ print_hex 8 (unat (ibc_rkey c)) @ colon
     @ print_hex 16 (unat (ibc_vaddr c))"

text \<open>
  \<^verbatim>\<open>sprintf(msg, ...)\<close> into the local array of \<^const>\<open>MSG_SIZE\<close> bytes, the final zero included.
\<close>

definition sprintf_info :: "ib_connection \<Rightarrow> string res" where
  "sprintf_info c =
     (let msg = info_text c @ [CHR 0x00]
      in if length msg \<le> MSG_SIZE then Inr msg else Inl OutOfBounds)"

fun scan_fields :: "nat \<Rightarrow> string \<Rightarrow> nat list" where
  "scan_fields 0 s = []"
| "scan_fields (Suc k) s =
     (case scan_hex s of None \<Rightarrow> []
      | Some (v, r) \<Rightarrow> v # (if k = 0 then [] else case r of c # t \<Rightarrow> if c = CHR '':'' then scan_fields k t else [] | [] \<Rightarrow> []))"

text \<open>
  \<^verbatim>\<open>sscanf(msg, "%x:%x:%x:%x:%Lx", ...)\<close>: the bytes up to the zero are scanned; a message without
  a zero is read past its end. \<open>None\<close> stands for fewer than five assigned fields.
\<close>

definition sscanf_info :: "string \<Rightarrow> ib_connection option res" where
  "sscanf_info msg =
     (if CHR 0x00 \<notin> set msg then Inl OutOfBounds
      else case scan_fields 5 (takeWhile (\<lambda>c. c \<noteq> CHR 0x00) msg) of
          [l, q, p, r, v] \<Rightarrow> Inr (Some \<lparr>ibc_lid = word_of_nat l, ibc_qpn = word_of_nat q, ibc_psn = word_of_nat p,
                              ibc_rkey = word_of_nat r, ibc_vaddr = word_of_nat v\<rparr>)
        | _ \<Rightarrow> Inr None)"

lemma scan_fields_step:
  assumes "n < 2 ^ 64" "0 < k"
  shows "scan_fields (Suc k) (print_hex w n @ colon @ t) = n # scan_fields k t"
  using assms by (simp add: scan_print_hex)

lemma scan_fields_last:
  assumes "n < 2 ^ 64"
  shows "scan_fields (Suc 0) (print_hex w n) = [n]"
  using scan_print_hex [OF assms, of "[]" w] by simp

lemma unat_less_64: "unat (x :: u32) < 2 ^ 64" "unat (y :: u64) < 2 ^ 64"
proof -
  have "unat x < 2 ^ 32" using unsigned_less [of x] by simp
  then show "unat x < 2 ^ 64" by (rule less_le_trans) simp
  show "unat y < 2 ^ 64" using unsigned_less [of y] by simp
qed

lemma info_text_no_zero: "CHR 0x00 \<notin> set (info_text c)"
proof -
  have "CHR 0x00 \<notin> set (print_hex w n)" for w n
    using print_hex_set [of w n] hex_char_facts by metis
  then show ?thesis by (simp add: info_text_def)
qed

lemma scan_info_text:
  "scan_fields 5 (info_text c) = [unat (ibc_lid c), unat (ibc_qpn c), unat (ibc_psn c), unat (ibc_rkey c), unat (ibc_vaddr c)]"
proof -
  have "scan_fields (Suc (Suc (Suc (Suc (Suc 0))))) (info_text c)
      = [unat (ibc_lid c), unat (ibc_qpn c), unat (ibc_psn c), unat (ibc_rkey c), unat (ibc_vaddr c)]"
    by (simp only: info_text_def append_assoc scan_fields_step scan_fields_last unat_less_64 zero_less_Suc simp_thms)
  moreover have "(5 :: nat) = Suc (Suc (Suc (Suc (Suc 0))))" by simp
  ultimately show ?thesis by (simp only:)
qed

lemma sscanf_info_text: "sscanf_info (info_text c @ CHR 0x00 # junk) = Inr (Some c)"
proof -
  have "takeWhile (\<lambda>x. x \<noteq> CHR 0x00) (info_text c @ CHR 0x00 # junk) = info_text c"
    using info_text_no_zero [of c] by (subst takeWhile_append2) auto
  then show ?thesis by (simp add: sscanf_info_def scan_info_text)
qed

lemma info_text_length:
  "length (info_text c) + 1 = MSG_SIZE \<longleftrightarrow> unat (ibc_lid c) < 2 ^ 16 \<and> unat (ibc_qpn c) < 2 ^ 24 \<and> unat (ibc_psn c) < 2 ^ 24"
  "MSG_SIZE \<le> length (info_text c) + 1"
proof -
  have w: "length (print_hex w n) = w \<longleftrightarrow> n < 16 ^ w" "w \<le> length (print_hex w n)" if "0 < w" for w n
    using hex_digits_length [OF that, of n] by (auto simp: print_hex_length)
  have "length (print_hex 8 (unat (ibc_rkey c))) = 8" using w(1) [of 8 "unat (ibc_rkey c)"] unsigned_less [of "ibc_rkey c"] by simp
  moreover have "length (print_hex 16 (unat (ibc_vaddr c))) = 16" using w(1) [of 16 "unat (ibc_vaddr c)"] unsigned_less [of "ibc_vaddr c"] by simp
  ultimately have l: "length (info_text c) = 28 + length (print_hex 4 (unat (ibc_lid c))) + length (print_hex 6 (unat (ibc_qpn c)))
      + length (print_hex 6 (unat (ibc_psn c)))" by (simp add: info_text_def)
  note w4 = w [of 4 "unat (ibc_lid c)"] and q6 = w [of 6 "unat (ibc_qpn c)"] and p6 = w [of 6 "unat (ibc_psn c)"]
  have m: "MSG_SIZE = 45" by (simp add: MSG_SIZE_def)
  show "MSG_SIZE \<le> length (info_text c) + 1" using l w4(2) q6(2) p6(2) m by simp
  have "length (info_text c) + 1 = MSG_SIZE \<longleftrightarrow> length (print_hex 4 (unat (ibc_lid c))) = 4 \<and>
      length (print_hex 6 (unat (ibc_qpn c))) = 6 \<and> length (print_hex 6 (unat (ibc_psn c))) = 6"
    using l w4(2) q6(2) p6(2) m by auto
  then show "length (info_text c) + 1 = MSG_SIZE \<longleftrightarrow> unat (ibc_lid c) < 2 ^ 16 \<and> unat (ibc_qpn c) < 2 ^ 24 \<and> unat (ibc_psn c) < 2 ^ 24"
    using w4(1) q6(1) p6(1) by simp
qed

text \<open>
  C19. The text of a connection, written into the message buffer and scanned by the peer, gives the
  same connection back; the buffer holds it exactly when the local identifier has 16 bits and
  the queue pair and sequence numbers have 24, and otherwise \<^verbatim>\<open>sprintf\<close> writes past its end.
\<close>

theorem connection_text_round_trip:
  "(case sprintf_info c of
      Inr msg \<Rightarrow> length msg = MSG_SIZE \<and> sscanf_info msg = Inr (Some c)
    | Inl e \<Rightarrow> e = OutOfBounds) \<and>
   (sprintf_info c = Inl OutOfBounds \<longleftrightarrow>
      2 ^ 16 \<le> unat (ibc_lid c) \<or> 2 ^ 24 \<le> unat (ibc_qpn c) \<or> 2 ^ 24 \<le> unat (ibc_psn c))"
proof (cases "length (info_text c) + 1 = MSG_SIZE")
  case True
  then have "sprintf_info c = Inr (info_text c @ [CHR 0x00])" by (simp add: sprintf_info_def)
  moreover have "length (info_text c @ [CHR 0x00]) = MSG_SIZE" using True by simp
  ultimately show ?thesis using info_text_length(1) [of c] True sscanf_info_text [of c "[]"] by auto
next
  case False
  then have "sprintf_info c = Inl OutOfBounds" using info_text_length(2) [of c] by (simp add: sprintf_info_def)
  then show ?thesis using info_text_length(1) [of c] False by auto
qed

section \<open>The verbs library and the network\<close>

datatype qp_state = IBV_QPS_INIT | IBV_QPS_RTR | IBV_QPS_RTS

text \<open>The attributes \<^verbatim>\<open>ibv_modify_qp\<close> is called with, one constructor per mask the code uses.\<close>

datatype qp_attr =
    Attr_init (pkey_index: nat) (init_port: nat)
  | Attr_rtr (path_mtu: nat) (dest_qp_num: u32) (rq_psn: u32) (max_dest_rd_atomic: nat) (min_rnr_timer: nat)
      (dlid: u16) (service_level: nat) (rtr_port: nat)
  | Attr_rts (qp_timeout: nat) (retry_cnt: nat) (rnr_retry: nat) (sq_psn: u32) (max_rd_atomic: nat)

fun attr_state :: "qp_attr \<Rightarrow> qp_state" where
  "attr_state (Attr_init _ _) = IBV_QPS_INIT"
| "attr_state (Attr_rtr _ _ _ _ _ _ _ _) = IBV_QPS_RTR"
| "attr_state (Attr_rts _ _ _ _ _) = IBV_QPS_RTS"

record write_wr =
  ww_id :: nat
  ww_addr :: u64
  ww_length :: u32
  ww_lkey :: u32
  ww_remote_addr :: u64
  ww_rkey :: u32

text \<open>The calls into the library and the network, as the code makes them.\<close>

datatype ibcall =
    Get_device_list | First_device | Open_device | Alloc_pd | Reg_mr u64 u32 | Create_comp_channel
  | Create_recv_cq nat | Create_send_cq nat | Create_qp nat | Modify_qp qp_attr | Query_port nat
  | Post_send write_wr
  | Destroy_qp | Destroy_send_cq | Destroy_recv_cq | Destroy_comp_channel | Dereg_mr | Dealloc_pd
  | Asprintf nat | Getaddrinfo | Tcp_socket nat | Tcp_connect nat | Tcp_setsockopt | Tcp_bind | Tcp_listen nat | Tcp_accept | Malloc_remote
  | Free_buf u64 | Tcp_close int

text \<open>
  The host a process runs on: which calls succeed, and what the successful ones return. The
  received bytes and the successive contents of the buffer the client looks at are inputs too.
\<close>

record ibhost =
  succeeds :: "ibcall \<Rightarrow> bool"
  malloc_at :: "u64 option"
  memalign_at :: "u64 option"
  mr_lkey :: u32
  mr_rkey :: u32
  qp_num :: u32
  port_lid :: u16
  lrand48 :: u32
  addresses :: "nat list"
  socket_fd :: "nat \<Rightarrow> int"
  accepted_fd :: int
  write_count :: int
  received :: string
  readings :: "string list"

datatype remote = NoRemote | Freed | Remote ib_connection

record app_context =
  ctx_buf :: u64
  ctx_size :: u32
  ctx_tx_depth :: nat
  ctx_lkey :: u32
  ctx_rkey :: u32
  ctx_qpn :: u32

record app_data =
  data_port :: nat
  data_ib_port :: nat
  data_size :: u32
  data_tx_depth :: nat
  servername :: "string option"
  sockfd :: int
  local_connection :: ib_connection
  remote_connection :: remote

text \<open>A process: its two structures, the calls made so far and the lines printed.\<close>

record process =
  ctx :: app_context
  pdata :: app_data
  ib_calls :: "ibcall list"
  printed :: "string list"
  send_buf :: string
  sent :: string

definition test_call :: "ibhost \<Rightarrow> ibcall \<Rightarrow> string \<Rightarrow> process \<Rightarrow> process res" where
  "test_call h call reason s =
     (if succeeds h call then Inr (s\<lparr>ib_calls := ib_calls s @ [call]\<rparr>) else Inl (Exit reason))"

text \<open>Library calls whose result is not tested.\<close>

definition plain_call :: "ibcall \<Rightarrow> process \<Rightarrow> process" where
  "plain_call call s = s\<lparr>ib_calls := ib_calls s @ [call]\<rparr>"

definition deref_remote :: "process \<Rightarrow> ib_connection res" where
  "deref_remote s = (case remote_connection (pdata s) of
     NoRemote \<Rightarrow> Inl NullDeref | Freed \<Rightarrow> Inl UseAfterFree | Remote c \<Rightarrow> Inr c)"

section \<open>The operations\<close>

fun connect_each :: "ibhost \<Rightarrow> nat list \<Rightarrow> int \<Rightarrow> process \<Rightarrow> (int \<times> process) res" where
  "connect_each h [] fd s = Inr (fd, s)"
| "connect_each h (t # ts) fd s =
     res_bind (test_call h (Tcp_socket t) ''Could not create client socket'' s) (\<lambda>s.
     res_bind (test_call h (Tcp_connect t) ''Could not connect to server'' s) (\<lambda>s.
     connect_each h ts (socket_fd h t) s))"

definition tcp_client_connect :: "ibhost \<Rightarrow> process \<Rightarrow> (int \<times> process) res" where
  "tcp_client_connect h s =
     res_bind (test_call h (Asprintf (data_port (pdata s))) ''Error writing port-number to port-string'' s) (\<lambda>s.
     res_bind (test_call h Getaddrinfo ''getaddrinfo threw error'' s) (\<lambda>s.
     if addresses h = [] then Inl NullDeref else connect_each h (addresses h) (- 1) s))"

definition tcp_server_listen :: "ibhost \<Rightarrow> process \<Rightarrow> (int \<times> process) res" where
  "tcp_server_listen h s =
     res_bind (test_call h (Asprintf (data_port (pdata s))) ''Error writing port-number to port-string'' s) (\<lambda>s.
     res_bind (test_call h Getaddrinfo ''getaddrinfo threw error'' s) (\<lambda>s.
     if addresses h = [] then Inl NullDeref
     else
     res_bind (test_call h (Tcp_socket (hd (addresses h))) ''Could not create server socket'' s) (\<lambda>s.
     res_bind (test_call h Tcp_bind ''Could not bind addr to socket'' (plain_call Tcp_setsockopt s)) (\<lambda>s.
     res_bind (test_call h Tcp_accept ''server accept failed'' (plain_call (Tcp_listen 1) s)) (\<lambda>s. Inr (accepted_fd h, s))))))"

definition qp_change_state_init :: "ibhost \<Rightarrow> process \<Rightarrow> process res" where
  "qp_change_state_init h s =
     test_call h (Modify_qp (Attr_init 0 (data_ib_port (pdata s)))) ''Could not modify QP to INIT, ibv_modify_qp'' s"

text \<open>The part of the two context initialisers that follows the choice of the buffer.\<close>

definition init_verbs :: "ibhost \<Rightarrow> process \<Rightarrow> process res" where
  "init_verbs h s =
     res_bind (test_call h Get_device_list ''No IB-device available. get_device_list returned NULL'' s) (\<lambda>s.
     res_bind (test_call h First_device ''IB-device could not be assigned. Maybe dev_list array is empty'' s) (\<lambda>s.
     res_bind (test_call h Open_device ''Could not create context, ibv_open_device'' s) (\<lambda>s.
     res_bind (test_call h Alloc_pd ''Could not allocate protection domain, ibv_alloc_pd'' s) (\<lambda>s.
     res_bind (test_call h (Reg_mr (ctx_buf (ctx s)) (ctx_size (ctx s) * 2))
                 ''Could not allocate mr, ibv_reg_mr. Do you have root access?'' s) (\<lambda>s.
     let s = s\<lparr>ctx := (ctx s)\<lparr>ctx_lkey := mr_lkey h, ctx_rkey := mr_rkey h\<rparr>\<rparr> in
     res_bind (test_call h Create_comp_channel ''Could not create completion channel, ibv_create_comp_channel'' s) (\<lambda>s.
     res_bind (test_call h (Create_recv_cq 1) ''Could not create receive completion queue, ibv_create_cq'' s) (\<lambda>s.
     res_bind (test_call h (Create_send_cq (ctx_tx_depth (ctx s))) ''Could not create send completion queue, ibv_create_cq'' s) (\<lambda>s.
     res_bind (test_call h (Create_qp (ctx_tx_depth (ctx s))) ''Could not create queue pair, ibv_create_qp'' s) (\<lambda>s.
     qp_change_state_init h (s\<lparr>ctx := (ctx s)\<lparr>ctx_qpn := qp_num h\<rparr>\<rparr>))))))))))"

text \<open>\<^verbatim>\<open>malloc\<close> and \<^verbatim>\<open>memset\<close> of the context itself are taken to succeed.\<close>

definition init_ctx :: "ibhost \<Rightarrow> process \<Rightarrow> process res" where
  "init_ctx h s =
     (let d = pdata s;
          c = \<lparr>ctx_buf = 0, ctx_size = data_size d, ctx_tx_depth = data_tx_depth d, ctx_lkey = 0, ctx_rkey = 0, ctx_qpn = 0\<rparr>
      in case memalign_at h of
          None \<Rightarrow> Inl (Exit ''could not allocate working buffer ctx->buf'')
        | Some b \<Rightarrow> init_verbs h (s\<lparr>ctx := c\<lparr>ctx_buf := b\<rparr>\<rparr>))"

definition BUFFER_SIZE :: u32 where
  "BUFFER_SIZE = 8 * 1024 * 1024"

text \<open>
  The aligned block is allocated and its address stored into the first bytes of the caller's
  buffer, which the following \<^verbatim>\<open>memset\<close> clears: the block is lost and the buffer of the caller stays.
\<close>

definition init_ctx_with_buffer :: "ibhost \<Rightarrow> u64 \<Rightarrow> process \<Rightarrow> process res" where
  "init_ctx_with_buffer h buffer s =
     (let d = pdata s;
          c = \<lparr>ctx_buf = buffer, ctx_size = BUFFER_SIZE, ctx_tx_depth = data_tx_depth d, ctx_lkey = 0, ctx_rkey = 0, ctx_qpn = 0\<rparr>
      in case memalign_at h of
          None \<Rightarrow> Inl (Exit ''could not allocate working buffer ctx->buf'')
        | Some b \<Rightarrow> init_verbs h (s\<lparr>ctx := c\<rparr>))"

definition set_local_ib_connection :: "ibhost \<Rightarrow> process \<Rightarrow> process res" where
  "set_local_ib_connection h s =
     res_bind (test_call h (Query_port (data_ib_port (pdata s))) ''Could not get port attributes, ibv_query_port'' s) (\<lambda>s.
     let c = ctx s;
         l = \<lparr>ibc_lid = ucast (port_lid h), ibc_qpn = ctx_qpn c, ibc_psn = lrand48 h AND 0xffffff,
              ibc_rkey = ctx_rkey c, ibc_vaddr = ctx_buf c + ucast (ctx_size c)\<rparr>
     in Inr (s\<lparr>pdata := (pdata s)\<lparr>local_connection := l\<rparr>\<rparr>))"

text \<open>\<^verbatim>\<open>%#0wx\<close>: the prefix counts for the width, and zero has none.\<close>

definition print_alt :: "nat \<Rightarrow> nat \<Rightarrow> string" where
  "print_alt w n = (if n = 0 then print_hex w 0 else ''0x'' @ print_hex (w - 2) n)"

definition print_ib_connection :: "string \<Rightarrow> ib_connection \<Rightarrow> process \<Rightarrow> process" where
  "print_ib_connection name c s =
     s\<lparr>printed := printed s @ [name @ '': LID '' @ print_alt 4 (unat (ibc_lid c)) @ '', QPN '' @ print_alt 6 (unat (ibc_qpn c))
        @ '', PSN '' @ print_alt 6 (unat (ibc_psn c)) @ '' RKey '' @ print_alt 8 (unat (ibc_rkey c))
        @ '' VAddr '' @ print_alt 16 (unat (ibc_vaddr c))]\<rparr>"

text \<open>The result is the C return value: \<^verbatim>\<open>0\<close>, also when the peer's message does not parse, or \<^verbatim>\<open>-1\<close>.\<close>

definition tcp_exch_ib_connection_info :: "ibhost \<Rightarrow> process \<Rightarrow> (int \<times> process) res" where
  "tcp_exch_ib_connection_info h s =
     res_bind (sprintf_info (local_connection (pdata s))) (\<lambda>msg.
     if write_count h \<noteq> int MSG_SIZE then Inr (- 1, s)
     else
       let s = s\<lparr>sent := msg\<rparr>
       in if length (received h) \<noteq> MSG_SIZE then Inr (- 1, s)
          else
            res_bind (test_call h Malloc_remote ''Could not allocate memory for remote_connection connection'' s) (\<lambda>s.
            res_bind (sscanf_info (received h)) (\<lambda>parsed.
            Inr (0, s\<lparr>pdata := (pdata s)\<lparr>remote_connection := (case parsed of None \<Rightarrow> Freed | Some c \<Rightarrow> Remote c)\<rparr>\<rparr>))))"

definition qp_change_state_rtr :: "ibhost \<Rightarrow> process \<Rightarrow> process res" where
  "qp_change_state_rtr h s =
     res_bind (deref_remote s) (\<lambda>r.
     test_call h (Modify_qp (Attr_rtr 2048 (ibc_qpn r) (ibc_psn r) 1 12 (ucast (ibc_lid r)) 1 (data_ib_port (pdata s))))
       ''Could not modify QP to RTR state'' s)"

definition qp_change_state_rts :: "ibhost \<Rightarrow> process \<Rightarrow> process res" where
  "qp_change_state_rts h s =
     res_bind (qp_change_state_rtr h s) (\<lambda>s.
     test_call h (Modify_qp (Attr_rts 14 7 7 (ibc_psn (local_connection (pdata s))) 1)) ''Could not modify QP to RTS state'' s)"

definition RDMA_WRID :: nat where
  "RDMA_WRID = 3"

definition rdma_write :: "ibhost \<Rightarrow> process \<Rightarrow> process res" where
  "rdma_write h s =
     res_bind (deref_remote s) (\<lambda>r.
     let c = ctx s;
         wr = \<lparr>ww_id = RDMA_WRID, ww_addr = ctx_buf c, ww_length = ctx_size c, ww_lkey = ctx_lkey c,
               ww_remote_addr = ibc_vaddr r, ww_rkey = ibc_rkey r\<rparr>
     in test_call h (Post_send wr) ''ibv_post_send failed. This is bad mkay'' s)"

definition destroy_ctx :: "ibhost \<Rightarrow> process \<Rightarrow> process res" where
  "destroy_ctx h s =
     res_bind (test_call h Destroy_qp ''Could not destroy queue pair, ibv_destroy_qp'' s) (\<lambda>s.
     res_bind (test_call h Destroy_send_cq ''Could not destroy send completion queue, ibv_destroy_cq'' s) (\<lambda>s.
     res_bind (test_call h Destroy_recv_cq ''Coud not destroy receive completion queue, ibv_destroy_cq'' s) (\<lambda>s.
     res_bind (test_call h Destroy_comp_channel ''Could not destory completion channel, ibv_destroy_comp_channel'' s) (\<lambda>s.
     res_bind (test_call h Dereg_mr ''Could not de-register memory region, ibv_dereg_mr'' s) (\<lambda>s.
     res_bind (test_call h Dealloc_pd ''Could not deallocate protection domain, ibv_dealloc_pd'' s) (\<lambda>s.
     Inr (plain_call (Free_buf (ctx_buf (ctx s))) s)))))))"

section \<open>The two programs\<close>

text \<open>
  \<^verbatim>\<open>strlen(p) > 0\<close> on the current contents of the buffer, until it holds; the contents at each
  look are an input. The loop has no other exit.
\<close>

fun wait_for_text :: "string list \<Rightarrow> string list res" where
  "wait_for_text [] = Inl Blocked"
| "wait_for_text (m # ms) = (if length (c_string m) > 0 then Inr ms else wait_for_text ms)"

definition greeting :: string where
  "greeting = ''Saluton Teewurst. UiUi''"

text \<open>
  \<^verbatim>\<open>main\<close> from the local connection on, which the two programs share: the exchange of the
  connections, the work of the side the process is on, and the release of the context.
\<close>

definition tcp_open :: "ibhost \<Rightarrow> process \<Rightarrow> (int \<times> process) res" where
  "tcp_open h s =
     (if servername (pdata s) \<noteq> None then tcp_client_connect h s
      else res_bind (tcp_server_listen h s) (\<lambda>(fd, s).
             if fd < 0 then Inl (Exit ''tcp_server_listen (TCP) failed'') else Inr (fd, s)))"

definition main_exchange :: "ibhost \<Rightarrow> process \<Rightarrow> process res" where
  "main_exchange h s =
     res_bind (set_local_ib_connection h s) (\<lambda>s.
     res_bind (tcp_open h s) (\<lambda>(fd, s).
     res_bind (tcp_exch_ib_connection_info h (s\<lparr>pdata := (pdata s)\<lparr>sockfd := fd\<rparr>\<rparr>)) (\<lambda>(r, s).
     if r \<noteq> 0 then Inl (Exit ''Could not exchange connection, tcp_exch_ib_connection'')
     else
     res_bind (deref_remote s) (\<lambda>remote.
     Inr (print_ib_connection ''Remote Connection'' remote
           (print_ib_connection ''Local  Connection'' (local_connection (pdata s)) s))))))"

definition main_work :: "ibhost \<Rightarrow> process \<Rightarrow> process res" where
  "main_work h s =
     res_bind (if servername (pdata s) \<noteq> None then qp_change_state_rtr h s else qp_change_state_rts h s) (\<lambda>s.
     if servername (pdata s) = None then rdma_write h (s\<lparr>send_buf := greeting @ [CHR 0x00]\<rparr>)
     else res_bind (wait_for_text (readings h)) (\<lambda>ms.
            case ms of [] \<Rightarrow> Inl Blocked
            | m # _ \<Rightarrow> Inr (s\<lparr>printed := printed s @ [''Printing local buffer: '' @ c_string m]\<rparr>)))"

definition main_rest :: "ibhost \<Rightarrow> process \<Rightarrow> process res" where
  "main_rest h s =
     res_bind (main_exchange h s) (\<lambda>s.
     res_bind (main_work h s) (\<lambda>s.
     res_bind (destroy_ctx h s) (\<lambda>s.
     Inr (plain_call (Tcp_close (sockfd (pdata s))) s))))"

definition start_process :: "u32 \<Rightarrow> string list \<Rightarrow> process res" where
  "start_process sz args =
     (if length args > 1 then Inl (Exit (''*Error* Usage: rdma <server>'' @ [CHR 0x0A]))
      else Inr
       \<lparr>ctx = \<lparr>ctx_buf = 0, ctx_size = 0, ctx_tx_depth = 0, ctx_lkey = 0, ctx_rkey = 0, ctx_qpn = 0\<rparr>,
        pdata = \<lparr>data_port = 19765, data_ib_port = 1, data_size = sz, data_tx_depth = 100,
                 servername = (case args of [] \<Rightarrow> None | a # _ \<Rightarrow> Some a), sockfd = 0,
                 local_connection = \<lparr>ibc_lid = 0, ibc_qpn = 0, ibc_psn = 0, ibc_rkey = 0, ibc_vaddr = 0\<rparr>,
                 remote_connection = NoRemote\<rparr>,
        ib_calls = [], printed = [], send_buf = [], sent = []\<rparr>)"

text \<open>\<open>args\<close> is \<^verbatim>\<open>argv\<close> without the program's name.\<close>

definition rdma_server_main :: "ibhost \<Rightarrow> string list \<Rightarrow> process res" where
  "rdma_server_main h args =
     res_bind (start_process 65536 args) (\<lambda>s. res_bind (init_ctx h s) (main_rest h))"

definition rdma_client_main :: "ibhost \<Rightarrow> string list \<Rightarrow> process res" where
  "rdma_client_main h args =
     res_bind (start_process BUFFER_SIZE args) (\<lambda>s.
     case malloc_at h of None \<Rightarrow> Inl NullDeref
     | Some client_buf \<Rightarrow> res_bind (init_ctx_with_buffer h client_buf s) (main_rest h))"

section \<open>What a run that returns has done\<close>

lemma test_call_Inr_iff: "test_call h call r s = Inr s' \<longleftrightarrow> succeeds h call \<and> s' = plain_call call s"
  by (auto simp: test_call_def plain_call_def)

lemma plain_call_simps [simp]:
  "ctx (plain_call c s) = ctx s" "pdata (plain_call c s) = pdata s" "ib_calls (plain_call c s) = ib_calls s @ [c]"
  "printed (plain_call c s) = printed s" "send_buf (plain_call c s) = send_buf s" "sent (plain_call c s) = sent s"
  by (simp_all add: plain_call_def)

lemma print_ib_connection_simps [simp]:
  "ctx (print_ib_connection n c s) = ctx s" "pdata (print_ib_connection n c s) = pdata s"
  "ib_calls (print_ib_connection n c s) = ib_calls s" "send_buf (print_ib_connection n c s) = send_buf s"
  "sent (print_ib_connection n c s) = sent s"
  by (simp_all add: print_ib_connection_def)

lemma deref_remote_Inr_iff: "deref_remote s = Inr r \<longleftrightarrow> remote_connection (pdata s) = Remote r"
  by (cases "remote_connection (pdata s)") (simp_all add: deref_remote_def)

lemmas run_inversion = res_inversion test_call_Inr_iff deref_remote_Inr_iff

definition only_calls :: "process \<Rightarrow> process \<Rightarrow> ibcall list \<Rightarrow> bool" where
  "only_calls s s' cs \<longleftrightarrow> ctx s' = ctx s \<and> pdata s' = pdata s \<and> ib_calls s' = ib_calls s @ cs \<and>
     printed s' = printed s \<and> send_buf s' = send_buf s \<and> sent s' = sent s"

lemma connect_each_spec:
  "connect_each h ts fd s = Inr (fd', s') \<Longrightarrow>
     only_calls s s' (concat (map (\<lambda>t. [Tcp_socket t, Tcp_connect t]) ts)) \<and> fd' = (if ts = [] then fd else socket_fd h (last ts))"
proof (induction ts arbitrary: fd s)
  case Nil
  then show ?case by (simp add: only_calls_def)
next
  case (Cons t ts)
  then have "connect_each h ts (socket_fd h t) (plain_call (Tcp_connect t) (plain_call (Tcp_socket t) s)) = Inr (fd', s')"
    by (auto simp: run_inversion)
  from Cons.IH [OF this] show ?case by (auto simp: only_calls_def)
qed

lemma tcp_client_connect_spec:
  assumes "tcp_client_connect h s = Inr (fd, s')"
  shows "only_calls s s' (Asprintf (data_port (pdata s)) # Getaddrinfo # concat (map (\<lambda>t. [Tcp_socket t, Tcp_connect t]) (addresses h)))
     \<and> addresses h \<noteq> [] \<and> fd = socket_fd h (last (addresses h))"
proof -
  have ne: "addresses h \<noteq> []" using assms by (auto simp: tcp_client_connect_def run_inversion split: if_splits)
  then have "connect_each h (addresses h) (- 1) (plain_call Getaddrinfo (plain_call (Asprintf (data_port (pdata s))) s)) = Inr (fd, s')"
    using assms by (auto simp: tcp_client_connect_def run_inversion)
  from connect_each_spec [OF this] ne show ?thesis by (auto simp: only_calls_def)
qed

lemma tcp_server_listen_spec:
  assumes "tcp_server_listen h s = Inr (fd, s')"
  shows "only_calls s s' [Asprintf (data_port (pdata s)), Getaddrinfo, Tcp_socket (hd (addresses h)), Tcp_setsockopt, Tcp_bind, Tcp_listen 1, Tcp_accept]
     \<and> fd = accepted_fd h"
  using assms by (auto simp: tcp_server_listen_def run_inversion only_calls_def split: if_splits)

definition verbs_calls :: "u64 \<Rightarrow> u32 \<Rightarrow> nat \<Rightarrow> nat \<Rightarrow> ibcall list" where
  "verbs_calls b sz depth port = [Get_device_list, First_device, Open_device, Alloc_pd, Reg_mr b (sz * 2), Create_comp_channel,
     Create_recv_cq 1, Create_send_cq depth, Create_qp depth, Modify_qp (Attr_init 0 port)]"

lemma init_verbs_spec:
  assumes "init_verbs h s = Inr s'"
  shows "ctx s' = (ctx s)\<lparr>ctx_lkey := mr_lkey h, ctx_rkey := mr_rkey h, ctx_qpn := qp_num h\<rparr> \<and> pdata s' = pdata s
    \<and> ib_calls s' = ib_calls s @ verbs_calls (ctx_buf (ctx s)) (ctx_size (ctx s)) (ctx_tx_depth (ctx s)) (data_ib_port (pdata s))"
  using assms by (auto simp: init_verbs_def qp_change_state_init_def run_inversion verbs_calls_def Let_def)

definition release_calls :: "u64 \<Rightarrow> ibcall list" where
  "release_calls b = [Destroy_qp, Destroy_send_cq, Destroy_recv_cq, Destroy_comp_channel, Dereg_mr, Dealloc_pd, Free_buf b]"

lemma destroy_ctx_spec: "destroy_ctx h s = Inr s' \<Longrightarrow> only_calls s s' (release_calls (ctx_buf (ctx s)))"
  by (auto simp: destroy_ctx_def run_inversion only_calls_def release_calls_def)

definition local_of :: "ibhost \<Rightarrow> app_context \<Rightarrow> ib_connection" where
  "local_of h c = \<lparr>ibc_lid = ucast (port_lid h), ibc_qpn = ctx_qpn c, ibc_psn = lrand48 h AND 0xffffff,
     ibc_rkey = ctx_rkey c, ibc_vaddr = ctx_buf c + ucast (ctx_size c)\<rparr>"

definition rtr_of :: "ib_connection \<Rightarrow> nat \<Rightarrow> ibcall" where
  "rtr_of r port = Modify_qp (Attr_rtr 2048 (ibc_qpn r) (ibc_psn r) 1 12 (ucast (ibc_lid r)) 1 port)"

definition rts_of :: "ib_connection \<Rightarrow> ibcall" where
  "rts_of l = Modify_qp (Attr_rts 14 7 7 (ibc_psn l) 1)"

definition write_of :: "app_context \<Rightarrow> ib_connection \<Rightarrow> write_wr" where
  "write_of c r = \<lparr>ww_id = RDMA_WRID, ww_addr = ctx_buf c, ww_length = ctx_size c, ww_lkey = ctx_lkey c,
     ww_remote_addr = ibc_vaddr r, ww_rkey = ibc_rkey r\<rparr>"

lemma exchange_spec:
  assumes "tcp_exch_ib_connection_info h s = Inr (0, s')"
  shows "\<exists>p. sprintf_info (local_connection (pdata s)) = Inr (sent s') \<and> sscanf_info (received h) = Inr p \<and>
    ctx s' = ctx s \<and> ib_calls s' = ib_calls s @ [Malloc_remote] \<and>
    pdata s' = (pdata s)\<lparr>remote_connection := (case p of None \<Rightarrow> Freed | Some c \<Rightarrow> Remote c)\<rparr>"
  using assms by (auto simp: tcp_exch_ib_connection_info_def run_inversion Let_def split: if_splits)

lemma set_local_spec:
  assumes "set_local_ib_connection h s = Inr s'"
  shows "s' = plain_call (Query_port (data_ib_port (pdata s))) (s\<lparr>pdata := (pdata s)\<lparr>local_connection := local_of h (ctx s)\<rparr>\<rparr>)"
  using assms by (auto simp: set_local_ib_connection_def run_inversion Let_def plain_call_def local_of_def)

definition tcp_calls :: "ibhost \<Rightarrow> app_data \<Rightarrow> ibcall list" where
  "tcp_calls h d = Asprintf (data_port d) # Getaddrinfo #
     (if servername d \<noteq> None then concat (map (\<lambda>t. [Tcp_socket t, Tcp_connect t]) (addresses h))
      else [Tcp_socket (hd (addresses h)), Tcp_setsockopt, Tcp_bind, Tcp_listen 1, Tcp_accept])"

definition tcp_fd :: "ibhost \<Rightarrow> app_data \<Rightarrow> int" where
  "tcp_fd h d = (if servername d \<noteq> None then socket_fd h (last (addresses h)) else accepted_fd h)"

lemma tcp_open_spec:
  assumes "tcp_open h s = Inr (fd, s')"
  shows "only_calls s s' (tcp_calls h (pdata s)) \<and> fd = tcp_fd h (pdata s)"
proof (cases "servername (pdata s) = None")
  case True
  with assms have "tcp_server_listen h s = Inr (fd, s')" by (auto simp: tcp_open_def run_inversion split: if_splits)
  from tcp_server_listen_spec [OF this] True show ?thesis by (simp add: tcp_calls_def tcp_fd_def)
next
  case False
  with assms have "tcp_client_connect h s = Inr (fd, s')" by (simp add: tcp_open_def)
  from tcp_client_connect_spec [OF this] False show ?thesis by (simp add: tcp_calls_def tcp_fd_def)
qed

lemma main_exchange_spec:
  assumes run: "main_exchange h s = Inr s'"
  shows "\<exists>r. sscanf_info (received h) = Inr (Some r) \<and> sprintf_info (local_of h (ctx s)) = Inr (sent s') \<and> ctx s' = ctx s \<and>
    pdata s' = (pdata s)\<lparr>sockfd := tcp_fd h (pdata s), local_connection := local_of h (ctx s), remote_connection := Remote r\<rparr> \<and>
    ib_calls s' = ib_calls s @ Query_port (data_ib_port (pdata s)) # tcp_calls h (pdata s) @ [Malloc_remote]"
proof -
  define s1 where "s1 = plain_call (Query_port (data_ib_port (pdata s))) (s\<lparr>pdata := (pdata s)\<lparr>local_connection := local_of h (ctx s)\<rparr>\<rparr>)"
  obtain fd s2 s3 r where
    l: "tcp_open h s1 = Inr (fd, s2)" and
    x: "tcp_exch_ib_connection_info h (s2\<lparr>pdata := (pdata s2)\<lparr>sockfd := fd\<rparr>\<rparr>) = Inr (0, s3)" and
    r: "remote_connection (pdata s3) = Remote r" and
    s': "s' = print_ib_connection ''Remote Connection'' r (print_ib_connection ''Local  Connection'' (local_connection (pdata s3)) s3)"
    using run set_local_spec [of h s] unfolding s1_def
    by (auto simp: main_exchange_def run_inversion split: if_splits)
  have t: "only_calls s1 s2 (tcp_calls h (pdata s)) \<and> fd = tcp_fd h (pdata s)"
    using tcp_open_spec [OF l] by (simp add: s1_def tcp_calls_def tcp_fd_def)
  from exchange_spec [OF x] obtain p where p: "sprintf_info (local_of h (ctx s)) = Inr (sent s3)" "sscanf_info (received h) = Inr p"
      "ctx s3 = ctx s" "ib_calls s3 = ib_calls s2 @ [Malloc_remote]"
      "pdata s3 = (pdata s2)\<lparr>sockfd := fd, remote_connection := (case p of None \<Rightarrow> Freed | Some c \<Rightarrow> Remote c)\<rparr>"
    using t by (auto simp: only_calls_def s1_def)
  have "p = Some r" using p(5) r by (cases p) simp_all
  with p t s' show ?thesis by (intro exI [of _ r]) (simp add: only_calls_def s1_def)
qed

definition work_calls :: "app_context \<Rightarrow> app_data \<Rightarrow> ib_connection \<Rightarrow> ibcall list" where
  "work_calls c d r = rtr_of r (data_ib_port d) #
     (if servername d \<noteq> None then [] else [rts_of (local_connection d), Post_send (write_of c r)])"

lemma list_case_Inr_iff: "(case ms of [] \<Rightarrow> Inl e | m # t \<Rightarrow> Inr (f m)) = Inr y \<longleftrightarrow> (\<exists>m t. ms = m # t \<and> y = f m)"
  by (cases ms) auto

lemma main_work_spec:
  assumes "main_work h s = Inr s'" "remote_connection (pdata s) = Remote r"
  shows "ctx s' = ctx s \<and> pdata s' = pdata s \<and> sent s' = sent s \<and> ib_calls s' = ib_calls s @ work_calls (ctx s) (pdata s) r \<and>
    (servername (pdata s) = None \<longrightarrow> send_buf s' = greeting @ [CHR 0x00])"
  using assms
  by (auto simp: main_work_def qp_change_state_rts_def qp_change_state_rtr_def rdma_write_def run_inversion Let_def
      list_case_Inr_iff work_calls_def rtr_of_def rts_of_def write_of_def split: if_splits)

lemma main_rest_spec:
  assumes run: "main_rest h s = Inr s'"
  shows "\<exists>r. sscanf_info (received h) = Inr (Some r) \<and> sprintf_info (local_of h (ctx s)) = Inr (sent s') \<and> ctx s' = ctx s \<and>
    (servername (pdata s) = None \<longrightarrow> send_buf s' = greeting @ [CHR 0x00]) \<and>
    ib_calls s' = ib_calls s @ Query_port (data_ib_port (pdata s)) # tcp_calls h (pdata s) @ Malloc_remote #
      work_calls (ctx s) ((pdata s)\<lparr>local_connection := local_of h (ctx s)\<rparr>) r
      @ release_calls (ctx_buf (ctx s)) @ [Tcp_close (tcp_fd h (pdata s))]"
proof -
  obtain s1 s2 s3 where 1: "main_exchange h s = Inr s1" and 2: "main_work h s1 = Inr s2" and 3: "destroy_ctx h s2 = Inr s3"
    and s': "s' = plain_call (Tcp_close (sockfd (pdata s3))) s3"
    using run by (auto simp: main_rest_def run_inversion)
  from main_exchange_spec [OF 1] obtain r where
    e: "sscanf_info (received h) = Inr (Some r)" "sprintf_info (local_of h (ctx s)) = Inr (sent s1)" "ctx s1 = ctx s"
      "pdata s1 = (pdata s)\<lparr>sockfd := tcp_fd h (pdata s), local_connection := local_of h (ctx s), remote_connection := Remote r\<rparr>"
      "ib_calls s1 = ib_calls s @ Query_port (data_ib_port (pdata s)) # tcp_calls h (pdata s) @ [Malloc_remote]" by blast
  have rem: "remote_connection (pdata s1) = Remote r" using e(4) by simp
  from main_work_spec [OF 2 rem] destroy_ctx_spec [OF 3] e s' show ?thesis
    by (intro exI [of _ r]) (simp add: only_calls_def work_calls_def)
qed

lemma rdma_server_main_spec:
  assumes run: "rdma_server_main h args = Inr s'"
  shows "\<exists>b s. memalign_at h = Some b \<and> main_rest h s = Inr s' \<and>
    ctx s = \<lparr>ctx_buf = b, ctx_size = 65536, ctx_tx_depth = 100, ctx_lkey = mr_lkey h, ctx_rkey = mr_rkey h, ctx_qpn = qp_num h\<rparr> \<and>
    servername (pdata s) = (case args of [] \<Rightarrow> None | a # _ \<Rightarrow> Some a) \<and> data_ib_port (pdata s) = 1 \<and> ib_calls s = verbs_calls b 65536 100 1"
proof -
  obtain s0 s1 where 0: "start_process 65536 args = Inr s0" and 1: "init_ctx h s0 = Inr s1" and 2: "main_rest h s1 = Inr s'"
    using run by (auto simp: rdma_server_main_def run_inversion)
  obtain b where b: "memalign_at h = Some b" using 1 by (auto simp: init_ctx_def Let_def split: option.splits)
  from 1 b have v: "init_verbs h (s0\<lparr>ctx := \<lparr>ctx_buf = b, ctx_size = data_size (pdata s0), ctx_tx_depth = data_tx_depth (pdata s0),
      ctx_lkey = 0, ctx_rkey = 0, ctx_qpn = 0\<rparr>\<rparr>) = Inr s1" by (simp add: init_ctx_def Let_def)
  from init_verbs_spec [OF v] 0 2 b show ?thesis
    by (intro exI [of _ b] exI [of _ s1]) (auto simp: start_process_def split: if_splits)
qed

lemma rdma_client_main_spec:
  assumes run: "rdma_client_main h args = Inr s'"
  shows "\<exists>b s. malloc_at h = Some b \<and> main_rest h s = Inr s' \<and>
    ctx s = \<lparr>ctx_buf = b, ctx_size = BUFFER_SIZE, ctx_tx_depth = 100, ctx_lkey = mr_lkey h, ctx_rkey = mr_rkey h, ctx_qpn = qp_num h\<rparr> \<and>
    servername (pdata s) = (case args of [] \<Rightarrow> None | a # _ \<Rightarrow> Some a) \<and> data_ib_port (pdata s) = 1 \<and> ib_calls s = verbs_calls b BUFFER_SIZE 100 1"
proof -
  obtain s0 s1 b where 0: "start_process BUFFER_SIZE args = Inr s0" and b: "malloc_at h = Some b"
    and 1: "init_ctx_with_buffer h b s0 = Inr s1" and 2: "main_rest h s1 = Inr s'"
    using run by (auto simp: rdma_client_main_def run_inversion split: option.splits)
  from 1 have v: "init_verbs h (s0\<lparr>ctx := \<lparr>ctx_buf = b, ctx_size = BUFFER_SIZE, ctx_tx_depth = data_tx_depth (pdata s0),
      ctx_lkey = 0, ctx_rkey = 0, ctx_qpn = 0\<rparr>\<rparr>) = Inr s1" by (auto simp: init_ctx_with_buffer_def Let_def split: option.splits)
  from init_verbs_spec [OF v] 0 2 b show ?thesis
    by (intro exI [of _ b] exI [of _ s1]) (auto simp: start_process_def split: if_splits)
qed

section \<open>Runs on working hosts\<close>

text \<open>
  A working host: every library call succeeds, the name resolves, whole messages are written, and
  queue pair numbers have the 24 bits of the wire format.
\<close>

definition working :: "ibhost \<Rightarrow> bool" where
  "working h \<longleftrightarrow> succeeds h = (\<lambda>_. True) \<and> addresses h \<noteq> [] \<and> 0 \<le> accepted_fd h \<and> write_count h = int MSG_SIZE
     \<and> unat (qp_num h) < 2 ^ 24"

text \<open>The message a host sends for a buffer of a given place and size.\<close>

definition peer_connection :: "ibhost \<Rightarrow> u64 \<Rightarrow> u32 \<Rightarrow> ib_connection" where
  "peer_connection h b sz = \<lparr>ibc_lid = ucast (port_lid h), ibc_qpn = qp_num h, ibc_psn = lrand48 h AND 0xffffff,
     ibc_rkey = mr_rkey h, ibc_vaddr = b + ucast sz\<rparr>"

definition message_of :: "ibhost \<Rightarrow> u64 \<Rightarrow> u32 \<Rightarrow> string" where
  "message_of h b sz = info_text (peer_connection h b sz) @ [CHR 0x00]"

lemma unat_ucast_16: "unat (ucast (x :: u16) :: u32) < 2 ^ 16"
proof -
  have "unat x < 2 ^ 16" using unsigned_less [of x] by simp
  then show ?thesis by (simp add: unsigned_ucast_eq take_bit_eq_mod)
qed

lemma unat_mask_24: "unat ((x :: u32) AND 0xffffff) < 2 ^ 24"
proof -
  have "(0xffffff :: u32) = mask 24" by (simp add: mask_eq_exp_minus_1)
  then show ?thesis by (simp only: unat_and_mask) simp
qed

lemma message_facts:
  assumes "unat (qp_num h) < 2 ^ 24"
  shows "sprintf_info (peer_connection h b sz) = Inr (message_of h b sz)"
    and "length (message_of h b sz) = MSG_SIZE"
    and "sscanf_info (message_of h b sz) = Inr (Some (peer_connection h b sz))"
proof -
  have l: "length (info_text (peer_connection h b sz)) + 1 = MSG_SIZE"
    using info_text_length(1) [of "peer_connection h b sz"] assms unat_ucast_16 [of "port_lid h"] unat_mask_24 [of "lrand48 h"]
    by (simp add: peer_connection_def)
  then show "sprintf_info (peer_connection h b sz) = Inr (message_of h b sz)" "length (message_of h b sz) = MSG_SIZE"
    by (simp_all add: sprintf_info_def message_of_def peer_connection_def)
  show "sscanf_info (message_of h b sz) = Inr (Some (peer_connection h b sz))"
    using sscanf_info_text [of "peer_connection h b sz" "[]"] by (simp add: message_of_def peer_connection_def)
qed

lemma test_call_working: "working h \<Longrightarrow> test_call h c r s = Inr (plain_call c s)"
  by (simp add: test_call_Inr_iff working_def)

lemma connect_each_working: "working h \<Longrightarrow> \<exists>fd' s'. connect_each h ts fd s = Inr (fd', s')"
  by (induction ts arbitrary: fd s) (simp_all add: test_call_working)

lemma tcp_open_working:
  assumes w: "working h"
  shows "\<exists>fd s'. tcp_open h s = Inr (fd, s')"
proof -
  have "addresses h \<noteq> []" "\<not> accepted_fd h < 0" using w by (simp_all add: working_def)
  then show ?thesis using connect_each_working [OF w] w
    by (simp add: tcp_open_def tcp_client_connect_def tcp_server_listen_def test_call_working)
qed

lemma main_exchange_working:
  assumes w: "working h" and len: "length (received h) = MSG_SIZE"
    and fits: "sprintf_info (local_of h (ctx s)) = Inr m" and parse: "sscanf_info (received h) = Inr p"
  shows "case p of None \<Rightarrow> main_exchange h s = Inl UseAfterFree | Some r \<Rightarrow> \<exists>s'. main_exchange h s = Inr s'"
proof -
  have sl: "set_local_ib_connection h s = Inr (plain_call (Query_port (data_ib_port (pdata s)))
      (s\<lparr>pdata := (pdata s)\<lparr>local_connection := local_of h (ctx s)\<rparr>\<rparr>))" (is "_ = Inr ?s1")
    using w by (simp add: set_local_ib_connection_def test_call_working plain_call_def local_of_def Let_def)
  obtain fd s2 where o: "tcp_open h ?s1 = Inr (fd, s2)" using tcp_open_working [OF w] by blast
  then have loc: "local_connection (pdata s2) = local_of h (ctx s)" using tcp_open_spec [OF o] by (simp add: only_calls_def)
  have "write_count h = int MSG_SIZE" using w by (simp add: working_def)
  with loc fits len parse have x: "tcp_exch_ib_connection_info h (s2\<lparr>pdata := (pdata s2)\<lparr>sockfd := fd\<rparr>\<rparr>) =
      Inr (0, (plain_call Malloc_remote (s2\<lparr>pdata := (pdata s2)\<lparr>sockfd := fd\<rparr>, sent := m\<rparr>))
        \<lparr>pdata := (pdata s2)\<lparr>sockfd := fd, remote_connection := (case p of None \<Rightarrow> Freed | Some c \<Rightarrow> Remote c)\<rparr>\<rparr>)"
    using w by (simp add: tcp_exch_ib_connection_info_def test_call_working Let_def)
  show ?thesis by (cases p) (simp_all add: main_exchange_def sl o x deref_remote_def)
qed

lemma main_rest_working:
  assumes w: "working h" and len: "length (received h) = MSG_SIZE"
    and fits: "sprintf_info (local_of h (ctx s)) = Inr m" and parse: "sscanf_info (received h) = Inr (Some r)"
    and shown: "servername (pdata s) \<noteq> None \<Longrightarrow> wait_for_text (readings h) = Inr (x # xs)"
  shows "\<exists>s'. main_rest h s = Inr s' \<and>
    (servername (pdata s) \<noteq> None \<longrightarrow> last (printed s') = ''Printing local buffer: '' @ c_string x)"
proof -
  obtain s1 where 1: "main_exchange h s = Inr s1" using main_exchange_working [OF w len fits parse] by auto
  from main_exchange_spec [OF 1] parse have 2: "servername (pdata s1) = servername (pdata s)" "remote_connection (pdata s1) = Remote r"
    by auto
  have "\<exists>s2. main_work h s1 = Inr s2 \<and> (servername (pdata s) \<noteq> None \<longrightarrow> last (printed s2) = ''Printing local buffer: '' @ c_string x)"
    using 2 shown w by (auto simp: main_work_def qp_change_state_rts_def qp_change_state_rtr_def rdma_write_def Let_def
        test_call_working deref_remote_def)
  then obtain s2 where 3: "main_work h s1 = Inr s2" and p: "servername (pdata s) \<noteq> None \<longrightarrow> last (printed s2) = ''Printing local buffer: '' @ c_string x"
    by blast
  obtain s3 where 4: "destroy_ctx h s2 = Inr s3" using w by (simp add: destroy_ctx_def test_call_working)
  from destroy_ctx_spec [OF 4] p show ?thesis by (simp add: main_rest_def 1 3 4 only_calls_def)
qed

lemma local_of_peer: "local_of h \<lparr>ctx_buf = b, ctx_size = sz, ctx_tx_depth = d, ctx_lkey = l, ctx_rkey = mr_rkey h, ctx_qpn = qp_num h\<rparr>
    = peer_connection h b sz"
  by (simp add: local_of_def peer_connection_def)

lemma init_verbs_working: "working h \<Longrightarrow> \<exists>s'. init_verbs h s = Inr s'"
  by (simp add: init_verbs_def qp_change_state_init_def test_call_working Let_def)

definition context_of :: "ibhost \<Rightarrow> u64 \<Rightarrow> u32 \<Rightarrow> app_context" where
  "context_of h b sz = \<lparr>ctx_buf = b, ctx_size = sz, ctx_tx_depth = 100, ctx_lkey = mr_lkey h, ctx_rkey = mr_rkey h, ctx_qpn = qp_num h\<rparr>"

lemma rdma_server_start:
  assumes w: "working h" and b: "memalign_at h = Some b" and args: "length args \<le> 1"
  shows "\<exists>s. rdma_server_main h args = main_rest h s \<and> servername (pdata s) = (case args of [] \<Rightarrow> None | a # _ \<Rightarrow> Some a) \<and>
    ctx s = context_of h b 65536 \<and> ib_calls s = verbs_calls b 65536 100 1"
proof -
  obtain s0 where 0: "start_process 65536 args = Inr s0" "data_size (pdata s0) = 65536" "data_tx_depth (pdata s0) = 100"
      "data_ib_port (pdata s0) = 1" "ib_calls s0 = []" "servername (pdata s0) = (case args of [] \<Rightarrow> None | a # _ \<Rightarrow> Some a)"
    using args by (simp add: start_process_def)
  obtain s1 where 1: "init_verbs h (s0\<lparr>ctx := \<lparr>ctx_buf = b, ctx_size = data_size (pdata s0), ctx_tx_depth = data_tx_depth (pdata s0),
      ctx_lkey = 0, ctx_rkey = 0, ctx_qpn = 0\<rparr>\<rparr>) = Inr s1" using init_verbs_working [OF w] by blast
  from init_verbs_spec [OF 1] 0 b 1 show ?thesis
    by (intro exI [of _ s1]) (simp add: rdma_server_main_def init_ctx_def Let_def context_of_def)
qed

text \<open>The client's buffer comes from \<^verbatim>\<open>malloc\<close>, and the aligned allocation has to succeed too.\<close>

definition client_buffer :: "ibhost \<Rightarrow> u64 option" where
  "client_buffer h = (if memalign_at h = None then None else malloc_at h)"

lemma rdma_client_start:
  assumes w: "working h" and b: "client_buffer h = Some b" and args: "length args \<le> 1"
  shows "\<exists>s. rdma_client_main h args = main_rest h s \<and> servername (pdata s) = (case args of [] \<Rightarrow> None | a # _ \<Rightarrow> Some a) \<and>
    ctx s = context_of h b BUFFER_SIZE \<and> ib_calls s = verbs_calls b BUFFER_SIZE 100 1"
proof -
  have m: "malloc_at h = Some b" and a: "memalign_at h \<noteq> None" using b by (auto simp: client_buffer_def split: if_splits)
  obtain s0 where 0: "start_process BUFFER_SIZE args = Inr s0" "data_tx_depth (pdata s0) = 100"
      "data_ib_port (pdata s0) = 1" "ib_calls s0 = []" "servername (pdata s0) = (case args of [] \<Rightarrow> None | a # _ \<Rightarrow> Some a)"
    using args by (simp add: start_process_def)
  obtain s1 where 1: "init_verbs h (s0\<lparr>ctx := \<lparr>ctx_buf = b, ctx_size = BUFFER_SIZE, ctx_tx_depth = data_tx_depth (pdata s0),
      ctx_lkey = 0, ctx_rkey = 0, ctx_qpn = 0\<rparr>\<rparr>) = Inr s1" using init_verbs_working [OF w] by blast
  from init_verbs_spec [OF 1] 0 m 1 a show ?thesis
    by (intro exI [of _ s1]) (auto simp: rdma_client_main_def init_ctx_with_buffer_def Let_def context_of_def)
qed

section \<open>Where the write goes\<close>

definition inside :: "u64 \<Rightarrow> u32 \<Rightarrow> u64 \<Rightarrow> u32 \<Rightarrow> bool" where
  "inside addr len base sz \<longleftrightarrow> unat base \<le> unat addr \<and> unat addr + unat len \<le> unat base + unat sz"

definition posted_writes :: "process \<Rightarrow> write_wr list" where
  "posted_writes s = concat (map (\<lambda>c. case c of Post_send w \<Rightarrow> [w] | _ \<Rightarrow> []) (ib_calls s))"

definition regions :: "process \<Rightarrow> (u64 \<times> u32) list" where
  "regions s = concat (map (\<lambda>c. case c of Reg_mr b n \<Rightarrow> [(b, n)] | _ \<Rightarrow> []) (ib_calls s))"

lemma tcp_calls_no_verbs:
  "concat (map (\<lambda>c. case c of Post_send w \<Rightarrow> [w] | _ \<Rightarrow> []) (tcp_calls h d)) = []"
  "concat (map (\<lambda>c. case c of Reg_mr b n \<Rightarrow> [(b, n)] | _ \<Rightarrow> []) (tcp_calls h d)) = []"
  by (auto simp: tcp_calls_def)

lemma main_rest_traffic:
  assumes run: "main_rest h s = Inr s'" and before: "ib_calls s = verbs_calls b sz d p"
  shows "regions s' = [(b, sz * 2)]"
    "\<exists>r. sscanf_info (received h) = Inr (Some r) \<and>
       posted_writes s' = (if servername (pdata s) = None then [write_of (ctx s) r] else [])"
proof -
  obtain r where r: "sscanf_info (received h) = Inr (Some r)" and
    c: "ib_calls s' = verbs_calls b sz d p @ Query_port (data_ib_port (pdata s)) # tcp_calls h (pdata s) @ Malloc_remote #
      work_calls (ctx s) ((pdata s)\<lparr>local_connection := local_of h (ctx s)\<rparr>) r
      @ release_calls (ctx_buf (ctx s)) @ [Tcp_close (tcp_fd h (pdata s))]"
    using main_rest_spec [OF run] before by auto
  show "regions s' = [(b, sz * 2)]"
    unfolding regions_def c map_append concat_append list.map concat.simps tcp_calls_no_verbs
    by (simp add: verbs_calls_def work_calls_def release_calls_def rtr_of_def rts_of_def)
  have "posted_writes s' = (if servername (pdata s) = None then [write_of (ctx s) r] else [])"
    unfolding posted_writes_def c map_append concat_append list.map concat.simps tcp_calls_no_verbs
    by (simp add: verbs_calls_def work_calls_def release_calls_def rtr_of_def rts_of_def)
  with r show "\<exists>r. sscanf_info (received h) = Inr (Some r) \<and>
       posted_writes s' = (if servername (pdata s) = None then [write_of (ctx s) r] else [])" by blast
qed

lemma unat_second_half:
  assumes "unat (b :: u64) + unat (sz :: u32) < 2 ^ 64"
  shows "unat (b + ucast sz) = unat b + unat sz"
proof -
  have "unat sz < 2 ^ 32" using unsigned_less [of sz] by simp
  then have "unat (ucast sz :: u64) = unat sz" by (simp add: unsigned_ucast_eq take_bit_eq_mod)
  then show ?thesis using assms unat_add_no_overflow [of b "ucast sz"] by simp
qed

section \<open>The rules of the library\<close>

text \<open>
  Which objects exist and the state of the queue pair, and what the library documents about them:
  an object is released while it exists and after what depends on it, a queue pair goes through
  \<^const>\<open>IBV_QPS_INIT\<close>, \<^const>\<open>IBV_QPS_RTR\<close> and \<^const>\<open>IBV_QPS_RTS\<close> in that order, sends only in the last,
  and a buffer is not freed while it is registered.
\<close>

datatype resource = PD | MR | CH | RCQ | SCQ | QP

type_synonym verbs_state = "resource list \<times> qp_state option"

definition take_resource :: "resource \<Rightarrow> resource list \<Rightarrow> verbs_state \<Rightarrow> verbs_state option" where
  "take_resource r needs v = (if r \<notin> set (fst v) \<and> set needs \<subseteq> set (fst v) then Some (r # fst v, snd v) else None)"

definition drop_resource :: "resource \<Rightarrow> resource list \<Rightarrow> verbs_state \<Rightarrow> verbs_state option" where
  "drop_resource r users v =
     (if r \<in> set (fst v) \<and> set users \<inter> set (fst v) = {} then Some (removeAll r (fst v), if r = QP then None else snd v) else None)"

definition qp_next :: "qp_state \<Rightarrow> qp_state option" where
  "qp_next q = (case q of IBV_QPS_INIT \<Rightarrow> None | IBV_QPS_RTR \<Rightarrow> Some IBV_QPS_INIT | IBV_QPS_RTS \<Rightarrow> Some IBV_QPS_RTR)"

fun verbs_step :: "verbs_state \<Rightarrow> ibcall \<Rightarrow> verbs_state option" where
  "verbs_step v Alloc_pd = take_resource PD [] v"
| "verbs_step v (Reg_mr b n) = take_resource MR [PD] v"
| "verbs_step v Create_comp_channel = take_resource CH [] v"
| "verbs_step v (Create_recv_cq n) = take_resource RCQ [] v"
| "verbs_step v (Create_send_cq n) = take_resource SCQ [CH] v"
| "verbs_step v (Create_qp n) = take_resource QP [PD, RCQ, SCQ] v"
| "verbs_step v (Modify_qp a) =
     (if QP \<in> set (fst v) \<and> snd v = qp_next (attr_state a) then Some (fst v, Some (attr_state a)) else None)"
| "verbs_step v (Post_send w) = (if QP \<in> set (fst v) \<and> snd v = Some IBV_QPS_RTS then Some v else None)"
| "verbs_step v Destroy_qp = drop_resource QP [] v"
| "verbs_step v Destroy_send_cq = drop_resource SCQ [QP] v"
| "verbs_step v Destroy_recv_cq = drop_resource RCQ [QP] v"
| "verbs_step v Destroy_comp_channel = drop_resource CH [SCQ] v"
| "verbs_step v Dereg_mr = drop_resource MR [] v"
| "verbs_step v Dealloc_pd = drop_resource PD [MR, QP] v"
| "verbs_step v (Free_buf b) = (if MR \<in> set (fst v) then None else Some v)"
| "verbs_step v _ = Some v"

fun verbs_run :: "verbs_state \<Rightarrow> ibcall list \<Rightarrow> verbs_state option" where
  "verbs_run v [] = Some v"
| "verbs_run v (c # cs) = (case verbs_step v c of None \<Rightarrow> None | Some v' \<Rightarrow> verbs_run v' cs)"

lemma verbs_run_append: "verbs_run v (cs @ ds) = (case verbs_run v cs of None \<Rightarrow> None | Some v' \<Rightarrow> verbs_run v' ds)"
  by (induction cs arbitrary: v) (simp_all split: option.splits)

lemma verbs_run_connects: "verbs_run v (concat (map (\<lambda>t. [Tcp_socket t, Tcp_connect t]) ts)) = Some v"
  by (induction ts) simp_all

lemma verbs_run_tcp: "verbs_run v (tcp_calls h d) = Some v"
  by (simp add: tcp_calls_def verbs_run_connects)

lemma verbs_run_init: "verbs_run ([], None) (verbs_calls b n d p) = Some ([QP, SCQ, RCQ, CH, MR, PD], Some IBV_QPS_INIT)"
  by (simp add: verbs_calls_def take_resource_def qp_next_def)

lemma verbs_run_work:
  "verbs_run ([QP, SCQ, RCQ, CH, MR, PD], Some IBV_QPS_INIT) (work_calls c d r @ release_calls b @ [Tcp_close fd]) = Some ([], None)"
  by (simp add: work_calls_def release_calls_def rtr_of_def rts_of_def qp_next_def drop_resource_def)

lemma main_rest_obeys_the_library:
  assumes run: "main_rest h s = Inr s'" and before: "ib_calls s = verbs_calls b n d p"
  shows "verbs_run ([], None) (ib_calls s') = Some ([], None)"
proof -
  obtain r where c: "ib_calls s' = verbs_calls b n d p @ Query_port (data_ib_port (pdata s)) # tcp_calls h (pdata s) @ Malloc_remote #
      work_calls (ctx s) ((pdata s)\<lparr>local_connection := local_of h (ctx s)\<rparr>) r
      @ release_calls (ctx_buf (ctx s)) @ [Tcp_close (tcp_fd h (pdata s))]"
    using main_rest_spec [OF run] before by auto
  show ?thesis unfolding c by (simp add: verbs_run_append [of _ "verbs_calls b n d p"] verbs_run_append [of _ "tcp_calls h (pdata s)"]
      verbs_run_init verbs_run_tcp verbs_run_work)
qed

section \<open>The contract of the two programs\<close>

text \<open>
  What \<^verbatim>\<open>rdma_server.c\<close> and \<^verbatim>\<open>rdma_client.c\<close> have in common: a program that gets a buffer of twice
  a fixed size, opens the device over it and goes on with the shared rest of \<^verbatim>\<open>main\<close>.
\<close>

locale rdma_program =
  fixes prog :: "ibhost \<Rightarrow> string list \<Rightarrow> process res"
    and buffer_of :: "ibhost \<Rightarrow> u64 option"
    and sz :: u32
  assumes start: "working h \<Longrightarrow> buffer_of h = Some b \<Longrightarrow> length args \<le> 1 \<Longrightarrow>
      \<exists>s. prog h args = main_rest h s \<and> servername (pdata s) = (case args of [] \<Rightarrow> None | a # _ \<Rightarrow> Some a) \<and>
        ctx s = context_of h b sz \<and> ib_calls s = verbs_calls b sz 100 1"
    and started: "prog h args = Inr s' \<Longrightarrow>
      \<exists>b s. main_rest h s = Inr s' \<and> ctx_buf (ctx s) = b \<and> ib_calls s = verbs_calls b sz 100 1"
begin

lemma run:
  assumes w: "working h" and b: "buffer_of h = Some b" and args: "length args \<le> 1"
    and peer: "received h = message_of k a n" "unat (qp_num k) < 2 ^ 24"
    and shown: "args \<noteq> [] \<Longrightarrow> wait_for_text (readings h) = Inr (x # xs)"
  shows "\<exists>s. prog h args = Inr s \<and> sent s = message_of h b sz \<and> regions s = [(b, sz * 2)] \<and>
    posted_writes s = (if args = [] then [write_of (context_of h b sz) (peer_connection k a n)] else []) \<and>
    (if args = [] then send_buf s = greeting @ [CHR 0x00] else last (printed s) = ''Printing local buffer: '' @ c_string x)"
proof -
  have q: "unat (qp_num h) < 2 ^ 24" using w by (simp add: working_def)
  obtain s0 where 0: "prog h args = main_rest h s0" "servername (pdata s0) = (case args of [] \<Rightarrow> None | a # _ \<Rightarrow> Some a)"
    "ctx s0 = context_of h b sz" "ib_calls s0 = verbs_calls b sz 100 1" using start [OF w b args] by blast
  have l: "local_of h (ctx s0) = peer_connection h b sz" by (simp add: 0(3) context_of_def local_of_peer)
  then have f: "sprintf_info (local_of h (ctx s0)) = Inr (message_of h b sz)" using message_facts(1) [OF q] by simp
  obtain s where s: "main_rest h s0 = Inr s"
      "servername (pdata s0) \<noteq> None \<longrightarrow> last (printed s) = ''Printing local buffer: '' @ c_string x"
    using main_rest_working [OF w, of s0 "message_of h b sz" "peer_connection k a n" x xs] message_facts [OF peer(2)] peer(1) shown 0(2) f
    by (auto split: list.splits)
  from main_rest_spec [OF s(1)] have "servername (pdata s0) = None \<longrightarrow> send_buf s = greeting @ [CHR 0x00]"
      "sprintf_info (local_of h (ctx s0)) = Inr (sent s)" by auto
  then show ?thesis
    using main_rest_traffic [OF s(1) 0(4)] s 0 f message_facts(3) [OF peer(2)] peer(1) by (cases args) auto
qed

lemma unparsable:
  assumes w: "working h" and b: "buffer_of h = Some b" and args: "length args \<le> 1"
    and bad: "length (received h) = MSG_SIZE" "sscanf_info (received h) = Inr None"
  shows "prog h args = Inl UseAfterFree"
proof -
  have q: "unat (qp_num h) < 2 ^ 24" using w by (simp add: working_def)
  obtain s0 where 0: "prog h args = main_rest h s0" "ctx s0 = context_of h b sz" using start [OF w b args] by blast
  have "local_of h (ctx s0) = peer_connection h b sz" by (simp add: 0(2) context_of_def local_of_peer)
  then have "sprintf_info (local_of h (ctx s0)) = Inr (message_of h b sz)" using message_facts(1) [OF q] by simp
  from main_exchange_working [OF w bad(1) this bad(2)] show ?thesis by (simp add: 0(1) main_rest_def)
qed

lemma obeys: "prog h args = Inr s \<Longrightarrow> verbs_run ([], None) (ib_calls s) = Some ([], None)"
  using started [of h args s] main_rest_obeys_the_library by blast

end

interpretation server_prog: rdma_program rdma_server_main memalign_at 65536
proof
  fix h args s'
  assume "rdma_server_main h args = Inr s'"
  from rdma_server_main_spec [OF this]
  show "\<exists>b s. main_rest h s = Inr s' \<and> ctx_buf (ctx s) = b \<and> ib_calls s = verbs_calls b 65536 100 1" by auto
qed (rule rdma_server_start)

interpretation client_prog: rdma_program rdma_client_main client_buffer BUFFER_SIZE
proof
  fix h args s'
  assume "rdma_client_main h args = Inr s'"
  from rdma_client_main_spec [OF this]
  show "\<exists>b s. main_rest h s = Inr s' \<and> ctx_buf (ctx s) = b \<and> ib_calls s = verbs_calls b BUFFER_SIZE 100 1" by auto
qed (rule rdma_client_start)

lemma wait_for_text_empty: "wait_for_text (replicate k [CHR 0x00] @ ms) = wait_for_text ms"
  by (induction k) (simp_all add: c_string_def)

lemma greeting_shown: "c_string (greeting @ [CHR 0x00]) = ''Saluton Teewurst. UiUi''"
  by (simp add: c_string_def greeting_def)


text \<open>
  With the programs on the other sides, \<^verbatim>\<open>rdma_client\<close> started without a name and
  \<^verbatim>\<open>rdma_server\<close> with one, the write of eight megabytes leaves the 128 kilobytes the reader registered.
\<close>

theorem swapped_programs_write_outside_the_region:
  assumes host: "working hs" and a: "client_buffer hs = Some a" and b: "memalign_at hc = Some b"
    and room: "unat b + 131072 \<le> 2 ^ 64" and q: "unat (qp_num hc) < 2 ^ 24"
    and msg: "received hs = message_of hc b 65536"
  shows "(\<exists>s w. rdma_client_main hs [] = Inr s \<and> posted_writes s = [w] \<and> ww_rkey w = mr_rkey hc \<and>
      ww_length w = 8388608 \<and> \<not> inside (ww_remote_addr w) (ww_length w) b 131072) \<and>
    (\<forall>args c. rdma_server_main hc args = Inr c \<longrightarrow> regions c = [(b, 131072)])"
proof (intro conjI allI impI)
  obtain s where s: "rdma_client_main hs [] = Inr s"
      "posted_writes s = [write_of (context_of hs a BUFFER_SIZE) (peer_connection hc b 65536)]"
    using client_prog.run [OF host a _ msg q, of "[]"] by auto
  have "unat (b + ucast (65536 :: u32)) = unat b + 65536"
    using room unat_second_half [of b 65536] by simp
  with s show "\<exists>s w. rdma_client_main hs [] = Inr s \<and> posted_writes s = [w] \<and> ww_rkey w = mr_rkey hc \<and>
      ww_length w = 8388608 \<and> \<not> inside (ww_remote_addr w) (ww_length w) b 131072"
    by (intro exI [of _ s] exI [of _ "write_of (context_of hs a BUFFER_SIZE) (peer_connection hc b 65536)"])
      (simp add: write_of_def context_of_def peer_connection_def inside_def BUFFER_SIZE_def)
next
  fix args c
  assume "rdma_server_main hc args = Inr c"
  from rdma_server_main_spec [OF this] b obtain s where "main_rest hc s = Inr c" "ib_calls s = verbs_calls b 65536 100 1" by auto
  from main_rest_traffic(1) [OF this] show "regions c = [(b, 131072)]" by simp
qed

text \<open>
  C39. A whole message that does not parse is reported and the connection record freed, but the exchange
  still returns zero, so that both programs go on to print the freed record.
\<close>

theorem unparsable_peer_message_is_used_after_free:
  assumes "working h" "length args \<le> 1" "length (received h) = MSG_SIZE" "sscanf_info (received h) = Inr None"
  shows "(memalign_at h \<noteq> None \<longrightarrow> rdma_server_main h args = Inl UseAfterFree) \<and>
    (client_buffer h \<noteq> None \<longrightarrow> rdma_client_main h args = Inl UseAfterFree)"
  using assms server_prog.unparsable [of h _ args] client_prog.unparsable [of h _ args] by auto


text \<open>
  A client that gets a connection has opened a socket to every address of the name, one after
  the other, and keeps only the last of them.
\<close>

theorem client_connects_to_every_address:
  assumes "tcp_client_connect h s = Inr (fd, s')"
  shows "filter (\<lambda>c. \<exists>t. c = Tcp_connect t) (ib_calls s') = filter (\<lambda>c. \<exists>t. c = Tcp_connect t) (ib_calls s) @ map Tcp_connect (addresses h) \<and>
    fd = socket_fd h (last (addresses h)) \<and> \<not> (\<exists>k. Tcp_close k \<in> set (drop (length (ib_calls s)) (ib_calls s')))"
proof -
  have "filter (\<lambda>c. \<exists>t. c = Tcp_connect t) (concat (map (\<lambda>t. [Tcp_socket t, Tcp_connect t]) ts)) = map Tcp_connect ts" for ts
    by (induction ts) simp_all
  then show ?thesis using tcp_client_connect_spec [OF assms] by (auto simp: only_calls_def)
qed

section \<open>Witnesses\<close>

definition demo_ibhost :: ibhost where
  "demo_ibhost = \<lparr>succeeds = \<lambda>_. True, malloc_at = Some 0x7f0000000000, memalign_at = Some 0x7f1000000000, mr_lkey = 7, mr_rkey = 8,
     qp_num = 0x48, port_lid = 5, lrand48 = 0x12345678, addresses = [1], socket_fd = (\<lambda>_. 3), accepted_fd = 4, write_count = 45,
     received = message_of \<lparr>succeeds = \<lambda>_. True, malloc_at = None, memalign_at = None, mr_lkey = 7, mr_rkey = 8,
       qp_num = 0x48, port_lid = 5, lrand48 = 0x12345678, addresses = [], socket_fd = (\<lambda>_. 0), accepted_fd = 0, write_count = 0,
       received = [], readings = []\<rparr> 0x7f0000000000 BUFFER_SIZE,
     readings = [[CHR 0x00], greeting @ [CHR 0x00], greeting @ [CHR 0x00]]\<rparr>"

lemma message_of_cong:
  "port_lid h = port_lid k \<Longrightarrow> qp_num h = qp_num k \<Longrightarrow> lrand48 h = lrand48 k \<Longrightarrow> mr_rkey h = mr_rkey k \<Longrightarrow>
   message_of h b n = message_of k b n"
  by (simp add: message_of_def peer_connection_def)

lemma demo_working: "working demo_ibhost" "working (demo_ibhost\<lparr>received := m\<rparr>)"
  by (simp_all add: demo_ibhost_def working_def MSG_SIZE_def)

lemma demo_message: "received demo_ibhost = message_of (demo_ibhost\<lparr>received := m\<rparr>) 0x7f0000000000 BUFFER_SIZE"
  unfolding demo_ibhost_def by (simp add: message_of_def peer_connection_def)


theorem swapped_programs_write_outside_the_region_witness:
  "\<exists>s w. rdma_client_main (demo_ibhost\<lparr>received := message_of demo_ibhost 0x7f1000000000 65536\<rparr>) [] = Inr s \<and>
     posted_writes s = [w] \<and> \<not> inside (ww_remote_addr w) (ww_length w) 0x7f1000000000 131072"
proof -
  let ?c = "demo_ibhost\<lparr>received := message_of demo_ibhost 0x7f1000000000 65536\<rparr>"
  have "client_buffer ?c = Some 0x7f0000000000" "memalign_at demo_ibhost = Some 0x7f1000000000" "unat (qp_num demo_ibhost) < 2 ^ 24"
      "received ?c = message_of demo_ibhost 0x7f1000000000 65536"
    by (simp_all add: demo_ibhost_def client_buffer_def)
  from swapped_programs_write_outside_the_region [OF demo_working(2) this(1,2) _ this(3,4)] show ?thesis by auto
qed

theorem unparsable_peer_message_is_used_after_free_witness:
  "rdma_server_main (demo_ibhost\<lparr>received := replicate 45 (CHR 0x00)\<rparr>) [] = Inl UseAfterFree"
proof -
  let ?h = "demo_ibhost\<lparr>received := replicate 45 (CHR 0x00)\<rparr>"
  have "scan_hex [] = None" by (simp add: scan_hex_def scan_sign_def scan_prefix_def)
  then have "scan_fields (Suc 4) [] = []" by (simp only: scan_fields.simps option.case)
  then have "scan_fields 5 [] = []" by simp
  then have "sscanf_info (received ?h) = Inr None" by (simp add: sscanf_info_def)
  then have "memalign_at ?h \<noteq> None \<longrightarrow> rdma_server_main ?h [] = Inl UseAfterFree"
    using unparsable_peer_message_is_used_after_free [OF demo_working(2), of "[]" "replicate 45 (CHR 0x00)"] by (simp add: MSG_SIZE_def)
  then show ?thesis by (simp add: demo_ibhost_def)
qed


theorem client_connects_to_every_address_witness:
  "\<exists>s fd s'. tcp_client_connect (demo_ibhost\<lparr>addresses := [1, 2]\<rparr>) s = Inr (fd, s') \<and>
     filter (\<lambda>c. \<exists>t. c = Tcp_connect t) (ib_calls s') = [Tcp_connect 1, Tcp_connect 2]"
proof -
  let ?h = "demo_ibhost\<lparr>addresses := [1, 2]\<rparr>"
  obtain s where "start_process 65536 [''server''] = Inr s" and e: "ib_calls s = []" by (simp add: start_process_def)
  have w: "working ?h" by (simp add: demo_ibhost_def working_def MSG_SIZE_def)
  then have "addresses ?h \<noteq> []" by simp
  then have "\<exists>fd s'. tcp_client_connect ?h s = Inr (fd, s')"
    using connect_each_working [OF w] by (simp only: tcp_client_connect_def test_call_working [OF w] res_bind_simps if_False)
  then obtain fd s' where "tcp_client_connect ?h s = Inr (fd, s')" by blast
  moreover from client_connects_to_every_address [OF this] e
  have "filter (\<lambda>c. \<exists>t. c = Tcp_connect t) (ib_calls s') = [Tcp_connect 1, Tcp_connect 2]" by simp
  ultimately show ?thesis by blast
qed

end
