(* ===== verification/Rdma_Sum.thy ===== *)
theory Rdma_Sum
  imports Wire Rdma_Exchange
begin

text \<open>
  The send/receive tests (\<^verbatim>\<open>src/IB-test-case/RDMA_post_send_recv_a_plus_b\<close> and
  \<^verbatim>\<open>RDMA_post_send_recv_connect_to_infiniswap_daemon\<close>): a client that writes one number into the
  server's memory, sends another and waits for their sum; the server; and a client that waits for
  the first message of the memory server. The connection manager and the verbs library are
  parameters: what each call returns, the events, the completions and the words that arrive.
\<close>

section \<open>Calls, events and early returns\<close>

datatype cm_event_type = RDMA_CM_EVENT_ADDR_RESOLVED | RDMA_CM_EVENT_ROUTE_RESOLVED | RDMA_CM_EVENT_CONNECT_REQUEST
  | RDMA_CM_EVENT_ESTABLISHED | RDMA_CM_EVENT_OTHER

record pdata_msg =
  buf_va :: u64
  buf_rkey :: u32

record cm_event =
  ev_type :: cm_event_type
  ev_private :: "pdata_msg option"

text \<open>A posted request has its identifier, the address and length of its one buffer and the local key.\<close>

record request_sge =
  rs_id :: nat
  rs_addr :: u64
  rs_length :: nat
  rs_lkey :: u32

datatype cmcall =
    Cm_create_channel | Cm_create_id | Cm_getaddrinfo string | Cm_resolve_addr nat | Cm_resolve_route
  | Cm_bind nat | Cm_listen nat | Cm_get_event nat | Cm_ack_event
  | Cm_alloc_pd | Cm_create_channel_cq | Cm_create_cq nat | Cm_req_notify nat | Cm_calloc nat | Cm_reg_mr u64 nat bool
  | Cm_create_qp nat bool | Cm_connect | Cm_accept pdata_msg
  | Cm_post_recv request_sge | Cm_post_write request_sge u32 u64 u32 | Cm_post_send request_sge u32
  | Cm_ack_cq_events nat

text \<open>
  One turn of waiting for a completion: what \<^verbatim>\<open>ibv_get_cq_event\<close>, \<^verbatim>\<open>ibv_req_notify_cq\<close> and
  \<^verbatim>\<open>ibv_poll_cq\<close> return, and the identifier and status of the completion polled.
\<close>

record turn =
  t_event :: int
  t_notify :: int
  t_count :: int
  t_id :: nat
  t_success :: bool

record cmhost =
  cm_answer :: "cmcall \<Rightarrow> int"
  cm_event_at :: "nat \<Rightarrow> cm_event"
  cm_addrs :: "nat list"
  cm_buf :: u64
  cm_lkey :: u32
  cm_rkey :: u32
  cm_turns :: "turn list"

record sum_process =
  sp_buf :: "u32 list"
  sp_calls :: "cmcall list"
  sp_events :: nat
  sp_pdata :: pdata_msg
  sp_out :: "int list"

text \<open>A statement either faults, returns from \<^verbatim>\<open>main\<close>, or goes on.\<close>

datatype flow = Fault fault | Ret int sum_process | Next sum_process

definition flow_bind :: "flow \<Rightarrow> (sum_process \<Rightarrow> flow) \<Rightarrow> flow" where
  "flow_bind m f = (case m of Next s \<Rightarrow> f s | _ \<Rightarrow> m)"

lemma flow_bind_simps [simp]:
  "flow_bind (Next s) f = f s" "flow_bind (Ret r s) f = Ret r s" "flow_bind (Fault e) f = Fault e"
  by (simp_all add: flow_bind_def)

lemma flow_bind_Ret_iff: "flow_bind m f = Ret r s \<longleftrightarrow> m = Ret r s \<or> (\<exists>s'. m = Next s' \<and> f s' = Ret r s)"
  by (cases m) auto

definition note_call :: "cmcall \<Rightarrow> sum_process \<Rightarrow> sum_process" where
  "note_call c s = s\<lparr>sp_calls := sp_calls s @ [c]\<rparr>"

text \<open>
  The three tests of the code: \<^verbatim>\<open>if (err) return err\<close>, \<^verbatim>\<open>if (call) return 1\<close> and \<^verbatim>\<open>if (!pointer) return 1\<close>.
\<close>

definition or_err :: "cmhost \<Rightarrow> cmcall \<Rightarrow> sum_process \<Rightarrow> flow" where
  "or_err h c s = (if cm_answer h c \<noteq> 0 then Ret (cm_answer h c) (note_call c s) else Next (note_call c s))"

definition or_one :: "cmhost \<Rightarrow> cmcall \<Rightarrow> sum_process \<Rightarrow> flow" where
  "or_one h c s = (if cm_answer h c \<noteq> 0 then Ret 1 (note_call c s) else Next (note_call c s))"

definition or_null :: "cmhost \<Rightarrow> cmcall \<Rightarrow> sum_process \<Rightarrow> flow" where
  "or_null h c s = (if cm_answer h c = 0 then Ret 1 (note_call c s) else Next (note_call c s))"

definition await_cm_event :: "cmhost \<Rightarrow> cm_event_type \<Rightarrow> sum_process \<Rightarrow> flow" where
  "await_cm_event h e s =
     flow_bind (or_err h (Cm_get_event (sp_events s)) s) (\<lambda>s.
     if ev_type (cm_event_at h (sp_events s)) \<noteq> e then Ret 1 s
     else Next ((note_call Cm_ack_event s)\<lparr>sp_events := sp_events s + 1\<rparr>))"

text \<open>Waiting once for a completion, as the server does; \<open>rearm\<close> says whether the queue is armed again.\<close>

definition await_completion :: "bool \<Rightarrow> turn list \<Rightarrow> sum_process \<Rightarrow> flow" where
  "await_completion rearm ts s =
     (case ts of [] \<Rightarrow> Fault Blocked
      | t # _ \<Rightarrow>
          if t_event t \<noteq> 0 then Ret 1 s
          else if rearm \<and> t_notify t \<noteq> 0 then Ret 1 s
          else if t_count t < 1 then Ret 1 s
          else if \<not> t_success t then Ret 1 s else Next s)"

section \<open>The server of the sum\<close>

definition start_sum :: sum_process where
  "start_sum = \<lparr>sp_buf = [], sp_calls = [], sp_events = 0, sp_pdata = \<lparr>buf_va = 0, buf_rkey = 0\<rparr>, sp_out = []\<rparr>"

definition buffer_addr :: "cmhost \<Rightarrow> nat \<Rightarrow> u64" where
  "buffer_addr h n = (if cm_answer h (Cm_calloc n) = 0 then 0 else cm_buf h)"

text \<open>
  The verbs objects, the buffer of \<open>n\<close> bytes and the queue pair, as all three programs build them.
  The client of the memory server does not test the buffer and leaves the send queue out.
\<close>

definition verbs_objects :: "cmhost \<Rightarrow> nat \<Rightarrow> bool \<Rightarrow> bool \<Rightarrow> nat \<Rightarrow> bool \<Rightarrow> sum_process \<Rightarrow> flow" where
  "verbs_objects h n tested remote_access max_send_wr send_cq s =
     flow_bind (or_null h Cm_alloc_pd s) (\<lambda>s.
     flow_bind (or_null h Cm_create_channel_cq s) (\<lambda>s.
     flow_bind (or_null h (Cm_create_cq 2) s) (\<lambda>s.
     flow_bind (or_one h (Cm_req_notify 0) s) (\<lambda>s.
     flow_bind (if tested then or_null h (Cm_calloc n) s else Next (note_call (Cm_calloc n) s)) (\<lambda>s.
     flow_bind (or_null h (Cm_reg_mr (buffer_addr h n) n remote_access) (s\<lparr>sp_buf := replicate (n div 4) 0\<rparr>)) (\<lambda>s.
     or_err h (Cm_create_qp max_send_wr send_cq) s))))))"

definition reply_pdata :: "cmhost \<Rightarrow> pdata_msg" where
  "reply_pdata h = \<lparr>buf_va = ucast (htonl (ucast (cm_buf h))), buf_rkey = htonl (cm_rkey h)\<rparr>"

text \<open>
  \<open>words\<close> are the two words of the buffer when the receive has completed: the one the client
  wrote and the one it sent.
\<close>

definition sum_server_main :: "cmhost \<Rightarrow> u32 list \<Rightarrow> flow" where
  "sum_server_main h words =
     flow_bind (or_null h Cm_create_channel start_sum) (\<lambda>s.
     flow_bind (or_err h Cm_create_id s) (\<lambda>s.
     flow_bind (or_one h (Cm_bind 20079) s) (\<lambda>s.
     flow_bind (or_one h (Cm_listen 1) s) (\<lambda>s.
     flow_bind (await_cm_event h RDMA_CM_EVENT_CONNECT_REQUEST s) (\<lambda>s.
     flow_bind (verbs_objects h 8 True True 1 True s) (\<lambda>s.
     flow_bind (or_one h (Cm_post_recv \<lparr>rs_id = 0, rs_addr = cm_buf h + 4, rs_length = 4, rs_lkey = cm_lkey h\<rparr>) s) (\<lambda>s.
     flow_bind (or_one h (Cm_accept (reply_pdata h)) s) (\<lambda>s.
     flow_bind (await_cm_event h RDMA_CM_EVENT_ESTABLISHED s) (\<lambda>s.
     flow_bind (await_completion True (cm_turns h) s) (\<lambda>s.
     let word = htonl (ntohl (words ! 0) + ntohl (words ! 1));
         s = s\<lparr>sp_buf := words[0 := word]\<rparr> in
     flow_bind (or_one h (Cm_post_send \<lparr>rs_id = 0, rs_addr = cm_buf h, rs_length = 4, rs_lkey = cm_lkey h\<rparr> word) s) (\<lambda>s.
     flow_bind (await_completion False (tl (cm_turns h)) s) (\<lambda>s.
     Ret 0 (note_call (Cm_ack_cq_events 2) s)))))))))))))"

section \<open>The client of the sum\<close>

fun resolve_addrs :: "cmhost \<Rightarrow> nat list \<Rightarrow> int \<Rightarrow> sum_process \<Rightarrow> int \<times> sum_process" where
  "resolve_addrs h [] err s = (err, s)"
| "resolve_addrs h (t # ts) err s =
     (let err = cm_answer h (Cm_resolve_addr t); s = note_call (Cm_resolve_addr t) s
      in if err = 0 then (err, s) else resolve_addrs h ts err s)"

text \<open>From the event channel to the connection; the two clients differ in the port and the buffer.\<close>

definition open_connection :: "cmhost \<Rightarrow> string \<Rightarrow> nat \<Rightarrow> bool \<Rightarrow> bool \<Rightarrow> flow" where
  "open_connection h port n tested send_cq =
     flow_bind (or_null h Cm_create_channel start_sum) (\<lambda>s.
     flow_bind (or_err h Cm_create_id s) (\<lambda>s.
     let s = note_call (Cm_getaddrinfo port) s in
     if cm_answer h (Cm_getaddrinfo port) < 0 then Ret 1 s
     else let (err, s) = resolve_addrs h (cm_addrs h) 0 s in
     if err \<noteq> 0 then Ret err s
     else
     flow_bind (await_cm_event h RDMA_CM_EVENT_ADDR_RESOLVED s) (\<lambda>s.
     flow_bind (or_err h Cm_resolve_route s) (\<lambda>s.
     flow_bind (await_cm_event h RDMA_CM_EVENT_ROUTE_RESOLVED s) (\<lambda>s.
     flow_bind (verbs_objects h n tested False 2 send_cq s) (\<lambda>s.
     flow_bind (or_err h Cm_connect s) (\<lambda>s.
     let e = cm_event_at h (sp_events s) in
     flow_bind (await_cm_event h RDMA_CM_EVENT_ESTABLISHED s) (\<lambda>s.
     case ev_private e of None \<Rightarrow> Fault NullDeref | Some d \<Rightarrow> Next (s\<lparr>sp_pdata := d\<rparr>)))))))))"

text \<open>
  \<^verbatim>\<open>strtoul(s, NULL, 0)\<close>: white space, a sign, and digits in the base their prefix selects; the value
  saturates at 64 bits and is negated modulo \<open>2 ^ 64\<close>. Without digits it is zero.
\<close>

definition digit_in :: "nat \<Rightarrow> char \<Rightarrow> bool" where
  "digit_in base c = (case hex_value c of None \<Rightarrow> False | Some d \<Rightarrow> d < base)"

definition number_base :: "string \<Rightarrow> nat \<times> string" where
  "number_base s =
     (case s of
        a # b # c # t \<Rightarrow> if a = CHR ''0'' \<and> (b = CHR ''x'' \<or> b = CHR ''X'') \<and> is_hex c then (16, c # t)
                         else if a = CHR ''0'' then (8, s) else (10, s)
      | a # t \<Rightarrow> if a = CHR ''0'' then (8, s) else (10, s)
      | [] \<Rightarrow> (10, s))"

definition strtoul :: "string \<Rightarrow> nat" where
  "strtoul s =
     (let (neg, s) = scan_sign (dropWhile is_space s);
          (base, s) = number_base s;
          v = min (foldl (\<lambda>a c. base * a + the (hex_value c)) 0 (takeWhile (digit_in base) s)) (2 ^ 64 - 1)
      in if neg then (2 ^ 64 - v) mod 2 ^ 64 else v)"

text \<open>
  Reading \<^verbatim>\<open>argv\<close> without a look at \<^verbatim>\<open>argc\<close>: the entry after the last argument is a null pointer, and
  there is nothing after it. \<open>args\<close> is \<^verbatim>\<open>argv\<close> without the program's name.
\<close>

definition arg_number :: "string list \<Rightarrow> nat \<Rightarrow> nat res" where
  "arg_number args i =
     (if i < length args then Inr (strtoul (args ! i)) else if i = length args then Inl NullDeref else Inl OutOfBounds)"

fun sum_client_loop :: "turn list \<Rightarrow> u32 \<Rightarrow> sum_process \<Rightarrow> flow" where
  "sum_client_loop [] reply s = Fault Blocked"
| "sum_client_loop (t # ts) reply s =
     (if t_event t \<noteq> 0 then Ret 1 s
      else if t_notify t \<noteq> 0 then Ret 1 s
      else if t_count t \<noteq> 1 then Ret 1 s
      else if \<not> t_success t then Ret 1 s
      else if t_id t = 0
      then Ret 0 (s\<lparr>sp_buf := (sp_buf s)[0 := reply], sp_out := sp_out s @ [sint (ntohl reply)]\<rparr>)
      else sum_client_loop ts reply s)"

text \<open>\<open>reply\<close> is the word the posted receive takes into the first word of the buffer.\<close>

definition sum_client_main :: "cmhost \<Rightarrow> string list \<Rightarrow> u32 \<Rightarrow> flow" where
  "sum_client_main h args reply =
     flow_bind (open_connection h ''20079'' 8 True True) (\<lambda>s.
     flow_bind (or_one h (Cm_post_recv \<lparr>rs_id = 0, rs_addr = cm_buf h, rs_length = 4, rs_lkey = cm_lkey h\<rparr>) s) (\<lambda>s.
     case arg_number args 1 of Inl e \<Rightarrow> Fault e
     | Inr a \<Rightarrow> (case arg_number args 2 of Inl e \<Rightarrow> Fault e
     | Inr b \<Rightarrow>
     let s = s\<lparr>sp_out := sp_out s @ [sint (word_of_nat a :: u32), sint (word_of_nat b :: u32)],
               sp_buf := [htonl (word_of_nat a), htonl (word_of_nat b)]\<rparr> in
     flow_bind (or_one h (Cm_post_write \<lparr>rs_id = 1, rs_addr = cm_buf h, rs_length = 4, rs_lkey = cm_lkey h\<rparr> (htonl (word_of_nat a))
                   (ucast (ntohl (ucast (buf_va (sp_pdata s))))) (ntohl (buf_rkey (sp_pdata s)))) s) (\<lambda>s.
     flow_bind (or_one h (Cm_post_send \<lparr>rs_id = 2, rs_addr = cm_buf h + 4, rs_length = 4, rs_lkey = cm_lkey h\<rparr> (htonl (word_of_nat b))) s) (\<lambda>s.
     sum_client_loop (cm_turns h) reply s)))))"

section \<open>The client of the memory server\<close>

text \<open>The reply is the kind and the size of the message received, printed as they arrive.\<close>

definition probe_client_main :: "cmhost \<Rightarrow> message \<Rightarrow> flow" where
  "probe_client_main h msg =
     flow_bind (open_connection h ''9400'' 392 False False) (\<lambda>s.
     flow_bind (or_one h (Cm_post_recv \<lparr>rs_id = 66, rs_addr = buffer_addr h 392, rs_length = 392, rs_lkey = cm_lkey h\<rparr>) s) (\<lambda>s.
     case cm_turns h of [] \<Rightarrow> Fault Blocked
     | t # _ \<Rightarrow>
         if t_event t \<noteq> 0 then Ret 1 s
         else if t_notify t \<noteq> 0 then Ret 1 s
         else if t_count t \<noteq> 1 then Ret 1 s
         else if \<not> t_success t then Ret 1 s
         else if cm_answer h (Cm_calloc 392) = 0 then Fault NullDeref
         else Ret 0 (s\<lparr>sp_out := sp_out s @ [int (t_id t), msg_type msg, msg_size_gb msg]\<rparr>)))"

section \<open>Runs on working hosts\<close>

fun returns_pointer :: "cmcall \<Rightarrow> bool" where
  "returns_pointer Cm_create_channel = True"
| "returns_pointer Cm_alloc_pd = True"
| "returns_pointer Cm_create_channel_cq = True"
| "returns_pointer (Cm_create_cq n) = True"
| "returns_pointer (Cm_calloc n) = True"
| "returns_pointer (Cm_reg_mr b n r) = True"
| "returns_pointer _ = False"

definition cm_works :: "cmhost \<Rightarrow> bool" where
  "cm_works h \<longleftrightarrow> (\<forall>c. cm_answer h c = (if returns_pointer c then 1 else 0))"

lemma tests_work:
  assumes "cm_works h"
  shows "\<not> returns_pointer c \<Longrightarrow> or_err h c s = Next (note_call c s)"
    "\<not> returns_pointer c \<Longrightarrow> or_one h c s = Next (note_call c s)"
    "returns_pointer c \<Longrightarrow> or_null h c s = Next (note_call c s)"
    "\<not> returns_pointer c \<Longrightarrow> cm_answer h c = 0"
    "returns_pointer c \<Longrightarrow> cm_answer h c = 1"
  using assms by (simp_all add: cm_works_def or_err_def or_one_def or_null_def)

lemma note_call_simps [simp]:
  "sp_buf (note_call c s) = sp_buf s" "sp_calls (note_call c s) = sp_calls s @ [c]" "sp_events (note_call c s) = sp_events s"
  "sp_pdata (note_call c s) = sp_pdata s" "sp_out (note_call c s) = sp_out s"
  by (simp_all add: note_call_def)

lemma await_cm_event_works:
  assumes "cm_works h" "ev_type (cm_event_at h (sp_events s)) = e"
  shows "await_cm_event h e s = Next ((note_call Cm_ack_event (note_call (Cm_get_event (sp_events s)) s))\<lparr>sp_events := sp_events s + 1\<rparr>)"
  using assms by (simp add: await_cm_event_def tests_work)

definition calm :: "cmcall list \<Rightarrow> bool" where
  "calm cs \<longleftrightarrow> list_all (\<lambda>c. case c of Cm_post_write _ _ _ _ \<Rightarrow> False | Cm_post_send _ _ \<Rightarrow> False | _ \<Rightarrow> True) cs"

lemma calm_simps [simp]: "calm []" "calm (cs @ ds) \<longleftrightarrow> calm cs \<and> calm ds"
  by (simp_all add: calm_def)

lemma calm_Cons: "calm (c # cs) \<longleftrightarrow> (case c of Cm_post_write _ _ _ _ \<Rightarrow> False | Cm_post_send _ _ \<Rightarrow> False | _ \<Rightarrow> True) \<and> calm cs"
  by (simp add: calm_def)

lemma verbs_objects_works:
  assumes "cm_works h"
  shows "\<exists>s'. verbs_objects h n tested r m q s = Next s' \<and> sp_events s' = sp_events s \<and> sp_out s' = sp_out s \<and>
    (calm (sp_calls s) \<longrightarrow> calm (sp_calls s'))"
  using assms by (cases tested) (simp_all add: verbs_objects_def tests_work calm_Cons)

lemma resolve_addrs_works:
  assumes "cm_works h"
  shows "\<exists>s'. resolve_addrs h ts 0 s = (0, s') \<and> sp_events s' = sp_events s \<and> sp_out s' = sp_out s \<and>
    (calm (sp_calls s) \<longrightarrow> calm (sp_calls s'))"
  using assms by (cases ts) (simp_all add: tests_work calm_Cons)

text \<open>The events of a connection that comes up, as a client sees them.\<close>

definition connects :: "cmhost \<Rightarrow> pdata_msg \<Rightarrow> bool" where
  "connects h d \<longleftrightarrow> ev_type (cm_event_at h 0) = RDMA_CM_EVENT_ADDR_RESOLVED \<and> ev_type (cm_event_at h 1) = RDMA_CM_EVENT_ROUTE_RESOLVED
     \<and> cm_event_at h 2 = \<lparr>ev_type = RDMA_CM_EVENT_ESTABLISHED, ev_private = Some d\<rparr>"

lemma open_connection_works:
  assumes w: "cm_works h" and ev: "connects h d"
  shows "\<exists>s. open_connection h port n tested q = Next s \<and> sp_pdata s = d \<and> sp_out s = [] \<and> calm (sp_calls s)"
proof -
  let ?s = "note_call (Cm_getaddrinfo port) (note_call Cm_create_id (note_call Cm_create_channel start_sum))"
  obtain s1 where 1: "resolve_addrs h (cm_addrs h) 0 ?s = (0, s1)" "sp_events s1 = 0" "sp_out s1 = []" "calm (sp_calls s1)"
    using resolve_addrs_works [OF w, of "cm_addrs h" ?s] by (auto simp: start_sum_def calm_Cons)
  let ?s2 = "(note_call Cm_ack_event (note_call (Cm_get_event 0) s1))\<lparr>sp_events := 1\<rparr>"
  have 2: "await_cm_event h RDMA_CM_EVENT_ADDR_RESOLVED s1 = Next ?s2"
    using await_cm_event_works [OF w, of s1] 1(2) ev by (simp add: connects_def)
  let ?s3 = "(note_call Cm_ack_event (note_call (Cm_get_event 1) (note_call Cm_resolve_route ?s2)))\<lparr>sp_events := 2\<rparr>"
  have 3: "await_cm_event h RDMA_CM_EVENT_ROUTE_RESOLVED (note_call Cm_resolve_route ?s2) = Next ?s3"
    using await_cm_event_works [OF w, of "note_call Cm_resolve_route ?s2"] ev by (simp add: connects_def)
  obtain s4 where 4: "verbs_objects h n tested False 2 q ?s3 = Next s4" "sp_events s4 = 2" "sp_out s4 = []" "calm (sp_calls s4)"
    using verbs_objects_works [OF w, of n tested False 2 q ?s3] 1(3,4) by (auto simp: calm_Cons)
  have 5: "await_cm_event h RDMA_CM_EVENT_ESTABLISHED (note_call Cm_connect s4) =
      Next ((note_call Cm_ack_event (note_call (Cm_get_event 2) (note_call Cm_connect s4)))\<lparr>sp_events := 3\<rparr>)"
    using await_cm_event_works [OF w, of "note_call Cm_connect s4"] 4(2) ev by (simp add: connects_def)
  have e: "ev_private (cm_event_at h 2) = Some d" using ev by (simp add: connects_def)
  show ?thesis
    using w 3 4 by (simp add: open_connection_def tests_work 1 2 5 e calm_Cons)
qed

definition good_turn :: "nat \<Rightarrow> turn" where
  "good_turn i = \<lparr>t_event = 0, t_notify = 0, t_count = 1, t_id = i, t_success = True\<rparr>"

lemma sum_client_loop_waits:
  "0 \<notin> set ids \<Longrightarrow> sum_client_loop (map good_turn ids @ good_turn 0 # ts) reply s =
     Ret 0 (s\<lparr>sp_buf := (sp_buf s)[0 := reply], sp_out := sp_out s @ [sint (ntohl reply)]\<rparr>)"
  by (induction ids) (simp_all add: good_turn_def)

text \<open>The requests a process has posted for its peer: the words written, with address and key, and the words sent.\<close>

definition words_written :: "cmcall list \<Rightarrow> (u32 \<times> u64 \<times> u32) list" where
  "words_written cs = concat (map (\<lambda>c. case c of Cm_post_write r w a k \<Rightarrow> [(w, a, k)] | _ \<Rightarrow> []) cs)"

definition words_sent :: "cmcall list \<Rightarrow> u32 list" where
  "words_sent cs = concat (map (\<lambda>c. case c of Cm_post_send r w \<Rightarrow> [w] | _ \<Rightarrow> []) cs)"

lemma calm_words: "calm cs \<Longrightarrow> words_written cs = []" "calm cs \<Longrightarrow> words_sent cs = []"
  by (induction cs) (simp_all add: words_written_def words_sent_def calm_Cons split: cmcall.splits)

lemma words_append [simp]:
  "words_written (cs @ ds) = words_written cs @ words_written ds" "words_sent (cs @ ds) = words_sent cs @ words_sent ds"
  by (simp_all add: words_written_def words_sent_def)

abbreviation arg_word :: "string list \<Rightarrow> nat \<Rightarrow> u32" where
  "arg_word args i \<equiv> word_of_nat (strtoul (args ! i))"

lemma sum_client_works:
  assumes w: "cm_works h" and ev: "connects h d" and args: "3 \<le> length args"
    and ts: "cm_turns h = map good_turn ids @ good_turn 0 # ts" "0 \<notin> set ids"
  shows "\<exists>c. sum_client_main h args reply = Ret 0 c \<and>
    sp_out c = [sint (arg_word args 1), sint (arg_word args 2), sint (ntohl reply)] \<and>
    words_written (sp_calls c) = [(htonl (arg_word args 1), ucast (ntohl (ucast (buf_va d))), ntohl (buf_rkey d))] \<and>
    words_sent (sp_calls c) = [htonl (arg_word args 2)]"
proof -
  obtain s where s: "open_connection h ''20079'' 8 True True = Next s" "sp_pdata s = d" "sp_out s = []" "calm (sp_calls s)"
    using open_connection_works [OF w ev] by blast
  have a: "arg_number args 1 = Inr (strtoul (args ! 1))" "arg_number args 2 = Inr (strtoul (args ! 2))"
    using args by (simp_all add: arg_number_def)
  show ?thesis
    using w s(2,3) calm_words [OF s(4)] a ts
    by (simp add: sum_client_main_def s(1) tests_work Let_def sum_client_loop_waits words_written_def words_sent_def)
qed

lemma sum_server_works:
  assumes w: "cm_works h"
    and ev: "ev_type (cm_event_at h 0) = RDMA_CM_EVENT_CONNECT_REQUEST" "ev_type (cm_event_at h 1) = RDMA_CM_EVENT_ESTABLISHED"
    and ts: "cm_turns h = good_turn i # good_turn j # ts"
  shows "\<exists>s. sum_server_main h words = Ret 0 s \<and> words_sent (sp_calls s) = [htonl (ntohl (words ! 0) + ntohl (words ! 1))] \<and>
    Cm_accept (reply_pdata h) \<in> set (sp_calls s)"
proof -
  let ?s1 = "note_call (Cm_listen 1) (note_call (Cm_bind 20079) (note_call Cm_create_id (note_call Cm_create_channel start_sum)))"
  let ?s2 = "(note_call Cm_ack_event (note_call (Cm_get_event 0) ?s1))\<lparr>sp_events := 1\<rparr>"
  have 1: "await_cm_event h RDMA_CM_EVENT_CONNECT_REQUEST ?s1 = Next ?s2"
    using await_cm_event_works [OF w, of ?s1] ev by (simp add: start_sum_def)
  obtain s3 where 3: "verbs_objects h 8 True True 1 True ?s2 = Next s3" "sp_events s3 = 1" "calm (sp_calls s3)"
    using verbs_objects_works [OF w, of 8 True True 1 True ?s2] by (auto simp: start_sum_def calm_Cons)
  let ?s4 = "note_call (Cm_accept (reply_pdata h)) (note_call (Cm_post_recv \<lparr>rs_id = 0, rs_addr = cm_buf h + 4, rs_length = 4, rs_lkey = cm_lkey h\<rparr>) s3)"
  let ?s5 = "(note_call Cm_ack_event (note_call (Cm_get_event 1) ?s4))\<lparr>sp_events := 2\<rparr>"
  have 4: "await_cm_event h RDMA_CM_EVENT_ESTABLISHED ?s4 = Next ?s5"
    using await_cm_event_works [OF w, of ?s4] ev 3(2) by simp
  have 5: "await_completion True (cm_turns h) x = Next x" "await_completion False (tl (cm_turns h)) x = Next x" for x
    by (simp_all add: ts await_completion_def good_turn_def)
  show ?thesis
    using w 1 3 4 calm_words [OF 3(3)]
    by (simp add: sum_server_main_def tests_work Let_def 5 words_sent_def)
qed

section \<open>The two programs of the sum together\<close>

text \<open>
  What the server finds in its buffer: the word written to its address under its key, if any was,
  and the word sent.
\<close>

definition server_words :: "cmhost \<Rightarrow> cmcall list \<Rightarrow> u32 list" where
  "server_words hs cs = [fold (\<lambda>(w, a, k) v. if a = cm_buf hs \<and> k = cm_rkey hs then w else v) (words_written cs) 0,
     last (0 # words_sent cs)]"

definition announced_addr :: "cmhost \<Rightarrow> u64" where
  "announced_addr hs = ucast (ntohl (ucast (buf_va (reply_pdata hs))))"

lemma announced_addr_low: "announced_addr hs = cm_buf hs AND mask 32"
proof -
  have "ucast (ucast (htonl (ucast (cm_buf hs))) :: u64) = (htonl (ucast (cm_buf hs)) :: u32)"
    by (rule bit_word_eqI) (auto simp: bit_simps)
  then have "announced_addr hs = ucast (ucast (cm_buf hs) :: u32)"
    by (simp add: announced_addr_def reply_pdata_def ho32.dec_enc)
  also have "\<dots> = cm_buf hs AND mask 32" by (rule bit_word_eqI) (auto simp: bit_simps)
  finally show ?thesis .
qed

lemma announced_addr_mod: "unat (announced_addr hs) = unat (cm_buf hs) mod 2 ^ 32"
  by (simp only: announced_addr_low unat_and_mask)

lemma announced_addr_right: "announced_addr hs = cm_buf hs \<longleftrightarrow> unat (cm_buf hs) < 2 ^ 32"
  using announced_addr_mod [of hs] by (metis mod_less mod_less_divisor unsigned_word_eqI zero_less_numeral zero_less_power)

definition serves :: "cmhost \<Rightarrow> bool" where
  "serves h \<longleftrightarrow> cm_works h \<and> ev_type (cm_event_at h 0) = RDMA_CM_EVENT_CONNECT_REQUEST \<and>
     ev_type (cm_event_at h 1) = RDMA_CM_EVENT_ESTABLISHED \<and> take 2 (cm_turns h) = [good_turn 0, good_turn 0]"

lemma serves_turns: "serves h \<Longrightarrow> cm_turns h = good_turn 0 # good_turn 0 # drop 2 (cm_turns h)"
  using append_take_drop_id [of 2 "cm_turns h"] by (simp add: serves_def)

text \<open>
  C21. The client writes its first number into the server's buffer and sends the second; the server
  adds them and sends the sum back; both return zero and the client has printed the two numbers and their sum
  modulo \<open>2 ^ 32\<close>, as signed numbers, when the server's buffer lies below four gigabytes.
\<close>

theorem client_prints_the_sum:
  assumes hosts: "serves hs" "cm_works hc" and ev: "connects hc (reply_pdata hs)" and args: "3 \<le> length args"
    and ts: "cm_turns hc = map good_turn ids @ good_turn 0 # ts" "0 \<notin> set ids"
    and low: "unat (cm_buf hs) < 2 ^ 32"
  shows "\<exists>c s reply. sum_client_main hc args reply = Ret 0 c \<and> sum_server_main hs (server_words hs (sp_calls c)) = Ret 0 s \<and>
    words_sent (sp_calls s) = [reply] \<and>
    sp_out c = [sint (arg_word args 1), sint (arg_word args 2), sint (arg_word args 1 + arg_word args 2)]"
proof -
  let ?reply = "htonl (arg_word args 1 + arg_word args 2)"
  obtain c where c: "sum_client_main hc args ?reply = Ret 0 c"
    "sp_out c = [sint (arg_word args 1), sint (arg_word args 2), sint (ntohl ?reply)]"
    "words_written (sp_calls c) = [(htonl (arg_word args 1), announced_addr hs, ntohl (buf_rkey (reply_pdata hs)))]"
    "words_sent (sp_calls c) = [htonl (arg_word args 2)]"
    using sum_client_works [OF hosts(2) ev args ts] unfolding announced_addr_def by blast
  have "announced_addr hs = cm_buf hs" using low announced_addr_right by blast
  then have sw: "server_words hs (sp_calls c) = [htonl (arg_word args 1), htonl (arg_word args 2)]"
    by (simp add: server_words_def c reply_pdata_def ho32.dec_enc)
  obtain s where "sum_server_main hs (server_words hs (sp_calls c)) = Ret 0 s" "words_sent (sp_calls s) = [?reply]"
    using sum_server_works [OF _ _ _ serves_turns [OF hosts(1)], of "server_words hs (sp_calls c)"] hosts(1)
    by (auto simp: sw ho32.dec_enc serves_def)
  with c show ?thesis by (intro exI [of _ c] exI [of _ s] exI [of _ ?reply]) (simp add: ho32.dec_enc)
qed

text \<open>
  The address the client writes to is the server's address cut to 32 bits, since both sides convert it with
  the 32-bit functions: above four gigabytes it lies below the server's buffer, and the first number is lost.
\<close>

theorem high_buffer_address_is_cut:
  assumes host: "cm_works hc" and ev: "connects hc (reply_pdata hs)" and args: "3 \<le> length args"
    and ts: "cm_turns hc = map good_turn ids @ good_turn 0 # ts" "0 \<notin> set ids"
    and high: "2 ^ 32 \<le> unat (cm_buf hs)"
  shows "\<exists>c a. sum_client_main hc args reply = Ret 0 c \<and>
    words_written (sp_calls c) = [(htonl (arg_word args 1), a, cm_rkey hs)] \<and>
    unat a = unat (cm_buf hs) mod 2 ^ 32 \<and> unat a < unat (cm_buf hs) \<and> server_words hs (sp_calls c) ! 0 = 0"
proof -
  obtain c where c: "sum_client_main hc args reply = Ret 0 c"
    "words_written (sp_calls c) = [(htonl (arg_word args 1), announced_addr hs, ntohl (buf_rkey (reply_pdata hs)))]"
    using sum_client_works [OF host ev args ts] unfolding announced_addr_def by blast
  have "unat (announced_addr hs) < 2 ^ 32" using announced_addr_mod [of hs] by simp
  then have "unat (announced_addr hs) < unat (cm_buf hs)" using high by simp
  moreover have "announced_addr hs \<noteq> cm_buf hs" using high announced_addr_right [of hs] by simp
  ultimately show ?thesis using c announced_addr_mod [of hs]
    by (intro exI [of _ c] exI [of _ "announced_addr hs"]) (simp add: server_words_def reply_pdata_def ho32.dec_enc)
qed

text \<open>
  The client does not look at the number of its arguments: with one number it dereferences the
  null pointer at the end of the argument list, and without any it reads past it, after the connection is up.
\<close>

theorem missing_arguments_fault:
  assumes w: "cm_works h" and ev: "connects h d" and args: "length args < 3"
  shows "sum_client_main h args reply = Fault (if args = [] then OutOfBounds else NullDeref)"
proof -
  obtain s where s: "open_connection h ''20079'' 8 True True = Next s" using open_connection_works [OF w ev] by blast
  consider "args = []" | "length args = 1" | "length args = 2"
    using args by (metis One_nat_def Suc_1 less_2_cases_iff length_0_conv less_Suc_eq numeral_3_eq_3)
  then show ?thesis
    using w by cases (auto simp: sum_client_main_def s tests_work arg_number_def)
qed

text \<open>The first message of the memory server, its free size, is what the third program prints.\<close>

lemma probe_prints_the_message:
  assumes w: "cm_works h" and ev: "connects h d" and ts: "cm_turns h = good_turn 66 # ts"
  shows "\<exists>c. probe_client_main h msg = Ret 0 c \<and> sp_out c = [66, msg_type msg, msg_size_gb msg]"
proof -
  obtain s where s: "open_connection h ''9400'' 392 False False = Next s" "sp_out s = []" using open_connection_works [OF w ev] by blast
  show ?thesis using w s by (simp add: probe_client_main_def tests_work ts good_turn_def)
qed

section \<open>Witnesses for the sum\<close>

definition demo_cm :: "u64 \<Rightarrow> cmhost" where
  "demo_cm b = \<lparr>cm_answer = (\<lambda>c. if returns_pointer c then 1 else 0),
     cm_event_at = (\<lambda>n. \<lparr>ev_type = (if n = 0 then RDMA_CM_EVENT_CONNECT_REQUEST else RDMA_CM_EVENT_ESTABLISHED), ev_private = None\<rparr>),
     cm_addrs = [], cm_buf = b, cm_lkey = 1, cm_rkey = 2, cm_turns = [good_turn 0, good_turn 0]\<rparr>"

definition demo_cm_client :: "pdata_msg \<Rightarrow> cmhost" where
  "demo_cm_client d = \<lparr>cm_answer = (\<lambda>c. if returns_pointer c then 1 else 0),
     cm_event_at = (\<lambda>n. \<lparr>ev_type = (if n = 0 then RDMA_CM_EVENT_ADDR_RESOLVED else if n = 1 then RDMA_CM_EVENT_ROUTE_RESOLVED
        else RDMA_CM_EVENT_ESTABLISHED), ev_private = Some d\<rparr>),
     cm_addrs = [4], cm_buf = 0x1000, cm_lkey = 1, cm_rkey = 2, cm_turns = [good_turn 2, good_turn 0]\<rparr>"

lemma demo_cm_facts:
  "serves (demo_cm b)" "cm_works (demo_cm_client d)" "connects (demo_cm_client d) d"
  "cm_turns (demo_cm_client d) = map good_turn [2] @ good_turn 0 # []" "cm_buf (demo_cm b) = b" "cm_rkey (demo_cm b) = 2"
  by (simp_all add: demo_cm_def demo_cm_client_def serves_def cm_works_def connects_def)

lemma demo_numbers: "strtoul ''40'' = 40" "strtoul ''2'' = 2"
  by (simp_all add: strtoul_def number_base_def scan_sign_def is_space_def digit_in_def hex_value_def)

theorem client_prints_the_sum_witness:
  "\<exists>c s reply. sum_client_main (demo_cm_client (reply_pdata (demo_cm 0x2000))) [''host'', ''40'', ''2''] reply = Ret 0 c \<and>
     sum_server_main (demo_cm 0x2000) (server_words (demo_cm 0x2000) (sp_calls c)) = Ret 0 s \<and>
     words_sent (sp_calls s) = [reply] \<and> sp_out c = [40, 2, 42]"
  using client_prints_the_sum [OF demo_cm_facts(1) demo_cm_facts(2,3) _ demo_cm_facts(4), of "[''host'', ''40'', ''2'']" "0x2000"]
  by (simp add: demo_cm_facts demo_numbers)

theorem high_buffer_address_is_cut_witness:
  "\<exists>c a. sum_client_main (demo_cm_client (reply_pdata (demo_cm 0x100002000))) [''host'', ''40'', ''2''] 7 = Ret 0 c \<and>
     words_written (sp_calls c) = [(htonl 40, a, 2)] \<and> unat a = 0x2000 \<and>
     server_words (demo_cm 0x100002000) (sp_calls c) ! 0 = 0"
  using high_buffer_address_is_cut [OF demo_cm_facts(2,3) _ demo_cm_facts(4), of "[''host'', ''40'', ''2'']" "demo_cm 0x100002000" 7]
  by (simp add: demo_cm_facts demo_numbers) blast

theorem missing_arguments_fault_witness:
  "sum_client_main (demo_cm_client d) [''host'', ''40''] 7 = Fault NullDeref"
  using missing_arguments_fault [OF demo_cm_facts(2,3), of "[''host'', ''40'']"] by simp

end
