(* ===== verification/Ib_Device.thy ===== *)
theory Ib_Device
  imports Prelude
begin

text \<open>
  The program that opens the first InfiniBand device and prints its limits
  (\<^verbatim>\<open>src/IB-test-case/Check_IB_device/client.c\<close>). The library is a parameter: the list it returns, with a null pointer
  behind its last device, and the answers of its calls.
\<close>

record device_attr =
  max_mr_size :: u64
  max_qp :: u32
  max_qp_wr :: u32
  max_sge :: u32

record ib_library =
  il_devices :: "u64 list option"
  il_open :: "u64 \<Rightarrow> u64"
  il_malloc :: bool
  il_query :: "u64 \<Rightarrow> int \<times> device_attr"
  il_close :: "u64 \<Rightarrow> int"

datatype device_event =
    List_failed
  | Open_failed u64
  | Opened u64
  | Query_failed
  | Limits u64 u32 u32 u32
  | Closed u64
  | Close_failed u64

text \<open>The device whose name is printed is that of the list, or that of the context once it is open.\<close>

definition check_device_main :: "ib_library \<Rightarrow> (int \<times> device_event list) res" where
  "check_device_main l =
     (case il_devices l of
        None \<Rightarrow> Inr (- 1, [List_failed])
      | Some device_list \<Rightarrow>
          let device = (device_list @ [0]) ! 0; ctx = il_open l device in
          if ctx = 0 then Inr (- 1, [Open_failed device])
          else if \<not> il_malloc l then Inl NullDeref
          else let (ret, attr) = il_query l ctx in
            if ret \<noteq> 0 then Inr (- 1, [Opened device, Query_failed])
            else let shown = [Opened device, Limits (max_mr_size attr) (max_qp attr) (max_qp_wr attr) (max_sge attr)];
                     ret = il_close l ctx
                 in Inr (ret, shown @ [if ret = 0 then Closed ctx else Close_failed device]))"

text \<open>
  The program returns zero exactly when it has printed the limits the library reports for the first device and has closed it again. A
  device that does not answer the query stays open, and an empty list is not told from one with devices: the library is asked to open the null pointer.
\<close>

lemma check_device_returns_zero:
  assumes "check_device_main l = Inr (0, out)"
  shows "\<exists>ds a. il_devices l = Some ds \<and> il_query l (il_open l ((ds @ [0]) ! 0)) = (0, a) \<and>
    out = [Opened ((ds @ [0]) ! 0), Limits (max_mr_size a) (max_qp a) (max_qp_wr a) (max_sge a), Closed (il_open l ((ds @ [0]) ! 0))]"
  using assms by (auto simp: check_device_main_def Let_def split: option.splits if_splits prod.splits)

lemma failed_query_leaves_the_device_open:
  assumes "il_devices l = Some (d # ds)" "il_open l d \<noteq> 0" "il_malloc l" "fst (il_query l (il_open l d)) \<noteq> 0"
  shows "check_device_main l = Inr (- 1, [Opened d, Query_failed])"
  using assms by (simp add: check_device_main_def Let_def split_def)

lemma empty_list_opens_null: "il_devices l = Some [] \<Longrightarrow> il_open l 0 = 0 \<Longrightarrow> check_device_main l = Inr (- 1, [Open_failed 0])"
  by (simp add: check_device_main_def)

end
