(* ===== verification/Method_Instrument.thy ===== *)
theory Method_Instrument
  imports Prelude
begin

text \<open>
  The agents of the Java virtual machine (\<^verbatim>\<open>src/jvmti\<close>). The one that rewrites classes scans the
  descriptor of every method, and inserts at the front of its code a call that passes the first
  five object parameters to a prefetch function. The class file library and the virtual machine are parameters: what
  they return is an argument, and the calls the agent makes are the result. The model follows the
  build without the debug macros, as the header leaves them undefined.
\<close>

section \<open>Instructions and calls of the class file library\<close>

datatype instr = Aload_0 | Aload_1 | Aload_2 | Aload_3 | Aload u8 | Aconst_null | Sipush u16 | Invokestatic u16

datatype lib_call = Set_max_stack nat | Create_front_inserter | Insert instr | Sync | Fix_offsets

text \<open>A method as the library presents it; \<open>m_code\<close> is the declared stack depth of its code, if it has any.\<close>

record jmethod =
  m_name :: string
  m_descriptor :: string
  m_static :: bool
  m_code :: "nat option"

definition PARAM_NUM :: nat where
  "PARAM_NUM = 5"

section \<open>Scanning a descriptor\<close>

definition function_filtered :: "jmethod \<Rightarrow> bool" where
  "function_filtered m =
     (if m_name m = ''<clinit>'' \<or> m_name m = ''<init>'' \<or> m_name m = ''main'' then True
      else if m_name m = ''linkToTargetMethod'' then True else False)"

definition is_primive_type :: "char \<Rightarrow> bool" where
  "is_primive_type c \<longleftrightarrow> c \<in> set ''SIFZBCJD''"

text \<open>The two loops \<^verbatim>\<open>do i++ while (...)\<close>: over the brackets of an array, and up to the semicolon.\<close>

function skip_brackets :: "string \<Rightarrow> nat \<Rightarrow> nat res" where
  "skip_brackets d i =
     (if Suc i < length d then if d ! Suc i = CHR ''['' then skip_brackets d (Suc i) else Inr (Suc i)
      else Inl OutOfBounds)"
  by auto
termination by (relation "measure (\<lambda>(d, i). length d - i)") auto

function skip_name :: "string \<Rightarrow> nat \<Rightarrow> nat res" where
  "skip_name d i =
     (if Suc i < length d then if d ! Suc i \<noteq> CHR '';'' then skip_name d (Suc i) else Inr (Suc i)
      else Inl OutOfBounds)"
  by auto
termination by (relation "measure (\<lambda>(d, i). length d - i)") auto

definition parse_object_array :: "string \<Rightarrow> nat \<Rightarrow> (bool \<times> nat) res" where
  "parse_object_array d i =
     res_bind (skip_brackets d i) (\<lambda>i.
     if is_primive_type (d ! i) then Inr (False, i)
     else res_bind (skip_name d i) (\<lambda>i. Inr (True, i)))"

definition parse_object_instance :: "string \<Rightarrow> nat \<Rightarrow> (bool \<times> nat) res" where
  "parse_object_instance d i = res_bind (skip_name d (i + 1)) (\<lambda>i. Inr (True, i))"

definition insert_reference_load_instruction :: "u8 \<Rightarrow> u8 \<Rightarrow> instr" where
  "insert_reference_load_instruction param_count non_static_local_val_offset =
     (let local_val_index = param_count + non_static_local_val_offset in
      if local_val_index = 0 then Aload_0
      else if local_val_index = 1 then Aload_1
      else if local_val_index = 2 then Aload_2
      else if local_val_index = 3 then Aload_3
      else Aload local_val_index)"

record scan =
  sc_i :: nat
  param_count :: u8
  inserted_obj_ref_count :: u16
  obj_ref :: bool
  obj_array :: bool
  sc_calls :: "lib_call list"

text \<open>What an object parameter leaves behind: the load of its slot and one more reference counted.\<close>

definition push_reference :: "u8 \<Rightarrow> scan \<Rightarrow> scan" where
  "push_reference off s =
     s\<lparr>sc_calls := sc_calls s @ [Insert (insert_reference_load_instruction (param_count s) off)],
       inserted_obj_ref_count := inserted_obj_ref_count s + 1\<rparr>"

definition scan_array :: "u8 \<Rightarrow> string \<Rightarrow> scan \<Rightarrow> scan res" where
  "scan_array off d s =
     res_bind (parse_object_array d (sc_i s)) (\<lambda>(found, i).
     let s = s\<lparr>sc_i := i, obj_array := found\<rparr>;
         s = (if obj_array s then (push_reference off s)\<lparr>obj_array := False\<rparr> else s)
     in Inr (s\<lparr>param_count := param_count s + 1\<rparr>))"

definition scan_instance :: "u8 \<Rightarrow> string \<Rightarrow> scan \<Rightarrow> scan res" where
  "scan_instance off d s =
     res_bind (parse_object_instance d (sc_i s)) (\<lambda>(found, i).
     let s = s\<lparr>sc_i := i, obj_ref := found\<rparr>;
         s = (if obj_ref s then (push_reference off s)\<lparr>obj_ref := False\<rparr> else s)
     in Inr (s\<lparr>param_count := param_count s + 1\<rparr>))"

definition scan_primitive :: "char \<Rightarrow> scan \<Rightarrow> scan" where
  "scan_primitive c s =
     (if (obj_ref s \<or> obj_array s) = False
      then if c = CHR ''D'' then s\<lparr>param_count := param_count s + 2\<rparr>
           else if c = CHR ''J'' then s\<lparr>param_count := param_count s + 2\<rparr>
           else if c \<in> set ''ISFZCB'' then s\<lparr>param_count := param_count s + 1\<rparr>
           else s
      else s)"

text \<open>One turn of the loop over the descriptor; the flag is \<^verbatim>\<open>break\<close>.\<close>

definition scan_step :: "u8 \<Rightarrow> string \<Rightarrow> scan \<Rightarrow> (bool \<times> scan) res" where
  "scan_step off d s =
     res_bind (array_get d (sc_i s)) (\<lambda>c.
     if c = CHR ''['' then res_bind (scan_array off d s) (\<lambda>s. Inr (False, s))
     else if c = CHR ''L'' \<and> d ! (sc_i s - 1) \<noteq> CHR ''['' then res_bind (scan_instance off d s) (\<lambda>s. Inr (False, s))
     else Inr (c = CHR '')'', scan_primitive c s))"

lemma skip_brackets_less: "skip_brackets d i = Inr j \<Longrightarrow> i < j \<and> j < length d"
  by (induction d i rule: skip_brackets.induct) (force split: if_splits)

lemma skip_name_less: "skip_name d i = Inr j \<Longrightarrow> i < j \<and> j < length d"
  by (induction d i rule: skip_name.induct) (force split: if_splits)

declare skip_brackets.simps [simp del] skip_name.simps [simp del]

lemma scan_primitive_i [simp]: "sc_i (scan_primitive c s) = sc_i s"
  by (simp add: scan_primitive_def)

lemma push_reference_i [simp]: "sc_i (push_reference off s) = sc_i s"
  by (simp add: push_reference_def)

lemma scan_step_advances: "scan_step off d s = Inr (b, s') \<Longrightarrow> sc_i s \<le> sc_i s'"
  by (auto simp: scan_step_def scan_array_def scan_instance_def parse_object_array_def parse_object_instance_def
      res_inversion Let_def split: if_splits dest!: skip_brackets_less skip_name_less)

function scan_loop :: "u8 \<Rightarrow> string \<Rightarrow> scan \<Rightarrow> scan res" where
  "scan_loop off d s =
     (if sc_i s < length d \<and> unat (inserted_obj_ref_count s) < PARAM_NUM
      then (case scan_step off d s of Inl e \<Rightarrow> Inl e
            | Inr (stop, s') \<Rightarrow> if stop then Inr s' else scan_loop off d (s'\<lparr>sc_i := sc_i s' + 1\<rparr>))
      else Inr s)"
  by auto
termination
  by (relation "measure (\<lambda>(off, d, s). length d - sc_i s)") (auto dest!: scan_step_advances)

declare scan_loop.simps [simp del]

section \<open>Instrumenting methods and classes\<close>

text \<open>
  After the insertions the library is asked to settle the offsets until it reports no change:
  \<open>changed k\<close> is its answer to the question number \<open>k\<close>. The loop need not end.
\<close>

partial_function (option) fix_offsets_loop :: "(nat \<Rightarrow> bool) \<Rightarrow> nat \<Rightarrow> lib_call list \<Rightarrow> lib_call list option" where
  "fix_offsets_loop changed k cs =
     (if changed k then fix_offsets_loop changed (Suc k) (cs @ [Fix_offsets, Sync]) else Some (cs @ [Fix_offsets]))"

definition start_scan :: "nat \<Rightarrow> scan" where
  "start_scan max_stack =
     \<lparr>sc_i = 1, param_count = 0, inserted_obj_ref_count = 0, obj_ref = False, obj_array = False,
      sc_calls = [Set_max_stack (max_stack + 6), Create_front_inserter]\<rparr>"

definition finish_call :: "u16 \<Rightarrow> scan \<Rightarrow> lib_call list" where
  "finish_call prefetch_method_index s =
     sc_calls s @ map (\<lambda>i. Insert Aconst_null) [unat (inserted_obj_ref_count s)..<PARAM_NUM]
     @ [Insert (Sipush (inserted_obj_ref_count s)), Insert (Invokestatic prefetch_method_index)]"

definition instrument_method :: "(nat \<Rightarrow> bool) \<Rightarrow> u16 \<Rightarrow> jmethod \<Rightarrow> lib_call list res" where
  "instrument_method changed prefetch_method_index m =
     (let d = m_descriptor m in
      if function_filtered m then Inr []
      else res_bind (array_get d 1) (\<lambda>c.
      if c = CHR '')'' then Inr []
      else (case m_code m of None \<Rightarrow> Inr []
        | Some max_stack \<Rightarrow>
            res_bind (scan_loop (if m_static m = False then 1 else 0) d (start_scan max_stack)) (\<lambda>s.
            if inserted_obj_ref_count s = 0 then Inr (sc_calls s)
            else (case fix_offsets_loop changed 0 (finish_call prefetch_method_index s @ [Sync]) of
                    None \<Rightarrow> Inl Blocked | Some cs \<Rightarrow> Inr cs)))))"

text \<open>
  A class as the library reads it: how many bytes it consumed, the index of the prefetch function
  in the constant pool, the methods, and the size of the class once the calls are carried out.
\<close>

record jclass =
  cf_consumed :: nat
  cf_methodref :: u16
  cf_methods :: "jmethod list"
  cf_byte_size :: "lib_call list list \<Rightarrow> u32"

fun instrument_methods :: "(nat \<Rightarrow> nat \<Rightarrow> bool) \<Rightarrow> u16 \<Rightarrow> nat \<Rightarrow> jmethod list \<Rightarrow> lib_call list list res" where
  "instrument_methods changed idx n [] = Inr []"
| "instrument_methods changed idx n (m # ms) =
     res_bind (instrument_method (changed n) idx m) (\<lambda>cs.
     res_bind (instrument_methods changed idx (Suc n) ms) (\<lambda>css. Inr (cs # css)))"

text \<open>
  The hook: the two assertions, the calls for every method, and the length of the new class. The
  result of the allocation is not looked at before the class is written to it.
\<close>

definition ClassFileLoadHook :: "jclass \<Rightarrow> (nat \<Rightarrow> nat \<Rightarrow> bool) \<Rightarrow> (u32 \<Rightarrow> nat option) \<Rightarrow> nat \<Rightarrow> (lib_call list list \<times> u32) res" where
  "ClassFileLoadHook cf changed allocate class_data_len =
     (if cf_consumed cf \<noteq> class_data_len then Inl BugOn
      else res_bind (instrument_methods changed (cf_methodref cf) 0 (cf_methods cf)) (\<lambda>css.
        let byte_size = cf_byte_size cf css in
        if \<not> byte_size \<le> 2 ^ 31 - 1 then Inl BugOn
        else res_bind (deref (allocate byte_size)) (\<lambda>p. Inr (css, byte_size))))"

section \<open>Loading the agents\<close>

datatype agent_call = GetEnv | AddCapabilities | SetEventNotificationMode string | SetEventCallbacks string

text \<open>What the virtual machine answers: a code per call, zero for success, and the environment \<^verbatim>\<open>GetEnv\<close> stores.\<close>

record jvm =
  vm_answer :: "agent_call \<Rightarrow> int"
  vm_env :: "nat option"

definition JNI_OK :: int where
  "JNI_OK = 0"

definition JNI_ERR :: int where
  "JNI_ERR = - 1"

text \<open>A failing \<^verbatim>\<open>GetEnv\<close> is printed and the environment used all the same.\<close>

definition Agent_OnLoad :: "jvm \<Rightarrow> (int \<times> agent_call list) res" where
  "Agent_OnLoad vm =
     res_bind (deref (vm_env vm)) (\<lambda>env.
     let cs = [GetEnv, AddCapabilities] in
     if vm_answer vm AddCapabilities \<noteq> 0 then Inr (JNI_ERR, cs)
     else let cs = cs @ [SetEventNotificationMode ''CLASS_FILE_LOAD_HOOK''] in
     if vm_answer vm (SetEventNotificationMode ''CLASS_FILE_LOAD_HOOK'') \<noteq> 0 then Inr (JNI_ERR, cs)
     else let cs = cs @ [SetEventCallbacks ''ClassFileLoadHook''] in
     if vm_answer vm (SetEventCallbacks ''ClassFileLoadHook'') \<noteq> 0 then Inr (JNI_ERR, cs)
     else Inr (JNI_OK, cs))"

text \<open>The agent that prints method entries does not look at the answer about its capabilities.\<close>

definition entry_agent_on_load :: "jvm \<Rightarrow> (int \<times> agent_call list) res" where
  "entry_agent_on_load vm =
     res_bind (deref (vm_env vm)) (\<lambda>env.
     let cs = [GetEnv, AddCapabilities, SetEventCallbacks ''MethodEntry''] in
     if vm_answer vm (SetEventCallbacks ''MethodEntry'') \<noteq> JNI_OK then Inr (JNI_ERR, cs)
     else let cs = cs @ [SetEventNotificationMode ''METHOD_ENTRY''] in
     if vm_answer vm (SetEventNotificationMode ''METHOD_ENTRY'') \<noteq> JNI_OK then Inr (JNI_ERR, cs)
     else let cs = cs @ [SetEventNotificationMode ''METHOD_EXIT''] in
     if vm_answer vm (SetEventNotificationMode ''METHOD_EXIT'') \<noteq> JNI_OK then Inr (JNI_ERR, cs)
     else Inr (JNI_OK, cs))"

text \<open>
  The callback prints the name and signature of a method that has parameters; without an answer of
  the virtual machine the pointers are never set. The other agent prints the loaded classes.
\<close>

definition MethodEntry :: "(string \<times> string) option \<Rightarrow> (string \<times> string) option res" where
  "MethodEntry answer =
     (case answer of None \<Rightarrow> Inl Uninitialised
      | Some (name, signature) \<Rightarrow>
          res_bind (array_get signature 1) (\<lambda>c. if c = CHR '')'' then Inr None else Inr (Some (name, signature))))"

fun print_signatures :: "string option list \<Rightarrow> string list res" where
  "print_signatures [] = Inr []"
| "print_signatures (sig # sigs) =
     (case sig of None \<Rightarrow> Inl Uninitialised
      | Some t \<Rightarrow> res_bind (print_signatures sigs) (\<lambda>ts. Inr (t # ts)))"

definition list_classes_hook :: "string option list option \<Rightarrow> string list res" where
  "list_classes_hook loaded = (case loaded of None \<Rightarrow> Inl Uninitialised | Some sigs \<Rightarrow> print_signatures sigs)"

section \<open>Descriptors and slots by the specification of the virtual machine\<close>

datatype jtype = Prim char | Class string | Array jtype

fun type_text :: "jtype \<Rightarrow> string" where
  "type_text (Prim c) = [c]"
| "type_text (Class n) = CHR ''L'' # n @ '';''"
| "type_text (Array t) = CHR ''['' # type_text t"

fun wf_type :: "jtype \<Rightarrow> bool" where
  "wf_type (Prim c) \<longleftrightarrow> c \<in> set ''BCDFIJSZ''"
| "wf_type (Class n) \<longleftrightarrow> n \<noteq> [] \<and> CHR '';'' \<notin> set n"
| "wf_type (Array t) \<longleftrightarrow> wf_type t"

fun dims :: "jtype \<Rightarrow> nat" where
  "dims (Array t) = Suc (dims t)"
| "dims _ = 0"

fun element :: "jtype \<Rightarrow> jtype" where
  "element (Array t) = element t"
| "element t = t"

text \<open>The parameters the agent passes on: objects, and arrays of objects of any dimension.\<close>

fun holds_objects :: "jtype \<Rightarrow> bool" where
  "holds_objects (Prim c) \<longleftrightarrow> False"
| "holds_objects (Class n) \<longleftrightarrow> True"
| "holds_objects (Array t) \<longleftrightarrow> holds_objects t"

fun slots :: "jtype \<Rightarrow> nat" where
  "slots (Prim c) = (if c = CHR ''J'' \<or> c = CHR ''D'' then 2 else 1)"
| "slots _ = 1"

fun object_slots :: "nat \<Rightarrow> jtype list \<Rightarrow> nat list" where
  "object_slots k [] = []"
| "object_slots k (t # ts) = (if holds_objects t then [k] else []) @ object_slots (k + slots t) ts"

definition descriptor_text :: "jtype list \<Rightarrow> string \<Rightarrow> string" where
  "descriptor_text ps r = ''('' @ concat (map type_text ps) @ '')'' @ r"

text \<open>A method takes at most 255 slots for its parameters, the receiver included.\<close>

definition wf_params :: "nat \<Rightarrow> jtype list \<Rightarrow> bool" where
  "wf_params off ps \<longleftrightarrow> list_all wf_type ps \<and> off + sum_list (map slots ps) \<le> 255"

lemma type_text_element: "type_text t = replicate (dims t) (CHR ''['') @ type_text (element t)"
  by (induction t) auto

lemma wf_element [simp]: "wf_type (element t) = wf_type t"
  by (induction t) auto

lemma holds_objects_element: "holds_objects t \<longleftrightarrow> (\<exists>n. element t = Class n)"
  by (induction t) auto

lemma element_not_Array: "element t \<noteq> Array u"
  by (induction t) auto

section \<open>The scan finds the object parameters and their slots\<close>

lemma array_get_drop: "drop i d = c # t \<Longrightarrow> array_get d i = Inr c"
  by (metis array_get_in drop_all hd_drop_conv_nth list.sel(1) list.simps(3) not_le)

lemma drop_SucI: "drop i d = c # t \<Longrightarrow> drop (Suc i) d = t"
  by (metis drop_Suc list.sel(3) tl_drop)

lemma nth_dropI: "drop i d = c # t \<Longrightarrow> i < length d \<and> d ! i = c"
  by (metis array_get_drop array_get_Inr_iff)

lemma skip_brackets_spec:
  "drop (Suc i) d = replicate k (CHR ''['') @ c # t \<Longrightarrow> c \<noteq> CHR ''['' \<Longrightarrow> skip_brackets d i = Inr (Suc i + k)"
proof (induction k arbitrary: i)
  case 0
  then show ?case by (subst skip_brackets.simps) (auto dest: nth_dropI)
next
  case (Suc k)
  then show ?case
    by (subst skip_brackets.simps) (auto dest: nth_dropI drop_SucI)
qed

lemma skip_name_spec:
  "drop (Suc i) d = n @ CHR '';'' # t \<Longrightarrow> CHR '';'' \<notin> set n \<Longrightarrow> skip_name d i = Inr (Suc i + length n)"
proof (induction n arbitrary: i)
  case Nil
  then show ?case by (subst skip_name.simps) (auto dest: nth_dropI)
next
  case (Cons c n)
  then show ?case
    by (subst skip_name.simps) (auto dest: nth_dropI drop_SucI)
qed

lemma drop_append_textI: "drop i d = u @ t \<Longrightarrow> drop (i + length u) d = t"
  by (metis add.commute append_eq_conv_conj drop_drop)

text \<open>Where the scan stands between two parameters: the rest of the text, the slot and the count so far.\<close>

definition at_param :: "string \<Rightarrow> string \<Rightarrow> nat \<Rightarrow> nat \<Rightarrow> scan \<Rightarrow> bool" where
  "at_param d rest k n s \<longleftrightarrow> drop (sc_i s) d = rest \<and> 0 < sc_i s \<and> d ! (sc_i s - 1) \<noteq> CHR ''[''
     \<and> unat (param_count s) = k \<and> unat (inserted_obj_ref_count s) = n \<and> \<not> obj_ref s \<and> \<not> obj_array s"

lemma unat_add_small: "unat (a :: 'a::len word) = k \<Longrightarrow> k + j < 2 ^ LENGTH('a) \<Longrightarrow> unat (a + word_of_nat j) = k + j"
  by (simp add: unat_word_ariths unsigned_of_nat take_bit_eq_mod)

text \<open>One parameter is consumed by one turn; an object parameter leaves the load of its slot.\<close>

definition load_slot :: "nat \<Rightarrow> instr" where
  "load_slot k = insert_reference_load_instruction (word_of_nat k) 0"

lemma load_slot_eq:
  assumes "unat p = k"
  shows "insert_reference_load_instruction p off = load_slot (unat off + k)"
proof -
  have "p + off = word_of_nat (unat off + k)"
    by (simp flip: assms)
  then show ?thesis
    by (simp only: load_slot_def insert_reference_load_instruction_def add_0_right)
qed

lemma scan_primitive_eq:
  "c \<in> set ''BCDFIJSZ'' \<Longrightarrow> \<not> obj_ref s \<Longrightarrow> \<not> obj_array s \<Longrightarrow>
   scan_primitive c s = s\<lparr>param_count := param_count s + word_of_nat (slots (Prim c))\<rparr>"
  by (auto simp: scan_primitive_def)

lemma scan_step_primitive:
  "array_get d (sc_i s) = Inr c \<Longrightarrow> c \<in> set ''BCDFIJSZ'' \<Longrightarrow> scan_step off d s = Inr (False, scan_primitive c s)"
  by (auto simp: scan_step_def)

lemma turn_over_primitive:
  assumes at: "at_param d (c # rest) k n s" and c: "c \<in> set ''BCDFIJSZ''" and k: "k + slots (Prim c) < 256"
  shows "\<exists>s'. scan_step off d s = Inr (False, s') \<and> at_param d rest (k + slots (Prim c)) n (s'\<lparr>sc_i := sc_i s' + 1\<rparr>)
     \<and> sc_calls s' = sc_calls s"
proof -
  have here: "drop (sc_i s) d = c # rest" and pc: "unat (param_count s) = k"
    using at by (simp_all add: at_param_def)
  have "c \<noteq> CHR ''[''" using c by auto
  moreover have "scan_step off d s = Inr (False, scan_primitive c s)"
    by (rule scan_step_primitive [OF array_get_drop [OF here] c])
  moreover have "unat (param_count s + word_of_nat (slots (Prim c))) = k + slots (Prim c)"
    by (rule unat_add_small [OF pc]) (use k in simp)
  ultimately show ?thesis
    using at c drop_SucI [OF here] nth_dropI [OF here]
    by (simp add: at_param_def scan_primitive_eq del: slots.simps)
qed

lemma turn_over_array:
  assumes at: "at_param d (type_text t @ rest) k n s" and t: "dims t > 0" "wf_type t" and n: "n < 5" "k + 1 < 256"
  shows "\<exists>s'. scan_step off d s = Inr (False, s') \<and> at_param d rest (k + 1) (if holds_objects t then n + 1 else n) (s'\<lparr>sc_i := sc_i s' + 1\<rparr>)
     \<and> sc_calls s' = sc_calls s @ (if holds_objects t then [Insert (load_slot (unat off + k))] else [])"
proof -
  obtain j where j: "dims t = Suc j" using t by (cases "dims t") auto
  let ?i = "sc_i s"
  have pc: "unat (param_count s) = k" "unat (inserted_obj_ref_count s) = n" using at by (simp_all add: at_param_def)
  have up: "unat (param_count s + 1) = k + 1" "unat (inserted_obj_ref_count s + 1) = n + 1"
    using unat_add_small [of "param_count s" k 1] unat_add_small [of "inserted_obj_ref_count s" n 1] pc n by simp_all
  have here_text: "drop ?i d = CHR ''['' # replicate j (CHR ''['') @ type_text (element t) @ rest"
    using at unfolding at_param_def by (subst (asm) type_text_element) (simp add: j)
  note here = array_get_drop [OF here_text] and next_text = drop_SucI [OF here_text]
  show ?thesis
  proof (cases "element t")
    case (Prim c)
    then have c: "c \<in> set ''BCDFIJSZ''" "\<not> holds_objects t" "c \<noteq> CHR ''[''"
      using wf_element [of t] t by (auto simp: holds_objects_element)
    have "drop (Suc ?i + j) d = c # rest"
      using drop_append_textI [of "Suc ?i" d "replicate j (CHR ''['')" "c # rest"] next_text Prim by simp
    moreover have "skip_brackets d ?i = Inr (Suc ?i + j)"
      using skip_brackets_spec [of ?i d j c rest] next_text Prim c by simp
    ultimately have "parse_object_array d ?i = Inr (False, Suc ?i + j)" "d ! (Suc ?i + j) = c" "drop (Suc (Suc ?i + j)) d = rest"
      using c by (auto simp: parse_object_array_def is_primive_type_def dest: nth_dropI drop_SucI)
    with here c at up show ?thesis
      by (simp add: scan_step_def scan_array_def at_param_def)
  next
    case (Class m)
    then have m: "m \<noteq> []" "CHR '';'' \<notin> set m" "holds_objects t"
      using wf_element [of t] t by (auto simp: holds_objects_element)
    have l: "drop (Suc ?i + j) d = CHR ''L'' # m @ CHR '';'' # rest"
      using drop_append_textI [of "Suc ?i" d "replicate j (CHR ''['')"] next_text Class by simp
    have "skip_brackets d ?i = Inr (Suc ?i + j)"
      using skip_brackets_spec [of ?i d j "CHR ''L''"] next_text Class by simp
    moreover have "skip_name d (Suc ?i + j) = Inr (Suc (Suc ?i + j) + length m)"
      using skip_name_spec drop_SucI [OF l] m by blast
    ultimately have "parse_object_array d ?i = Inr (True, Suc (Suc ?i + j) + length m)"
      using nth_dropI [OF l] by (simp add: parse_object_array_def is_primive_type_def)
    moreover have "drop (Suc (Suc ?i + j) + length m) d = CHR '';'' # rest"
      by (rule drop_append_textI [OF drop_SucI [OF l]])
    note nth_dropI [OF this] drop_SucI [OF this]
    ultimately show ?thesis
      using here m at up load_slot_eq [OF pc(1), of off]
      by (simp add: scan_step_def scan_array_def push_reference_def at_param_def)
  next
    case (Array u)
    then show ?thesis by (simp add: element_not_Array)
  qed
qed

lemma turn_over_instance:
  assumes at: "at_param d (type_text (Class m) @ rest) k n s" and m: "wf_type (Class m)" and n: "n < 5" "k + 1 < 256"
  shows "\<exists>s'. scan_step off d s = Inr (False, s') \<and> at_param d rest (k + 1) (n + 1) (s'\<lparr>sc_i := sc_i s' + 1\<rparr>)
     \<and> sc_calls s' = sc_calls s @ [Insert (load_slot (unat off + k))]"
proof -
  let ?i = "sc_i s"
  have pc: "unat (param_count s) = k" "unat (inserted_obj_ref_count s) = n" using at by (simp_all add: at_param_def)
  have up: "unat (param_count s + 1) = k + 1" "unat (inserted_obj_ref_count s + 1) = n + 1"
    using unat_add_small [of "param_count s" k 1] unat_add_small [of "inserted_obj_ref_count s" n 1] pc n by simp_all
  from m obtain c m' where m': "m = c # m'" by (cases m) auto
  have here_text: "drop ?i d = CHR ''L'' # c # m' @ CHR '';'' # rest"
    using at by (simp add: at_param_def m')
  note rest = drop_SucI [OF drop_SucI [OF here_text]]
  have "skip_name d (Suc ?i) = Inr (Suc (Suc ?i) + length m')"
    using skip_name_spec [OF rest] m by (simp add: m')
  moreover note drop_append_textI [OF rest]
  note nth_dropI [OF this] drop_SucI [OF this]
  ultimately show ?thesis
    using array_get_drop [OF here_text] at up load_slot_eq [OF pc(1), of off]
    by (simp add: scan_step_def scan_instance_def parse_object_instance_def push_reference_def at_param_def)
qed

text \<open>The three kinds of parameter together.\<close>

lemma turn_over_param:
  assumes "at_param d (type_text t @ rest) k n s" "wf_type t" "n < 5" "k + slots t < 256"
  shows "\<exists>s'. scan_step off d s = Inr (False, s') \<and> at_param d rest (k + slots t) (if holds_objects t then n + 1 else n) (s'\<lparr>sc_i := sc_i s' + 1\<rparr>)
     \<and> sc_calls s' = sc_calls s @ (if holds_objects t then [Insert (load_slot (unat off + k))] else [])"
proof (cases t)
  case (Prim c)
  with assms turn_over_primitive [of d c rest k n s off] show ?thesis by simp
next
  case (Class m)
  with assms turn_over_instance [of d m rest k n s off] show ?thesis by simp
next
  case (Array u)
  with assms turn_over_array [of d t rest k n s off] show ?thesis by simp
qed

lemma scan_loop_spec:
  assumes "at_param d (concat (map type_text ps) @ '')'' @ r) k n s" "list_all wf_type ps" "n \<le> 5" "k + sum_list (map slots ps) < 256"
  shows "\<exists>s'. scan_loop off d s = Inr s'
     \<and> sc_calls s' = sc_calls s @ map (Insert \<circ> load_slot) (take (5 - n) (object_slots (unat off + k) ps))
     \<and> unat (inserted_obj_ref_count s') = n + min (5 - n) (length (object_slots (unat off + k) ps))"
  using assms
proof (induction ps arbitrary: s k n)
  case Nil
  then have "drop (sc_i s) d = CHR '')'' # r" by (simp add: at_param_def)
  note this array_get_drop [OF this] nth_dropI [OF this]
  with Nil show ?case
    by (subst scan_loop.simps) (auto simp: scan_step_def scan_primitive_def at_param_def PARAM_NUM_def)
next
  case (Cons t ps)
  let ?rest = "concat (map type_text ps) @ '')'' @ r"
  show ?case
  proof (cases "n < 5")
    case False
    with Cons.prems show ?thesis
      by (subst scan_loop.simps) (auto simp: at_param_def PARAM_NUM_def)
  next
    case True
    have at: "at_param d (type_text t @ ?rest) k n s" using Cons.prems by simp
    have "sc_i s < length d"
      using at by (cases t) (auto simp: at_param_def dest!: nth_dropI)
    moreover obtain s1 where s1: "scan_step off d s = Inr (False, s1)"
      "at_param d ?rest (k + slots t) (if holds_objects t then n + 1 else n) (s1\<lparr>sc_i := sc_i s1 + 1\<rparr>)"
      "sc_calls s1 = sc_calls s @ (if holds_objects t then [Insert (load_slot (unat off + k))] else [])"
      using turn_over_param [OF at _ True, of off] Cons.prems by auto
    moreover have "unat (inserted_obj_ref_count s) = n" using at by (simp add: at_param_def)
    ultimately have "scan_loop off d s = scan_loop off d (s1\<lparr>sc_i := sc_i s1 + 1\<rparr>)"
      using True by (subst scan_loop.simps) (simp add: PARAM_NUM_def)
    moreover have "5 - n = Suc (5 - Suc n)" using True by simp
    ultimately show ?thesis
      using Cons.IH [OF s1(2)] Cons.prems True s1(3) by (auto simp: ac_simps split: if_splits)
  qed
qed

section \<open>What the inserted code does\<close>

text \<open>
  The inserted instructions on the operand stack of the virtual machine. The state is the stack,
  top first, and the calls made so far; a static call takes the six arguments of the prefetch function.
\<close>

datatype jvalue = Reference nat | Null | IntVal int

type_synonym jframe = "jvalue list \<times> (u16 \<times> jvalue list) list"

fun exec_instr :: "(nat \<Rightarrow> jvalue) \<Rightarrow> instr \<Rightarrow> jframe \<Rightarrow> jframe" where
  "exec_instr loc Aload_0 (stk, cs) = (loc 0 # stk, cs)"
| "exec_instr loc Aload_1 (stk, cs) = (loc 1 # stk, cs)"
| "exec_instr loc Aload_2 (stk, cs) = (loc 2 # stk, cs)"
| "exec_instr loc Aload_3 (stk, cs) = (loc 3 # stk, cs)"
| "exec_instr loc (Aload k) (stk, cs) = (loc (unat k) # stk, cs)"
| "exec_instr loc Aconst_null (stk, cs) = (Null # stk, cs)"
| "exec_instr loc (Sipush n) (stk, cs) = (IntVal (sint n) # stk, cs)"
| "exec_instr loc (Invokestatic idx) (stk, cs) = (drop 6 stk, cs @ [(idx, rev (take 6 stk))])"

definition exec_code :: "(nat \<Rightarrow> jvalue) \<Rightarrow> instr list \<Rightarrow> jframe \<Rightarrow> jframe" where
  "exec_code loc = fold (exec_instr loc)"

fun inserted_code :: "lib_call list \<Rightarrow> instr list" where
  "inserted_code [] = []"
| "inserted_code (Insert i # cs) = i # inserted_code cs"
| "inserted_code (c # cs) = inserted_code cs"

lemma inserted_code_append [simp]: "inserted_code (cs @ ds) = inserted_code cs @ inserted_code ds"
  by (induction cs rule: inserted_code.induct) auto

lemma inserted_code_map [simp]: "inserted_code (map (Insert \<circ> f) xs) = map f xs"
  "inserted_code (map (\<lambda>x. Insert (g x)) xs) = map g xs"
  by (induction xs) auto

lemma inserted_code_replicate [simp]: "inserted_code (replicate n (Insert i)) = replicate n i"
  by (induction n) auto

lemma exec_load_slot [simp]: "k < 256 \<Longrightarrow> exec_instr loc (load_slot k) (stk, cs) = (loc k # stk, cs)"
proof -
  assume "k < 256"
  then have u: "unat (word_of_nat k :: u8) = k"
    by (simp add: unsigned_of_nat take_bit_eq_mod)
  have "k = j" if "word_of_nat k = (word_of_nat j :: u8)" "j < 256" for j
    using arg_cong [OF that(1), of unat] that(2) u by (simp add: unsigned_of_nat take_bit_eq_mod)
  from this [of 0] this [of 1] this [of 2] this [of 3] show ?thesis
    by (auto simp: load_slot_def insert_reference_load_instruction_def Let_def u)
qed

lemma exec_code_simps [simp]:
  "exec_code loc [] st = st" "exec_code loc (i # is) st = exec_code loc is (exec_instr loc i st)"
  "exec_code loc (is @ js) st = exec_code loc js (exec_code loc is st)"
  by (simp_all add: exec_code_def)

lemma exec_loads: "\<forall>k \<in> set ks. k < 256 \<Longrightarrow> exec_code loc (map load_slot ks) (stk, cs) = (rev (map loc ks) @ stk, cs)"
  by (induction ks arbitrary: stk) auto

lemma exec_nulls: "exec_code loc (replicate n Aconst_null) (stk, cs) = (replicate n Null @ stk, cs)"
  by (induction n arbitrary: stk) (auto simp: replicate_app_Cons_same)

text \<open>No instruction but the call shortens the stack, and each other one adds a single value.\<close>

definition pushes :: "instr \<Rightarrow> bool" where
  "pushes i \<longleftrightarrow> (\<forall>idx. i \<noteq> Invokestatic idx)"

lemma exec_pushes: "pushes i \<Longrightarrow> length (fst (exec_instr loc i st)) = Suc (length (fst st))"
  by (cases st; cases i) (auto simp: pushes_def)

lemma exec_code_depth: "list_all pushes is \<Longrightarrow> length (fst (exec_code loc is st)) = length is + length (fst st)"
  by (induction "is" arbitrary: st) (auto simp: exec_pushes)

lemma exec_call_depth: "length (fst (exec_instr loc (Invokestatic idx) st)) \<le> length (fst st)"
  by (cases st) simp

lemma exec_code_depth_take:
  assumes "list_all pushes is"
  shows "length (fst (exec_code loc (take j (is @ [Invokestatic idx])) st)) \<le> length (fst st) + length is"
proof (cases "j \<le> length is")
  case True
  have "list_all pushes (take j is)"
    using assms by (auto simp: list_all_iff dest: in_set_takeD)
  with True exec_code_depth [of "take j is" loc st] show ?thesis by simp
next
  case False
  with exec_code_depth [OF assms, of loc st] exec_call_depth [of loc idx "exec_code loc is st"] show ?thesis by simp
qed

lemma pushes_load_slot [simp]: "pushes (load_slot k)"
  by (auto simp: pushes_def load_slot_def insert_reference_load_instruction_def Let_def)

lemma object_slots_bound: "j \<in> set (object_slots k ps) \<Longrightarrow> j < k + sum_list (map slots ps)"
proof (induction ps arbitrary: k)
  case Nil
  then show ?case by simp
next
  case (Cons t ps)
  have "0 < slots t" by (cases t) auto
  with Cons show ?case by (auto simp flip: add.assoc split: if_splits)
qed

lemma fix_offsets_loop_ends:
  assumes "\<not> changed n" "k \<le> n"
  shows "\<exists>ds. fix_offsets_loop changed k cs = Some (cs @ ds) \<and> inserted_code ds = []"
  using assms(2)
proof (induction "n - k" arbitrary: k cs)
  case 0
  with assms(1) show ?case by (subst fix_offsets_loop.simps) simp
next
  case (Suc j)
  then have "j = n - Suc k" "Suc k \<le> n" by simp_all
  from Suc.hyps(1) [OF this, of "cs @ [Fix_offsets, Sync]"] show ?case
    by (subst fix_offsets_loop.simps) auto
qed

section \<open>Instrumented methods\<close>

definition receiver_slots :: "jmethod \<Rightarrow> nat" where
  "receiver_slots m = (if m_static m then 0 else 1)"

lemma type_text_hd: "wf_type t \<Longrightarrow> \<exists>c u. type_text t = c # u \<and> c \<noteq> CHR '')''"
  by (cases t) auto

lemma start_at_param:
  "at_param (descriptor_text ps r) (concat (map type_text ps) @ '')'' @ r) 0 0 (start_scan ms)"
  by (simp add: at_param_def start_scan_def descriptor_text_def)

lemma first_char: "ps \<noteq> [] \<Longrightarrow> list_all wf_type ps \<Longrightarrow>
  \<exists>c. array_get (descriptor_text ps r) 1 = Inr c \<and> c \<noteq> CHR '')''"
  by (cases ps) (auto simp: descriptor_text_def array_get_def dest: type_text_hd)

text \<open>The scan of a well-formed descriptor from its start.\<close>

lemma scan_descriptor:
  assumes "wf_params (receiver_slots m) ps"
  shows "\<exists>s. scan_loop (if m_static m = False then 1 else 0) (descriptor_text ps r) (start_scan ms) = Inr s
     \<and> sc_calls s = [Set_max_stack (ms + 6), Create_front_inserter]
         @ map (Insert \<circ> load_slot) (take 5 (object_slots (receiver_slots m) ps))
     \<and> unat (inserted_obj_ref_count s) = length (take 5 (object_slots (receiver_slots m) ps))"
  using scan_loop_spec [OF start_at_param, of ps "if m_static m = False then 1 else 0" r ms] assms
  by (auto simp: wf_params_def receiver_slots_def start_scan_def min.commute)

text \<open>
  The instructions a method gets: the loads of its first five object parameters, null for the
  missing ones, their number and the call.
\<close>

definition prefetch_code :: "u16 \<Rightarrow> nat list \<Rightarrow> instr list" where
  "prefetch_code idx ks = map load_slot ks @ replicate (5 - length ks) Aconst_null @ [Sipush (word_of_nat (length ks)), Invokestatic idx]"

lemma instrument_method_code:
  assumes "m_descriptor m = descriptor_text ps r" "wf_params (receiver_slots m) ps" "\<not> function_filtered m"
    "m_code m = Some ms" "object_slots (receiver_slots m) ps \<noteq> []" "\<exists>k. \<not> changed k"
  shows "\<exists>cs. instrument_method changed idx m = Inr (Set_max_stack (ms + 6) # cs)
     \<and> inserted_code cs = prefetch_code idx (take 5 (object_slots (receiver_slots m) ps))"
proof -
  let ?ks = "take 5 (object_slots (receiver_slots m) ps)"
  have "ps \<noteq> []" using assms(5) by auto
  then obtain c where c: "array_get (descriptor_text ps r) 1 = Inr c" "c \<noteq> CHR '')''"
    using first_char assms(2) by (auto simp: wf_params_def)
  obtain s where s: "scan_loop (if m_static m = False then 1 else 0) (descriptor_text ps r) (start_scan ms) = Inr s"
    "sc_calls s = [Set_max_stack (ms + 6), Create_front_inserter] @ map (Insert \<circ> load_slot) ?ks"
    "unat (inserted_obj_ref_count s) = length ?ks"
    using scan_descriptor [OF assms(2)] by blast
  have "inserted_obj_ref_count s \<noteq> 0"
    using s(3) assms(5) by (auto simp: min_def split: if_splits)
  moreover have "inserted_obj_ref_count s = word_of_nat (length ?ks)"
    unfolding s(3) [symmetric] by simp
  moreover obtain n where "\<not> changed n" using assms(6) by blast
  then obtain ds where "fix_offsets_loop changed 0 (finish_call idx s @ [Sync]) = Some (finish_call idx s @ [Sync] @ ds)" "inserted_code ds = []"
    using fix_offsets_loop_ends [of changed n 0 "finish_call idx s @ [Sync]"] by auto
  ultimately show ?thesis
    using assms c s
    by (simp add: instrument_method_def Let_def finish_call_def prefetch_code_def PARAM_NUM_def map_replicate_const)
qed

lemma exec_prefetch_code:
  assumes "\<forall>k \<in> set ks. k < 256" "length ks \<le> 5"
  shows "exec_code loc (prefetch_code idx ks) (stk, calls)
     = (stk, calls @ [(idx, map loc ks @ replicate (5 - length ks) Null @ [IntVal (int (length ks))])])"
proof -
  have "sint (word_of_nat (length ks) :: u16) = int (length ks)"
    using assms(2) by (simp add: signed_of_nat signed_take_bit_int_eq_self)
  moreover have "length (replicate (5 - length ks) Null @ rev (map loc ks)) = 5" using assms(2) by simp
  ultimately show ?thesis
    by (simp add: prefetch_code_def exec_loads [OF assms(1)] exec_nulls take_Suc_conv_app_nth)
qed

lemma prefetch_code_depth:
  assumes "length ks \<le> 5"
  shows "length (fst (exec_code loc (take i (prefetch_code idx ks)) (stk, calls))) \<le> length stk + 6"
proof -
  let ?pre = "map load_slot ks @ replicate (5 - length ks) Aconst_null @ [Sipush (word_of_nat (length ks))]"
  have code: "prefetch_code idx ks = ?pre @ [Invokestatic idx]" by (simp add: prefetch_code_def)
  have pre: "list_all pushes ?pre" "length ?pre = 6" using assms by (auto simp: list_all_iff pushes_def [of Aconst_null] pushes_def [of "Sipush _"])
  show ?thesis
    using exec_code_depth_take [OF pre(1), of loc i idx "(stk, calls)"] unfolding code pre(2) by simp
qed

text \<open>
  C22. Code inserted into a method with object parameters: whatever the local variables and the
  stack, it ends with the stack it found, after one call of the prefetch function with the values
  of the first five object parameters, null for the missing ones and their number. The stack never
  grows by more than the six slots the agent adds to the declared depth.
\<close>

theorem inserted_code_passes_the_object_parameters:
  assumes "m_descriptor m = descriptor_text ps r" "wf_params (receiver_slots m) ps" "\<not> function_filtered m"
    and "m_code m = Some max_stack" "object_slots (receiver_slots m) ps \<noteq> []" "\<exists>k. \<not> changed k"
  shows "\<exists>cs. instrument_method changed idx m = Inr (Set_max_stack (max_stack + 6) # cs)
     \<and> (let args = map loc (take 5 (object_slots (receiver_slots m) ps)) in
        exec_code loc (inserted_code cs) (stk, calls)
          = (stk, calls @ [(idx, args @ replicate (5 - length args) Null @ [IntVal (int (length args))])]))
     \<and> (\<forall>i. length (fst (exec_code loc (take i (inserted_code cs)) (stk, calls))) \<le> length stk + 6)"
proof -
  let ?ks = "take 5 (object_slots (receiver_slots m) ps)"
  have "k < 256" if "k \<in> set ?ks" for k
    using object_slots_bound [of k "receiver_slots m" ps] assms(2) that by (auto simp: wf_params_def dest: in_set_takeD)
  then have "exec_code loc (prefetch_code idx ?ks) (stk, calls)
     = (stk, calls @ [(idx, map loc ?ks @ replicate (5 - length ?ks) Null @ [IntVal (int (length ?ks))])])"
    using exec_prefetch_code [of ?ks] by simp
  moreover obtain cs where "instrument_method changed idx m = Inr (Set_max_stack (max_stack + 6) # cs)" "inserted_code cs = prefetch_code idx ?ks"
    using instrument_method_code [OF assms] by blast
  ultimately show ?thesis
    using prefetch_code_depth [of ?ks] by (simp add: Let_def)
qed

text \<open>
  The method \<^verbatim>\<open>int get(long, int[][], String, Object[])\<close> of an object: slot 0 holds the receiver,
  the long takes two slots, and the array of numbers is not passed on.
\<close>

definition demo_method :: jmethod where
  "demo_method = \<lparr>m_name = ''get'', m_descriptor = ''(J[[ILjava/lang/String;[Ljava/lang/Object;)I'', m_static = False, m_code = Some 2\<rparr>"

definition demo_params :: "jtype list" where
  "demo_params = [Prim (CHR ''J''), Array (Array (Prim (CHR ''I''))), Class ''java/lang/String'', Array (Class ''java/lang/Object'')]"

lemma demo_method_wf:
  "m_descriptor demo_method = descriptor_text demo_params ''I''" "wf_params (receiver_slots demo_method) demo_params"
  "\<not> function_filtered demo_method" "m_code demo_method = Some 2" "object_slots (receiver_slots demo_method) demo_params = [4, 5]"
  "object_slots (receiver_slots demo_method) demo_params \<noteq> []"
  by (simp_all add: demo_method_def demo_params_def descriptor_text_def wf_params_def receiver_slots_def function_filtered_def)

theorem inserted_code_passes_the_object_parameters_witness:
  "\<exists>cs. instrument_method (\<lambda>k. k < 2) 77 demo_method = Inr (Set_max_stack 8 # cs)
     \<and> exec_code Reference (inserted_code cs) ([], [])
         = ([], [(77, [Reference 4, Reference 5, Null, Null, Null, IntVal 2])])
     \<and> (\<forall>i. length (fst (exec_code Reference (take i (inserted_code cs)) ([], []))) \<le> 6)"
proof -
  have "\<exists>k. \<not> k < (2::nat)" by auto
  from inserted_code_passes_the_object_parameters [OF demo_method_wf(1-4,6) this, of 77 Reference "[]" "[]"]
  show ?thesis by (auto simp: demo_method_wf(5) Let_def numeral_eq_Suc)
qed

text \<open>
  A method that is filtered, has no parameters or has no code is left alone. A method whose
  parameters hold no objects gets no instruction, but its declared stack depth is raised all the same.
\<close>

theorem methods_without_objects_keep_their_code:
  assumes "m_descriptor m = descriptor_text ps r" "wf_params (receiver_slots m) ps" "object_slots (receiver_slots m) ps = []"
  shows "instrument_method changed idx m
     = Inr (if function_filtered m \<or> ps = [] then []
            else case m_code m of None \<Rightarrow> [] | Some max_stack \<Rightarrow> [Set_max_stack (max_stack + 6), Create_front_inserter])"
proof (cases "ps = []")
  case True
  then have "array_get (descriptor_text ps r) 1 = Inr (CHR '')'')" by (simp add: descriptor_text_def)
  with True show ?thesis by (simp add: instrument_method_def Let_def assms(1))
next
  case False
  then obtain c where "array_get (descriptor_text ps r) 1 = Inr c" "c \<noteq> CHR '')''"
    using first_char assms(2) by (auto simp: wf_params_def)
  moreover have "\<exists>s. scan_loop (if m_static m = False then 1 else 0) (descriptor_text ps r) (start_scan ms) = Inr s
      \<and> sc_calls s = [Set_max_stack (ms + 6), Create_front_inserter] \<and> inserted_obj_ref_count s = 0" for ms
    using scan_descriptor [OF assms(2), of r ms] assms(3) by (auto simp: unat_eq_zero)
  then obtain s where "scan_loop (if m_static m = False then 1 else 0) (descriptor_text ps r) (start_scan (the (m_code m))) = Inr s"
      "sc_calls s = [Set_max_stack (the (m_code m) + 6), Create_front_inserter]" "inserted_obj_ref_count s = 0" by blast
  ultimately show ?thesis
    using False assms(1) by (cases "m_code m") (simp_all add: instrument_method_def Let_def)
qed

definition numeric_method :: jmethod where
  "numeric_method = demo_method\<lparr>m_descriptor := ''(J[[I)V''\<rparr>"

definition numeric_params :: "jtype list" where
  "numeric_params = [Prim (CHR ''J''), Array (Array (Prim (CHR ''I'')))]"

lemma numeric_method_wf:
  "m_descriptor numeric_method = descriptor_text numeric_params ''V''" "wf_params (receiver_slots numeric_method) numeric_params"
  "object_slots (receiver_slots numeric_method) numeric_params = []" "\<not> function_filtered numeric_method" "m_code numeric_method = Some 2"
  "numeric_params \<noteq> []"
  by (simp_all add: numeric_method_def numeric_params_def demo_method_def descriptor_text_def wf_params_def receiver_slots_def function_filtered_def)

theorem methods_without_objects_keep_their_code_witness:
  "instrument_method (\<lambda>k. True) 77 numeric_method = Inr [Set_max_stack 8, Create_front_inserter]"
  using methods_without_objects_keep_their_code [OF numeric_method_wf(1-3), of "\<lambda>k. True" 77]
  by (simp add: numeric_method_wf)

section \<open>Classes, malformed descriptors and the agents\<close>

lemma instrument_methods_Inr:
  "instrument_methods changed idx n ms = Inr css \<longleftrightarrow>
   length css = length ms \<and> (\<forall>i < length ms. instrument_method (changed (n + i)) idx (ms ! i) = Inr (css ! i))"
proof (induction ms arbitrary: n css)
  case Nil
  then show ?case by auto
next
  case (Cons m ms)
  show ?case
    by (cases css) (auto simp: res_bind_Inr_iff Cons.IH All_less_Suc2)
qed

text \<open>
  The hook returns exactly when the class was read to its end, every method could be
  instrumented, the new class fits in an int and memory was given; then it has made the calls of
  each method in order and reports the size of the new class.
\<close>

theorem hook_instruments_every_method:
  "ClassFileLoadHook cf changed allocate len = Inr (css, n) \<longleftrightarrow>
     cf_consumed cf = len \<and> length css = length (cf_methods cf)
     \<and> (\<forall>i < length (cf_methods cf). instrument_method (changed i) (cf_methodref cf) (cf_methods cf ! i) = Inr (css ! i))
     \<and> n = cf_byte_size cf css \<and> unat n < 2 ^ 31 \<and> allocate n \<noteq> None"
proof -
  have "n \<le> 2 ^ 31 - 1 \<longleftrightarrow> unat n < 2 ^ 31" for n :: u32
    by (simp add: word_le_nat_alt) arith
  then show ?thesis
    by (auto simp: ClassFileLoadHook_def res_inversion instrument_methods_Inr Let_def)
qed

theorem hook_instruments_every_method_witness:
  "ClassFileLoadHook \<lparr>cf_consumed = 90, cf_methodref = 77, cf_methods = [numeric_method\<lparr>m_code := None\<rparr>], cf_byte_size = \<lambda>css. 90\<rparr>
     (\<lambda>i k. False) (\<lambda>n. Some 4096) 90 = Inr ([[]], 90)"
  unfolding hook_instruments_every_method by (simp add: instrument_method_def numeric_method_def demo_method_def function_filtered_def)

lemma skip_name_runs_out: "CHR '';'' \<notin> set (drop (Suc i) d) \<Longrightarrow> skip_name d i = Inl OutOfBounds"
proof (induction d i rule: skip_name.induct)
  case (1 d i)
  show ?case
  proof (cases "Suc i < length d")
    case True
    then have "drop (Suc i) d = d ! Suc i # drop (Suc (Suc i)) d" by (simp add: Cons_nth_drop_Suc)
    with 1 True show ?thesis by (subst skip_name.simps) auto
  next
    case False
    then show ?thesis by (subst skip_name.simps) simp
  qed
qed

text \<open>
  The hook runs before the class is verified: a class name without its semicolon takes the scan
  past the end of the descriptor.
\<close>

lemma unterminated_name_reads_past_the_descriptor:
  assumes "m_descriptor m = ''(L'' @ n" "CHR '';'' \<notin> set n" "\<not> function_filtered m" "m_code m = Some ms"
  shows "instrument_method changed idx m = Inl OutOfBounds"
proof -
  have "skip_name (''(L'' @ n) 2 = Inl OutOfBounds"
    using assms(2) by (intro skip_name_runs_out) (auto dest: in_set_dropD)
  then have "scan_loop off (''(L'' @ n) (start_scan ms) = Inl OutOfBounds" for off
    by (subst scan_loop.simps)
      (simp add: start_scan_def PARAM_NUM_def scan_step_def scan_instance_def parse_object_instance_def numeral_2_eq_2)
  with assms show ?thesis by (simp add: instrument_method_def Let_def)
qed

text \<open>The agent is loaded exactly when the three registrations succeed, and makes them in order; without an environment it faults.\<close>

lemma agent_loads_iff_registered:
  "Agent_OnLoad vm = Inr (JNI_OK, cs) \<longleftrightarrow>
     vm_env vm \<noteq> None \<and> cs = [GetEnv, AddCapabilities, SetEventNotificationMode ''CLASS_FILE_LOAD_HOOK'', SetEventCallbacks ''ClassFileLoadHook'']
     \<and> (\<forall>c \<in> set (tl cs). vm_answer vm c = 0)"
  by (auto simp: Agent_OnLoad_def res_inversion Let_def JNI_OK_def JNI_ERR_def split: if_splits)

lemma agent_without_environment_faults: "vm_env vm = None \<Longrightarrow> Agent_OnLoad vm = Inl NullDeref \<and> entry_agent_on_load vm = Inl NullDeref"
  by (simp add: Agent_OnLoad_def entry_agent_on_load_def)

lemma entry_agent_ignores_its_capabilities:
  "entry_agent_on_load (vm\<lparr>vm_answer := (vm_answer vm)(AddCapabilities := e)\<rparr>) = entry_agent_on_load vm"
  by (simp add: entry_agent_on_load_def Let_def)

lemma method_entry_prints_methods_with_parameters:
  assumes "list_all wf_type ps"
  shows "MethodEntry (Some (name, descriptor_text ps r)) = Inr (if ps = [] then None else Some (name, descriptor_text ps r))"
  using first_char [of ps r] assms by (cases "ps = []") (auto simp: MethodEntry_def descriptor_text_def)

end
