(* ===== verification/Swap_Tests.thy ===== *)
theory Swap_Tests
  imports Prelude
begin

text \<open>
  The programs that exercise the swap and control paths from user level
  (\<^verbatim>\<open>src/block_device/swap\<close>, \<^verbatim>\<open>src/Kernel-dev/tlb\<close>, \<^verbatim>\<open>src/Kernel-dev/syscall\<close>, \<^verbatim>\<open>src/Semeru/CPUServer\<close>).
  They map a range of memory at a fixed address, fill it, call the kernel, read it back and print a
  sum. The kernel is a parameter: what each call returns and what it does to the contents of the
  range, both as functions of the calls so far.
\<close>

section \<open>Kernel, process and the mapping functions\<close>

datatype prot = PROT_NONE | PROT_RW | PROT_RWX

datatype uffd_request = UFFDIO_API | UFFDIO_REGISTER u64 u64 nat

text \<open>
  Mapping calls make anonymous private mappings, of ordinary or of huge pages, at a fixed address or not, without
  reservation or with it. Besides the calls of the kernel, the start of a thread and an access whose address matters are recorded.
\<close>

datatype ucall =
    Mmap u64 u64 prot bool bool
  | Mmap_huge u64 u64 prot bool bool
  | Madvise u64 u64 nat
  | Syscall nat "u64 list"
  | Ioctl u64 uffd_request
  | Pthread_create
  | Touch u64

text \<open>What is printed: numbers, and for every mapping its address when it failed or its address and length.\<close>

datatype printed = Number u64 | Mapping_failed u64 | Mapping u64 u64

record uhost =
  uh_answer :: "ucall list \<Rightarrow> u64"
  uh_effect :: "ucall list \<Rightarrow> u64 list \<Rightarrow> u64 list"

record uproc =
  up_buf :: "u64 list"
  up_calls :: "ucall list"
  up_out :: "printed list"

definition MAP_FAILED :: u64 where
  "MAP_FAILED = - 1"

definition start_uproc :: uproc where
  "start_uproc = \<lparr>up_buf = [], up_calls = [], up_out = []\<rparr>"

definition kcall :: "uhost \<Rightarrow> ucall \<Rightarrow> uproc \<Rightarrow> u64 \<times> uproc" where
  "kcall h c p =
     (let cs = up_calls p @ [c]
      in (uh_answer h cs, p\<lparr>up_calls := cs, up_buf := uh_effect h cs (up_buf p)\<rparr>))"

definition print_number :: "u64 \<Rightarrow> uproc \<Rightarrow> uproc" where
  "print_number x p = p\<lparr>up_out := up_out p @ [Number x]\<rparr>"

definition report_mapping :: "u64 \<Rightarrow> u64 \<Rightarrow> u64 \<Rightarrow> uproc \<Rightarrow> uproc" where
  "report_mapping addr bytes user_buff p =
     p\<lparr>up_out := up_out p @ [if user_buff = 0 then Mapping_failed addr else Mapping user_buff bytes]\<rparr>"

definition reserve_anon_memory :: "uhost \<Rightarrow> u64 \<Rightarrow> u64 \<Rightarrow> bool \<Rightarrow> uproc \<Rightarrow> u64 \<times> uproc" where
  "reserve_anon_memory h requested_addr bytes fixed p =
     (let (addr, p) = kcall h (Mmap requested_addr bytes PROT_NONE fixed False) p
      in (if addr = MAP_FAILED then 0 else addr, p))"

text \<open>Committing maps the range again, and a fresh anonymous mapping reads as zeros.\<close>

definition commit_anon_memory :: "uhost \<Rightarrow> u64 \<Rightarrow> u64 \<Rightarrow> bool \<Rightarrow> uproc \<Rightarrow> u64 \<times> uproc" where
  "commit_anon_memory h start_addr n exec p =
     (let (res, p) = kcall h (Mmap start_addr n (if exec then PROT_RWX else PROT_RW) True True) p
      in if res = MAP_FAILED then (0, p)
         else (start_addr, p\<lparr>up_buf := replicate (unat n div 8) 0\<rparr>))"

text \<open>
  The failures of both are printed and the program goes on; the pointer is that of the second.
\<close>

definition map_range :: "uhost \<Rightarrow> u64 \<Rightarrow> u64 \<Rightarrow> uproc \<Rightarrow> u64 \<times> uproc" where
  "map_range h addr n p =
     (let (user_buff, p) = reserve_anon_memory h addr n True p;
          p = report_mapping addr n user_buff p;
          (user_buff, p) = commit_anon_memory h addr n False p
      in (user_buff, report_mapping addr n user_buff p))"

section \<open>Filling and summing\<close>

text \<open>\<^verbatim>\<open>for (i = 0; i < n; i++) buf_ptr[i] = ...\<close>; through a null pointer the first store faults.\<close>

definition fill :: "u64 \<Rightarrow> nat \<Rightarrow> (nat \<Rightarrow> u64) \<Rightarrow> uproc \<Rightarrow> uproc res" where
  "fill ptr n f p =
     (if ptr = 0 \<and> 0 < n then Inl NullDeref
      else Inr (p\<lparr>up_buf := fold (\<lambda>i b. b[i := f i]) [0..<n] (up_buf p)\<rparr>))"

text \<open>\<^verbatim>\<open>for (; i < n; i += step) sum += buf_ptr[i]\<close>, with the elements read.\<close>

function sum_loop :: "nat \<Rightarrow> nat \<Rightarrow> nat \<Rightarrow> u64 list \<Rightarrow> u64 \<Rightarrow> u64" where
  "sum_loop step n i buf acc = (if i < n \<and> 0 < step then sum_loop step n (i + step) buf (acc + buf ! i) else acc)"
  by auto
termination by (relation "measure (\<lambda>(step, n, i, buf, acc). n - i)") auto

declare sum_loop.simps [simp del]

text \<open>The opening of every program of the family: map the range and store each index in its place.\<close>

definition indexed_range :: "uhost \<Rightarrow> u64 \<Rightarrow> u64 \<Rightarrow> uproc \<Rightarrow> (u64 \<times> uproc) res" where
  "indexed_range h request_addr bytes p =
     (let (user_buff, p) = map_range h request_addr bytes p
      in res_bind (fill user_buff (unat bytes div 8) word_of_nat p) (\<lambda>p. Inr (user_buff, p)))"

definition SYS_do_semeru_rdma_ops :: nat where "SYS_do_semeru_rdma_ops = 333"
definition SYS_SWAP_STAT_RESET :: nat where "SYS_SWAP_STAT_RESET = 335"
definition SYS_NUM_SWAP_OUT_PAGES :: nat where "SYS_NUM_SWAP_OUT_PAGES = 336"
definition SYS_ON_DEMAND_SWAPIN :: nat where "SYS_ON_DEMAND_SWAPIN = 337"
definition MADV_FREE :: nat where "MADV_FREE = 8"
definition MADV_FLUSH_RANGE_TO_REMOTE :: nat where "MADV_FLUSH_RANGE_TO_REMOTE = 20"

text \<open>
  A call whose answer is printed as an unsigned long, or as an int; one whose answer is kept; and
  the message printed when it is not zero.
\<close>

definition to_int :: "u64 \<Rightarrow> u64" where
  "to_int r = scast (ucast r :: u32)"

definition show_call :: "uhost \<Rightarrow> ucall \<Rightarrow> uproc \<Rightarrow> uproc" where
  "show_call h c p = (let (r, p) = kcall h c p in print_number r p)"

definition show_int_call :: "uhost \<Rightarrow> ucall \<Rightarrow> uproc \<Rightarrow> uproc" where
  "show_int_call h c p = (let (r, p) = kcall h c p in print_number (to_int r) p)"

definition report_failure :: "u64 \<Rightarrow> uproc \<Rightarrow> uproc" where
  "report_failure ret p = (if to_int ret \<noteq> 0 then print_number (to_int ret) p else p)"

text \<open>The summing loop of the programs that also print every index and element they read.\<close>

function show_sum_loop :: "nat \<Rightarrow> nat \<Rightarrow> nat \<Rightarrow> u64 \<Rightarrow> uproc \<Rightarrow> u64 \<times> uproc" where
  "show_sum_loop step n i acc p =
     (if i < n \<and> 0 < step
      then show_sum_loop step n (i + step) (acc + up_buf p ! i) (print_number (up_buf p ! i) (print_number (word_of_nat i) p))
      else (acc, p))"
  by auto
termination by (relation "measure (\<lambda>(step, n, i, acc, p). n - i)") auto

declare show_sum_loop.simps [simp del]

definition print_sum :: "nat \<Rightarrow> nat \<Rightarrow> uproc \<Rightarrow> uproc" where
  "print_sum step n p = print_number (sum_loop step n 0 (up_buf p) 0) p"

section \<open>The programs\<close>

definition swap_mmap_main :: "uhost \<Rightarrow> uproc res" where
  "swap_mmap_main h =
     (let request_addr = 0x400100000000; size = 0x100000000; n = unat size div 8
      in res_bind (indexed_range h request_addr size start_uproc) (\<lambda>(user_buff, p). Inr (print_sum 1 n p)))"

definition add_page_to_inactive_list_main :: "uhost \<Rightarrow> uproc res" where
  "add_page_to_inactive_list_main h =
     (let request_addr = 0x40000000; size = 0x100000; n = unat size div 8
      in res_bind (indexed_range h request_addr size start_uproc) (\<lambda>(user_buff, p).
         let (ret, p) = kcall h (Madvise user_buff size MADV_FREE) p
         in Inr (print_sum 1 n (report_failure ret p))))"

definition flush_page_to_swap_imm_main :: "uhost \<Rightarrow> uproc res" where
  "flush_page_to_swap_imm_main h =
     (let request_addr = 0x400100000000; size = 0x20000000; n = unat size div 8
      in res_bind (indexed_range h request_addr size start_uproc) (\<lambda>(user_buff, p).
         let (ret, p) = kcall h (Madvise user_buff size MADV_FLUSH_RANGE_TO_REMOTE) p;
             (sum, p) = show_sum_loop 1024 n 0 0 (report_failure ret p)
         in Inr (print_number sum p)))"

definition on_demand_swapin_main :: "uhost \<Rightarrow> uproc res" where
  "on_demand_swapin_main h =
     (let request_addr = 0x40000000; size = 0x100000; n = unat size div 8
      in res_bind (indexed_range h request_addr size start_uproc) (\<lambda>(user_buff, p).
         let p = show_int_call h (Syscall SYS_SWAP_STAT_RESET [request_addr, size]) p;
             p = show_call h (Syscall SYS_NUM_SWAP_OUT_PAGES [request_addr, size]) p;
             p = show_int_call h (Syscall SYS_ON_DEMAND_SWAPIN []) p;
             (ret, p) = kcall h (Madvise user_buff size MADV_FLUSH_RANGE_TO_REMOTE) p;
             p = report_failure ret (show_call h (Syscall SYS_NUM_SWAP_OUT_PAGES [request_addr, size]) p);
             (sum, p) = show_sum_loop 1024 n 0 0 p;
             p = show_call h (Syscall SYS_NUM_SWAP_OUT_PAGES [request_addr, size]) p;
             p = show_int_call h (Syscall SYS_ON_DEMAND_SWAPIN []) p
         in Inr (print_number sum p)))"

definition swap_out_ratio_flush_based_main :: "uhost \<Rightarrow> uproc res" where
  "swap_out_ratio_flush_based_main h =
     (let request_addr = 0x400100000000; size = 0x20000000; n = unat size div 8
      in res_bind (indexed_range h request_addr size start_uproc) (\<lambda>(user_buff, p).
         let p = show_int_call h (Syscall SYS_SWAP_STAT_RESET [request_addr, size]) p;
             p = show_call h (Syscall SYS_NUM_SWAP_OUT_PAGES [request_addr, size]) p;
             (ret, p) = kcall h (Madvise user_buff size MADV_FLUSH_RANGE_TO_REMOTE) p;
             p = report_failure ret (show_call h (Syscall SYS_NUM_SWAP_OUT_PAGES [request_addr, size]) p);
             (sum, p) = show_sum_loop 1024 n 0 0 p;
             p = show_call h (Syscall SYS_NUM_SWAP_OUT_PAGES [request_addr, size]) p
         in Inr (print_number sum p)))"

definition swap_info_count_main :: "uhost \<Rightarrow> uproc res" where
  "swap_info_count_main h =
     (let request_addr = 0x40000000; size = 0x40000000; n = unat size div 8
      in res_bind (indexed_range h request_addr size start_uproc) (\<lambda>(user_buff, p).
         let p = show_int_call h (Syscall SYS_SWAP_STAT_RESET [request_addr, size]) p;
             p = show_call h (Syscall SYS_ON_DEMAND_SWAPIN []) p;
             (sum, p) = show_sum_loop 4096 n 0 0 p;
             p = show_call h (Syscall SYS_ON_DEMAND_SWAPIN []) p;
             p = show_int_call h (Syscall SYS_SWAP_STAT_RESET [request_addr, size]) p;
             (sum, p) = show_sum_loop 512 n 0 sum p;
             p = show_call h (Syscall SYS_ON_DEMAND_SWAPIN []) p
         in Inr (print_number sum p)))"

text \<open>The number of swapped-out pages of every region of the range, when range and start are whole regions.\<close>

definition HEAP_REGION_BYTE_SIZE :: u64 where
  "HEAP_REGION_BYTE_SIZE = push_bit 20 1"

definition print_cache_ration_of_each_region :: "uhost \<Rightarrow> u64 \<Rightarrow> u64 \<Rightarrow> uproc \<Rightarrow> uproc" where
  "print_cache_ration_of_each_region h start bytes p =
     (if start mod HEAP_REGION_BYTE_SIZE \<noteq> 0 then print_number start p
      else if bytes mod HEAP_REGION_BYTE_SIZE \<noteq> 0 then print_number bytes p
      else fold (\<lambda>i p. show_call h (Syscall SYS_NUM_SWAP_OUT_PAGES [start + word_of_nat i * HEAP_REGION_BYTE_SIZE, HEAP_REGION_BYTE_SIZE]) p)
             [0..<unat (bytes div HEAP_REGION_BYTE_SIZE)] p)"

definition swap_out_ratio_info_main :: "uhost \<Rightarrow> uproc res" where
  "swap_out_ratio_info_main h =
     (let request_addr = 0x400100000000; size = 0x20000000; n = unat size div 8;
          p = show_int_call h (Syscall SYS_SWAP_STAT_RESET [request_addr, size]) start_uproc
      in res_bind (indexed_range h request_addr size p) (\<lambda>(user_buff, p).
         let p = show_call h (Syscall SYS_NUM_SWAP_OUT_PAGES [request_addr, size]) p;
             p = print_cache_ration_of_each_region h request_addr size p;
             sum = sum_loop 1 n 0 (up_buf p) 0;
             p = show_call h (Syscall SYS_NUM_SWAP_OUT_PAGES [request_addr, size]) p;
             p = print_cache_ration_of_each_region h request_addr size p
         in Inr (print_number sum p)))"

text \<open>
  The test of inserted translations: every page is read, filled with its number and read again, and
  the page before it is read once more. A process without the modified kernel sees ordinary memory.
\<close>

definition WORDS_PER_PAGE :: nat where
  "WORDS_PER_PAGE = 4096 div 8"

definition tlb_page :: "nat \<Rightarrow> uproc \<Rightarrow> uproc" where
  "tlb_page k p =
     (let j = k * WORDS_PER_PAGE;
          p = print_number (up_buf p ! j) p;
          p = p\<lparr>up_buf := fold (\<lambda>i b. b[j + i := word_of_nat (j div WORDS_PER_PAGE)]) [0..<WORDS_PER_PAGE] (up_buf p)\<rparr>;
          p = (if WORDS_PER_PAGE \<le> j then print_number (up_buf p ! (j - WORDS_PER_PAGE)) p else p)
      in print_number (up_buf p ! j) p)"

definition filled_tlb_entry_check_main :: "uhost \<Rightarrow> uproc res" where
  "filled_tlb_entry_check_main h =
     (let request_addr = 0x400100000000; size = 0x100000; n = unat size div 8;
          (user_buff, p) = map_range h request_addr size start_uproc
      in if user_buff = 0 then Inl NullDeref
         else Inr (print_sum 1 n (fold tlb_page [0..<n div WORDS_PER_PAGE] p)))"

section \<open>What the sums come to\<close>

lemma fill_indices: "length b = n \<Longrightarrow> fold (\<lambda>i b. b[i := f i]) [0..<n] b = map f [0..<n]"
proof -
  have "fold (\<lambda>i b. b[i := f i]) [0..<k] b = map f [0..<k] @ drop k b" if "k \<le> length b" for k
    using that
  proof (induction k)
    case (Suc k)
    then have "drop k b = b ! k # drop (Suc k) b" by (simp add: Cons_nth_drop_Suc)
    with Suc show ?case by (simp add: list_update_append)
  qed simp
  then show "length b = n \<Longrightarrow> ?thesis" by simp
qed

definition triangle :: "nat \<Rightarrow> nat" where
  "triangle m = m * (m - 1) div 2"

lemma triangle_Suc: "triangle (Suc m) = triangle m + m"
  by (cases m) (simp_all add: triangle_def algebra_simps)

lemma sum_loop_step:
  assumes "0 < step" "k \<le> m" "\<forall>i < m * step. buf ! i = word_of_nat i"
  shows "sum_loop step (m * step) (k * step) buf (acc + word_of_nat (step * triangle k)) = acc + word_of_nat (step * triangle m)"
  using assms(2)
proof (induction "m - k" arbitrary: k)
  case 0
  then show ?case by (subst sum_loop.simps) simp
next
  case (Suc j)
  then have k: "k < m" "j = m - Suc k" by simp_all
  then have "k * step < m * step" using assms(1) by simp
  then have "sum_loop step (m * step) (k * step) buf (acc + word_of_nat (step * triangle k))
     = sum_loop step (m * step) (k * step + step) buf (acc + word_of_nat (step * triangle k) + word_of_nat (k * step))"
    using assms(1,3) by (subst sum_loop.simps) (simp del: of_nat_mult)
  moreover have "acc + word_of_nat (step * triangle k) + word_of_nat (k * step) = acc + word_of_nat (step * triangle (Suc k))"
    by (simp add: triangle_Suc algebra_simps flip: of_nat_add of_nat_mult)
  moreover have "k * step + step = Suc k * step" by simp
  ultimately show ?case
    using Suc.hyps(1) [of "Suc k"] k by (simp only: Suc_leI)
qed

lemma sum_loop_indices:
  assumes "0 < step" "\<forall>i < m * step. buf ! i = word_of_nat i"
  shows "sum_loop step (m * step) 0 buf acc = acc + word_of_nat (step * triangle m)"
  using sum_loop_step [OF assms(1) _ assms(2), of 0 acc] by (simp add: triangle_def)

lemma show_sum_loop_sum: "fst (show_sum_loop step n i acc p) = sum_loop step n i (up_buf p) acc"
  "up_buf (snd (show_sum_loop step n i acc p)) = up_buf p"
proof (induction step n i acc p rule: show_sum_loop.induct)
  case (1 step n i acc p)
  {
    case 1
    with "1.IH" show ?case by (subst show_sum_loop.simps, subst sum_loop.simps) (simp add: print_number_def)
  next
    case 2
    with "1.IH" show ?case by (subst show_sum_loop.simps) (simp add: print_number_def)
  }
qed

text \<open>
  A kernel that swaps transparently: no call changes what the range contains, and a mapping is
  given where it is asked for.
\<close>

definition transparent :: "uhost \<Rightarrow> bool" where
  "transparent h \<longleftrightarrow> (\<forall>cs b. uh_effect h cs b = b) \<and> (\<forall>cs a n pr f r. uh_answer h (cs @ [Mmap a n pr f r]) = a)"

lemma transparentD:
  assumes "transparent h"
  shows "uh_effect h cs b = b" "uh_answer h (cs @ [Mmap a n pr f r]) = a"
  using assms by (simp_all add: transparent_def)

lemma print_number_simps [simp]: "up_buf (print_number x p) = up_buf p" "up_out (print_number x p) = up_out p @ [Number x]"
  "up_calls (print_number x p) = up_calls p"
  by (simp_all add: print_number_def)

lemma report_failure_buf [simp]: "up_buf (report_failure r p) = up_buf p"
  by (simp add: report_failure_def)

lemma reserve_result:
  "fst (reserve_anon_memory h a n f p) = (if uh_answer h (up_calls p @ [Mmap a n PROT_NONE f False]) = MAP_FAILED then 0
     else uh_answer h (up_calls p @ [Mmap a n PROT_NONE f False]))"
  "up_out (snd (reserve_anon_memory h a n f p)) = up_out p"
  "up_calls (snd (reserve_anon_memory h a n f p)) = up_calls p @ [Mmap a n PROT_NONE f False]"
  by (simp_all add: reserve_anon_memory_def kcall_def Let_def)

lemma commit_result:
  "fst (commit_anon_memory h a n x p) = (if uh_answer h (up_calls p @ [Mmap a n (if x then PROT_RWX else PROT_RW) True True]) = MAP_FAILED then 0 else a)"
  "up_out (snd (commit_anon_memory h a n x p)) = up_out p"
  "up_calls (snd (commit_anon_memory h a n x p)) = up_calls p @ [Mmap a n (if x then PROT_RWX else PROT_RW) True True]"
  by (simp_all add: commit_anon_memory_def kcall_def Let_def)

lemma map_range_works:
  assumes "transparent h" "addr \<noteq> MAP_FAILED"
  shows "\<exists>p'. map_range h addr n p = (addr, p') \<and> up_buf p' = replicate (unat n div 8) 0"
  using assms
  by (simp add: map_range_def report_mapping_def reserve_anon_memory_def commit_anon_memory_def kcall_def transparentD split_def Let_def)

lemma calls_keep_buf [simp]:
  assumes "transparent h"
  shows "up_buf (snd (kcall h c p)) = up_buf p" "up_buf (show_call h c p) = up_buf p" "up_buf (show_int_call h c p) = up_buf p"
  using assms by (simp_all add: show_call_def show_int_call_def kcall_def transparentD Let_def)

text \<open>After the fill the range holds its own indices, and a loop with a stride that divides it sums them.\<close>

lemma indexed_range_works:
  assumes "transparent h" "addr \<noteq> MAP_FAILED" "addr \<noteq> 0"
  shows "\<exists>q. indexed_range h addr bytes p = Inr (addr, q) \<and> up_buf q = map word_of_nat [0..<unat bytes div 8]"
  using map_range_works [OF assms(1,2), of bytes p] assms(3) by (auto simp: indexed_range_def fill_def fill_indices)

lemma after_indexed_range:
  assumes "transparent h" "addr \<noteq> MAP_FAILED" "addr \<noteq> 0" "unat bytes div 8 = n"
    and "\<And>q. up_buf q = map word_of_nat [0..<n] \<Longrightarrow> \<exists>r. F addr q = Inr r \<and> P r"
  shows "\<exists>r. res_bind (indexed_range h addr bytes p) (\<lambda>(b, q). F b q) = Inr r \<and> P r"
  using indexed_range_works [OF assms(1-3), of bytes p] assms(4,5) by auto

lemma sum_of_indices:
  assumes "0 < step" "n = m * step"
  shows "sum_loop step n 0 (map word_of_nat [0..<n]) acc = acc + word_of_nat (step * triangle m)"
  using assms by (simp add: sum_loop_indices)

lemmas test_simps = print_sum_def show_sum_loop_sum split_def Let_def triangle_def MAP_FAILED_def

lemma cache_ratio_keeps_buf [simp]:
  assumes "transparent h"
  shows "up_buf (print_cache_ration_of_each_region h a bytes p) = up_buf p"
proof -
  have "up_buf (fold (\<lambda>i p. show_call h (c i) p) is p) = up_buf p" for c :: "nat \<Rightarrow> ucall" and "is"
    by (induction "is" arbitrary: p) (simp_all add: assms)
  then show ?thesis by (simp add: print_cache_ration_of_each_region_def)
qed

lemma swap_mmap_sum: "transparent h \<Longrightarrow> \<exists>p. swap_mmap_main h = Inr p \<and> last (up_out p) = Number 0x1FFFFFFF0000000"
  unfolding swap_mmap_main_def Let_def
  by (rule after_indexed_range [where n = 536870912])
    (use sum_of_indices [of 1 536870912 536870912 0] in \<open>simp_all add: test_simps del: upt_rec_numeral\<close>)

lemma add_page_sum: "transparent h \<Longrightarrow> \<exists>p. add_page_to_inactive_list_main h = Inr p \<and> last (up_out p) = Number 0x1FFFF0000"
  unfolding add_page_to_inactive_list_main_def Let_def
  by (rule after_indexed_range [where n = 131072])
    (use sum_of_indices [of 1 131072 131072 0] in \<open>simp_all add: test_simps del: upt_rec_numeral\<close>)

lemma flush_page_sum: "transparent h \<Longrightarrow> \<exists>p. flush_page_to_swap_imm_main h = Inr p \<and> last (up_out p) = Number 0x1FFFE000000"
  unfolding flush_page_to_swap_imm_main_def Let_def
  by (rule after_indexed_range [where n = 67108864])
    (use sum_of_indices [of 1024 67108864 65536 0] in \<open>simp_all add: test_simps del: upt_rec_numeral\<close>)

lemma on_demand_swapin_sum: "transparent h \<Longrightarrow> \<exists>p. on_demand_swapin_main h = Inr p \<and> last (up_out p) = Number 0x7F0000"
  unfolding on_demand_swapin_main_def Let_def
  by (rule after_indexed_range [where n = 131072])
    (use sum_of_indices [of 1024 131072 128 0] in \<open>simp_all add: test_simps del: upt_rec_numeral\<close>)

lemma swap_out_ratio_flush_sum: "transparent h \<Longrightarrow> \<exists>p. swap_out_ratio_flush_based_main h = Inr p \<and> last (up_out p) = Number 0x1FFFE000000"
  unfolding swap_out_ratio_flush_based_main_def Let_def
  by (rule after_indexed_range [where n = 67108864])
    (use sum_of_indices [of 1024 67108864 65536 0] in \<open>simp_all add: test_simps del: upt_rec_numeral\<close>)

lemma swap_out_ratio_info_sum: "transparent h \<Longrightarrow> \<exists>p. swap_out_ratio_info_main h = Inr p \<and> last (up_out p) = Number 0x7FFFFFE000000"
  unfolding swap_out_ratio_info_main_def Let_def
  by (rule after_indexed_range [where n = 67108864])
    (use sum_of_indices [of 1 67108864 67108864 0] in \<open>simp_all add: test_simps del: upt_rec_numeral\<close>)

lemma swap_info_count_sum: "transparent h \<Longrightarrow> \<exists>p. swap_info_count_main h = Inr p \<and> last (up_out p) = Number 0x11FFF8000000"
  unfolding swap_info_count_main_def Let_def
  by (rule after_indexed_range [where n = 134217728])
    (use sum_of_indices [of 4096 134217728 32768 0] sum_of_indices [of 512 134217728 262144 "word_of_nat (4096 * triangle 32768)"] in
      \<open>simp_all add: test_simps del: upt_rec_numeral\<close>)

text \<open>The pages of the translation test: each turn overwrites one page with its number.\<close>

lemma fold_update_block:
  "j + n \<le> length b \<Longrightarrow> fold (\<lambda>i b. b[j + i := c]) [0..<n] b = take j b @ replicate n c @ drop (j + n) b"
proof (induction n)
  case 0
  then show ?case by simp
next
  case (Suc n)
  then have "drop (j + n) b = b ! (j + n) # drop (Suc (j + n)) b" by (simp add: Cons_nth_drop_Suc)
  with Suc show ?case by (simp add: list_update_append replicate_append_same flip: replicate_Suc)
qed

lemma WORDS_PER_PAGE_pos: "0 < WORDS_PER_PAGE"
  by (simp add: WORDS_PER_PAGE_def)

lemma tlb_page_buf:
  "Suc k * WORDS_PER_PAGE \<le> length (up_buf p) \<Longrightarrow>
   up_buf (tlb_page k p) = take (k * WORDS_PER_PAGE) (up_buf p) @ replicate WORDS_PER_PAGE (word_of_nat k) @ drop (Suc k * WORDS_PER_PAGE) (up_buf p)"
  using fold_update_block [of "k * WORDS_PER_PAGE" WORDS_PER_PAGE "up_buf p" "word_of_nat k"] WORDS_PER_PAGE_pos
  by (cases k) (simp_all add: tlb_page_def Let_def add.commute)

lemma tlb_pages_buf:
  assumes "k * WORDS_PER_PAGE \<le> length (up_buf p)"
  shows "up_buf (fold tlb_page [0..<k] p) = concat (map (\<lambda>j. replicate WORDS_PER_PAGE (word_of_nat j)) [0..<k]) @ drop (k * WORDS_PER_PAGE) (up_buf p)"
  using assms
proof (induction k)
  case 0
  then show ?case by simp
next
  case (Suc k)
  have "length (concat (map (\<lambda>j. replicate WORDS_PER_PAGE (word_of_nat j :: u64)) [0..<k])) = k * WORDS_PER_PAGE"
    by (induction k) simp_all
  with Suc show ?case by (simp add: tlb_page_buf)
qed

lemma sum_loop_1: "n \<le> length buf \<Longrightarrow> sum_loop 1 n i buf acc = acc + sum_list (drop i (take n buf))"
proof (induction "n - i" arbitrary: i acc)
  case 0
  then show ?case by (subst sum_loop.simps) simp
next
  case (Suc d)
  then have "drop i (take n buf) = buf ! i # drop (Suc i) (take n buf)"
    by (metis Cons_nth_drop_Suc length_take min.absorb2 nth_take zero_less_Suc zero_less_diff)
  moreover have "i < n" using Suc.hyps(2) by simp
  ultimately show ?case
    using Suc Suc.hyps(1) [of "Suc i" "acc + buf ! i"] by (subst sum_loop.simps) (simp add: add.assoc)
qed

lemma sum_pages: "sum_list (concat (map (\<lambda>j. replicate w (word_of_nat j)) [0..<k])) = (word_of_nat (w * triangle k) :: u64)"
  by (induction k) (simp_all add: triangle_Suc sum_list_replicate algebra_simps, simp add: triangle_def)

lemma tlb_check_sum: 
  assumes "transparent h" shows "\<exists>p. filled_tlb_entry_check_main h = Inr p \<and> last (up_out p) = Number 0xFF0000"
proof -
  obtain q where q: "map_range h 0x400100000000 0x100000 start_uproc = (0x400100000000, q)" "up_buf q = replicate 131072 0"
    using map_range_works [OF assms, of "0x400100000000" "0x100000" start_uproc] by (auto simp: MAP_FAILED_def)
  let ?pages = "concat (map (\<lambda>j. replicate WORDS_PER_PAGE (word_of_nat j)) [0..<256]) :: u64 list"
  have "up_buf (fold tlb_page [0..<256] q) = ?pages"
    using tlb_pages_buf [of 256 q] q(2) by (simp add: WORDS_PER_PAGE_def del: upt_rec_numeral)
  moreover have "length ?pages = 131072"
    by (simp add: length_concat WORDS_PER_PAGE_def sum_list_replicate comp_def map_replicate_const del: upt_rec_numeral)
  ultimately have "sum_loop 1 131072 0 (up_buf (fold tlb_page [0..<256] q)) 0 = 0xFF0000"
    using sum_pages [of WORDS_PER_PAGE 256] sum_loop_1 [of 131072 ?pages 0 0]
    by (simp add: triangle_def WORDS_PER_PAGE_def del: upt_rec_numeral)
  moreover have "(131072::nat) div WORDS_PER_PAGE = 256" by (simp add: WORDS_PER_PAGE_def)
  ultimately show ?thesis
    using q(1) by (simp add: filled_tlb_entry_check_main_def print_sum_def del: upt_rec_numeral)
qed

text \<open>
  On a kernel that swaps transparently every program of the family returns and the last number
  it prints is the sum of the indices, or page numbers, it stored and read back.
\<close>

theorem swap_tests_print_their_sums:
  assumes "transparent h"
  shows "(\<exists>p. swap_mmap_main h = Inr p \<and> last (up_out p) = Number 0x1FFFFFFF0000000)
    \<and> (\<exists>p. add_page_to_inactive_list_main h = Inr p \<and> last (up_out p) = Number 0x1FFFF0000)
    \<and> (\<exists>p. flush_page_to_swap_imm_main h = Inr p \<and> last (up_out p) = Number 0x1FFFE000000)
    \<and> (\<exists>p. on_demand_swapin_main h = Inr p \<and> last (up_out p) = Number 0x7F0000)
    \<and> (\<exists>p. swap_out_ratio_flush_based_main h = Inr p \<and> last (up_out p) = Number 0x1FFFE000000)
    \<and> (\<exists>p. swap_out_ratio_info_main h = Inr p \<and> last (up_out p) = Number 0x7FFFFFE000000)
    \<and> (\<exists>p. swap_info_count_main h = Inr p \<and> last (up_out p) = Number 0x11FFF8000000)
    \<and> (\<exists>p. filled_tlb_entry_check_main h = Inr p \<and> last (up_out p) = Number 0xFF0000)"
  by (intro conjI swap_mmap_sum add_page_sum flush_page_sum on_demand_swapin_sum swap_out_ratio_flush_sum
      swap_out_ratio_info_sum swap_info_count_sum tlb_check_sum assms)

definition demo_uhost :: uhost where
  "demo_uhost = \<lparr>uh_answer = \<lambda>cs. case last cs of Mmap a n pr f r \<Rightarrow> a | _ \<Rightarrow> 0, uh_effect = \<lambda>cs b. b\<rparr>"

theorem swap_tests_print_their_sums_witness:
  "transparent demo_uhost \<and> (\<exists>p. swap_mmap_main demo_uhost = Inr p \<and> last (up_out p) = Number 0x1FFFFFFF0000000)
    \<and> (\<exists>p. filled_tlb_entry_check_main demo_uhost = Inr p \<and> last (up_out p) = Number 0xFF0000)"
proof -
  have t: "transparent demo_uhost" by (simp add: transparent_def demo_uhost_def)
  from t swap_tests_print_their_sums [OF t] show ?thesis by blast
qed

text \<open>A program whose range could not be committed says so and then stores through the null pointer.\<close>

lemma failed_commit_faults:
  assumes "\<And>cs a n f r. uh_answer h (cs @ [Mmap a n PROT_RW f r]) = MAP_FAILED" "8 \<le> unat bytes"
  shows "indexed_range h addr bytes p = Inl NullDeref"
  using assms
  by (simp add: indexed_range_def map_range_def commit_result fill_def split_def Let_def div_greater_zero_iff)

end
