(* ===== verification/Swap_Threads.thy ===== *)
theory Swap_Threads
  imports Swap_Tests
begin

text \<open>
  The swap tests with threads (\<^verbatim>\<open>swap_mmap_multi_thread.cpp\<close>, \<^verbatim>\<open>swap_mmap_dual_path.c\<close>). Every thread
  stores indices into a shared array and reads them back; the three thread functions differ in the
  part of the array they take and in the elements they read. An event is the creation of the next
  thread or one turn of a loop of one thread, so a list of events is an interleaving.
\<close>

section \<open>Threads over a shared array\<close>

datatype scan_kind = No_overleap | Random_overleap | Sequential_overleap

text \<open>The function the threads run, the length of the array, the number of threads and the random numbers drawn.\<close>

record scan_cfg =
  cf_kind :: scan_kind
  cf_len :: nat
  cf_cores :: nat
  cf_rand :: "nat \<Rightarrow> nat \<Rightarrow> u64"

record scan_thread =
  th_i :: nat
  th_reading :: bool
  th_sum :: u64

record scan_state =
  ss_user_buff :: u64
  ss_over :: bool
  ss_buf :: "u64 list"
  ss_threads :: "scan_thread list"

definition array_slice :: "scan_cfg \<Rightarrow> nat" where
  "array_slice c = (case cf_kind c of No_overleap \<Rightarrow> cf_len c div cf_cores c | _ \<Rightarrow> cf_len c)"

definition array_start :: "scan_cfg \<Rightarrow> nat \<Rightarrow> nat" where
  "array_start c tid = (case cf_kind c of No_overleap \<Rightarrow> array_slice c * tid | _ \<Rightarrow> 0)"

definition array_end :: "scan_cfg \<Rightarrow> nat \<Rightarrow> nat" where
  "array_end c tid = array_start c tid + array_slice c"

definition read_step :: "scan_cfg \<Rightarrow> nat" where
  "read_step c = (case cf_kind c of No_overleap \<Rightarrow> 1 | Random_overleap \<Rightarrow> 32 | Sequential_overleap \<Rightarrow> 4096 div 8)"

definition index_to_access :: "scan_cfg \<Rightarrow> nat \<Rightarrow> nat \<Rightarrow> nat" where
  "index_to_access c tid i =
     (case cf_kind c of
        Random_overleap \<Rightarrow> unat ((cf_rand c tid i * word_of_nat i) mod (word_of_nat (array_slice c div 8)))
      | _ \<Rightarrow> i)"

datatype scan_event = Spawn int | Turn nat

definition new_thread :: "scan_cfg \<Rightarrow> nat \<Rightarrow> scan_thread" where
  "new_thread c tid = \<lparr>th_i = array_start c tid, th_reading = False, th_sum = 0\<rparr>"

text \<open>
  One turn of thread \<open>tid\<close>: a store, the change from storing to reading, a read, or nothing once it has exited. When the
  array could not be mapped, the accesses go through the null pointer.
\<close>

definition thread_turn :: "scan_cfg \<Rightarrow> nat \<Rightarrow> scan_state \<Rightarrow> scan_state res" where
  "thread_turn c tid s =
     res_bind (array_get (ss_threads s) tid) (\<lambda>th.
     let i = th_i th; put = (\<lambda>th s. s\<lparr>ss_threads := (ss_threads s)[tid := th]\<rparr>) in
     if \<not> th_reading th then
       if i < array_end c tid
       then if ss_user_buff s = 0 then Inl NullDeref else
            res_bind (array_get (ss_buf s) i) (\<lambda>_.
              Inr (put (th\<lparr>th_i := i + 1\<rparr>) (s\<lparr>ss_buf := (ss_buf s)[i := word_of_nat i]\<rparr>)))
       else Inr (put (th\<lparr>th_i := array_start c tid, th_reading := True, th_sum := 0\<rparr>) s)
     else if i < array_end c tid
       then if ss_user_buff s = 0 then Inl NullDeref else
            res_bind (array_get (ss_buf s) (index_to_access c tid i)) (\<lambda>x.
              Inr (put (th\<lparr>th_i := i + read_step c, th_sum := th_sum th + x\<rparr>) s))
       else Inr s)"

text \<open>The next thread is created, or the creation fails and the program returns, which ends every thread.\<close>

definition threads_step :: "scan_cfg \<Rightarrow> scan_event \<Rightarrow> scan_state \<Rightarrow> scan_state res" where
  "threads_step c e s =
     (if ss_over s then Inr s else
      case e of
        Spawn ret \<Rightarrow> if cf_cores c \<le> length (ss_threads s) then Inr s
                 else if ret \<noteq> 0 then Inr (s\<lparr>ss_over := True\<rparr>)
                 else Inr (s\<lparr>ss_threads := ss_threads s @ [new_thread c (length (ss_threads s))]\<rparr>)
      | Turn tid \<Rightarrow> thread_turn c tid s)"

definition scan_start :: "scan_cfg \<Rightarrow> u64 \<Rightarrow> scan_state" where
  "scan_start c user_buff = \<lparr>ss_user_buff = user_buff, ss_over = False, ss_buf = replicate (cf_len c) 0, ss_threads = []\<rparr>"

fun run_threads :: "scan_cfg \<Rightarrow> scan_event list \<Rightarrow> scan_state \<Rightarrow> scan_state res" where
  "run_threads c [] s = Inr s"
| "run_threads c (e # es) s = res_bind (threads_step c e s) (run_threads c es)"

section \<open>Every interleaving gives every thread the same sum\<close>

definition wf_cfg :: "scan_cfg \<Rightarrow> bool" where
  "wf_cfg c \<longleftrightarrow> 8 \<le> cf_len c \<and> cf_len c < 2 ^ 64 \<and> 0 < cf_cores c"

text \<open>The sum of the first \<open>m\<close> elements a thread reads, when each element is its own index.\<close>

definition read_sum :: "scan_cfg \<Rightarrow> nat \<Rightarrow> nat \<Rightarrow> u64" where
  "read_sum c tid m = (\<Sum>k < m. word_of_nat (index_to_access c tid (array_start c tid + k * read_step c)))"

definition stored :: "u64 list \<Rightarrow> nat \<Rightarrow> nat \<Rightarrow> bool" where
  "stored buf lo hi \<longleftrightarrow> (\<forall>j. lo \<le> j \<and> j < hi \<longrightarrow> buf ! j = word_of_nat j)"

definition thread_ok :: "scan_cfg \<Rightarrow> u64 list \<Rightarrow> nat \<Rightarrow> scan_thread \<Rightarrow> bool" where
  "thread_ok c buf tid th \<longleftrightarrow>
     (if th_reading th
      then stored buf (array_start c tid) (array_end c tid)
        \<and> (\<exists>m. th_i th = array_start c tid + m * read_step c \<and> th_sum th = read_sum c tid m
              \<and> (m = 0 \<or> array_start c tid + (m - 1) * read_step c < array_end c tid))
      else array_start c tid \<le> th_i th \<and> th_i th \<le> array_end c tid \<and> stored buf (array_start c tid) (th_i th))"

definition scan_inv :: "scan_cfg \<Rightarrow> scan_state \<Rightarrow> bool" where
  "scan_inv c s \<longleftrightarrow> ss_user_buff s \<noteq> 0 \<and> length (ss_buf s) = cf_len c \<and> length (ss_threads s) \<le> cf_cores c
     \<and> (\<forall>tid < length (ss_threads s). thread_ok c (ss_buf s) tid (ss_threads s ! tid))"

lemma read_step_pos: "0 < read_step c"
  by (simp add: read_step_def split: scan_kind.split)

lemma array_end_le: "wf_cfg c \<Longrightarrow> tid < cf_cores c \<Longrightarrow> array_end c tid \<le> cf_len c"
proof (cases "cf_kind c")
  case No_overleap
  assume "tid < cf_cores c"
  then have "cf_len c div cf_cores c * Suc tid \<le> cf_len c div cf_cores c * cf_cores c"
    by (intro mult_le_mono2) simp
  also have "\<dots> \<le> cf_len c" by simp
  finally show ?thesis using No_overleap by (simp add: array_end_def array_start_def array_slice_def add.commute)
qed (simp_all add: array_end_def array_start_def array_slice_def)

text \<open>What a thread reads lies in the part of the array it has stored.\<close>

lemma index_in_slice:
  assumes "wf_cfg c" "array_start c tid \<le> i" "i < array_end c tid"
  shows "array_start c tid \<le> index_to_access c tid i \<and> index_to_access c tid i < array_end c tid"
proof (cases "cf_kind c")
  case Random_overleap
  let ?m = "word_of_nat (cf_len c div 8) :: u64"
  have m: "unat ?m = cf_len c div 8" "?m \<noteq> 0"
    using assms(1) by (auto simp: wf_cfg_def unsigned_of_nat take_bit_eq_mod word_of_nat_eq_0_iff nat_dvd_not_less)
  moreover have "0 < cf_len c div 8" using assms(1) by (simp add: wf_cfg_def div_greater_zero_iff)
  ultimately have "unat (x mod ?m) < cf_len c div 8" for x
    by (simp add: unat_mod)
  then show ?thesis
    using Random_overleap assms(1) by (fastforce simp: index_to_access_def array_start_def array_end_def array_slice_def wf_cfg_def intro: less_le_trans)
qed (use assms in \<open>simp_all add: index_to_access_def\<close>)

lemma stored_update: "stored buf lo hi \<Longrightarrow> i < length buf \<Longrightarrow> hi \<le> length buf \<Longrightarrow> stored (buf[i := word_of_nat i]) lo hi"
  by (auto simp: stored_def nth_update_if)

lemma stored_Suc: "stored buf lo i \<Longrightarrow> i < length buf \<Longrightarrow> stored (buf[i := word_of_nat i]) lo (Suc i)"
  by (auto simp: stored_def nth_update_if less_Suc_eq)

lemma read_sum_Suc: "read_sum c tid (Suc m) = read_sum c tid m + word_of_nat (index_to_access c tid (array_start c tid + m * read_step c))"
  by (simp add: read_sum_def)

text \<open>A store of one thread keeps what every other thread has stored.\<close>

lemma thread_ok_store:
  assumes "thread_ok c buf t th" "i < length buf" "array_end c t \<le> length buf"
  shows "thread_ok c (buf[i := word_of_nat i]) t th"
  using assms by (auto simp: thread_ok_def intro: stored_update)

lemma new_thread_ok: "thread_ok c buf tid (new_thread c tid)"
  by (auto simp: thread_ok_def new_thread_def stored_def array_end_def)

lemma thread_ok_read:
  assumes wf: "wf_cfg c" and ok: "thread_ok c buf tid th" and read: "th_reading th" "th_i th < array_end c tid"
  shows "index_to_access c tid (th_i th) < array_end c tid
    \<and> thread_ok c buf tid (th\<lparr>th_i := th_i th + read_step c, th_sum := th_sum th + buf ! index_to_access c tid (th_i th)\<rparr>)"
proof -
  let ?lo = "array_start c tid" and ?hi = "array_end c tid" and ?x = "index_to_access c tid (th_i th)"
  from ok read obtain m where m: "stored buf ?lo ?hi" "th_i th = ?lo + m * read_step c" "th_sum th = read_sum c tid m"
    by (auto simp: thread_ok_def)
  have x: "?lo \<le> ?x" "?x < ?hi" using index_in_slice [OF wf, of tid "th_i th"] read m(2) by auto
  with m(1) have "buf ! ?x = word_of_nat ?x" by (simp add: stored_def)
  with m read x show ?thesis
    by (auto simp: thread_ok_def read_sum_Suc intro!: exI [of _ "Suc m"])
qed

lemma thread_turn_inv:
  assumes wf: "wf_cfg c" and inv: "scan_inv c s" and turn: "thread_turn c tid s = Inr s'"
  shows "scan_inv c s'"
proof -
  from turn have tid: "tid < length (ss_threads s)" by (auto simp: thread_turn_def res_inversion)
  let ?th = "ss_threads s ! tid" and ?lo = "array_start c tid" and ?hi = "array_end c tid"
  have len: "length (ss_buf s) = cf_len c" and ok: "\<And>t. t < length (ss_threads s) \<Longrightarrow> thread_ok c (ss_buf s) t (ss_threads s ! t)"
    and ends: "\<And>t. t < length (ss_threads s) \<Longrightarrow> array_end c t \<le> length (ss_buf s)" and ub: "ss_user_buff s \<noteq> 0"
    using inv array_end_le [OF wf] by (auto simp: scan_inv_def)
  have put: "scan_inv c (s\<lparr>ss_buf := buf, ss_threads := (ss_threads s)[tid := th]\<rparr>)"
    if "length buf = length (ss_buf s)" "thread_ok c buf tid th" "\<And>t. t < length (ss_threads s) \<Longrightarrow> t \<noteq> tid \<Longrightarrow> thread_ok c buf t (ss_threads s ! t)" for buf th
    using that inv by (auto simp: scan_inv_def nth_update_if)
  consider (store) "\<not> th_reading ?th" "th_i ?th < ?hi" | (switch) "\<not> th_reading ?th" "\<not> th_i ?th < ?hi"
    | (read) "th_reading ?th" "th_i ?th < ?hi" | (finished) "th_reading ?th" "\<not> th_i ?th < ?hi" by blast
  then show ?thesis
  proof cases
    case store
    let ?i = "th_i ?th"
    have i: "?i < length (ss_buf s)" using store ends [OF tid] by simp
    with store ok [OF tid] have "thread_ok c ((ss_buf s)[?i := word_of_nat ?i]) tid (?th\<lparr>th_i := ?i + 1\<rparr>)"
      by (auto simp: thread_ok_def stored_Suc)
    then have "scan_inv c (s\<lparr>ss_buf := (ss_buf s)[?i := word_of_nat ?i], ss_threads := (ss_threads s)[tid := ?th\<lparr>th_i := ?i + 1\<rparr>]\<rparr>)"
      by (intro put) (simp_all add: thread_ok_store ok i ends)
    with turn store tid i ub show ?thesis by (simp add: thread_turn_def Let_def)
  next
    case switch
    with ok [OF tid] have "thread_ok c (ss_buf s) tid (?th\<lparr>th_i := ?lo, th_reading := True, th_sum := 0\<rparr>)"
      by (auto simp: thread_ok_def read_sum_def intro!: exI [of _ 0])
    then have "scan_inv c (s\<lparr>ss_buf := ss_buf s, ss_threads := (ss_threads s)[tid := ?th\<lparr>th_i := ?lo, th_reading := True, th_sum := 0\<rparr>]\<rparr>)"
      by (intro put) (simp_all add: ok)
    with turn switch tid show ?thesis by (simp add: thread_turn_def Let_def)
  next
    case read
    let ?x = "index_to_access c tid (th_i ?th)"
    note thread_ok_read [OF wf ok [OF tid] read]
    then have x: "?x < ?hi" and "thread_ok c (ss_buf s) tid (?th\<lparr>th_i := th_i ?th + read_step c, th_sum := th_sum ?th + ss_buf s ! ?x\<rparr>)"
      by simp_all
    then have "scan_inv c (s\<lparr>ss_buf := ss_buf s, ss_threads := (ss_threads s)[tid := ?th\<lparr>th_i := th_i ?th + read_step c, th_sum := th_sum ?th + ss_buf s ! ?x\<rparr>]\<rparr>)"
      by (intro put) (simp_all add: ok)
    with turn read tid x ends [OF tid] ub show ?thesis by (simp add: thread_turn_def Let_def)
  next
    case finished
    with turn tid inv show ?thesis by (simp add: thread_turn_def Let_def)
  qed
qed

lemma threads_step_inv: "wf_cfg c \<Longrightarrow> scan_inv c s \<Longrightarrow> threads_step c e s = Inr s' \<Longrightarrow> scan_inv c s'"
  by (auto simp: threads_step_def thread_turn_inv scan_inv_def nth_append new_thread_ok less_Suc_eq split: scan_event.splits if_splits
      dest: thread_turn_inv)

lemma scan_start_inv: "p \<noteq> 0 \<Longrightarrow> scan_inv c (scan_start c p)"
  by (simp add: scan_inv_def scan_start_def)

interpretation scan_machine: invariant_machine "\<lambda>s. wf_cfg c \<and> (\<exists>p. p \<noteq> 0 \<and> s = scan_start c p)" "threads_step c" "\<lambda>s. wf_cfg c \<and> scan_inv c s" for c
  by unfold_locales (auto simp: scan_start_inv dest: threads_step_inv)

lemma run_threads_run: "run_threads c es s = scan_machine.run c es s"
  by (induction es arbitrary: s) (simp_all cong: res_bind_cong)

lemma turn_returns:
  assumes "wf_cfg c" "scan_inv c s" "tid < length (ss_threads s)"
  shows "\<exists>s'. threads_step c (Turn tid) s = Inr s'"
proof -
  have "ss_user_buff s \<noteq> 0" "array_end c tid \<le> length (ss_buf s)" and "thread_ok c (ss_buf s) tid (ss_threads s ! tid)"
    using assms array_end_le [of c tid] by (auto simp: scan_inv_def)
  then show ?thesis
    using assms(3) thread_ok_read [OF assms(1), of "ss_buf s" tid "ss_threads s ! tid"]
    by (auto simp: threads_step_def thread_turn_def Let_def)
qed

lemma rounds_eq:
  fixes m :: nat
  assumes "0 < st" "len \<le> m * st" "m = 0 \<or> (m - 1) * st < len"
  shows "m = (len + st - 1) div st"
proof -
  have "st * m \<le> len + st - 1" using assms by (cases m) (auto simp: algebra_simps)
  moreover have "len + st - 1 < st * Suc m" using assms(1,2) by (auto simp: algebra_simps)
  ultimately have "(len + st - 1) div st = m" by (intro div_nat_eqI) (simp_all add: mult.commute)
  then show ?thesis by simp
qed


definition demo_cfg :: scan_cfg where
  "demo_cfg = \<lparr>cf_kind = Random_overleap, cf_len = 16, cf_cores = 2, cf_rand = \<lambda>tid i. 7\<rparr>"

text \<open>Two threads whose stores alternate; the first reads while the second still stores.\<close>

definition demo_schedule :: "scan_event list" where
  "demo_schedule = [Spawn 0, Turn 0, Spawn 0] @ concat (replicate 8 [Turn 0, Turn 1]) @ replicate 10 (Turn 0)"


text \<open>
  The main thread of the first program: it maps the array and reports a failure, and goes on with the null pointer; then it creates the
  threads, which all run the random scan. The first turn of a thread then stores through the null pointer.
\<close>

definition MULTI_START_ADDR :: u64 where "MULTI_START_ADDR = 0x400000000000 - 3 * 0x40000000 - 0x100000"
definition MULTI_ARRAY_BYTE_SIZE :: u64 where "MULTI_ARRAY_BYTE_SIZE = 11 * 0x40000000"
definition MULTI_CORES :: nat where "MULTI_CORES = 8"

definition multi_thread_cfg :: "(nat \<Rightarrow> nat \<Rightarrow> u64) \<Rightarrow> scan_cfg" where
  "multi_thread_cfg rand = \<lparr>cf_kind = Random_overleap, cf_len = unat MULTI_ARRAY_BYTE_SIZE div 8, cf_cores = MULTI_CORES, cf_rand = rand\<rparr>"

definition multi_thread_main :: "uhost \<Rightarrow> (nat \<Rightarrow> nat \<Rightarrow> u64) \<Rightarrow> scan_event list \<Rightarrow> (printed list \<times> scan_state) res" where
  "multi_thread_main h rand es =
     (let (user_buff, p) = map_range h MULTI_START_ADDR MULTI_ARRAY_BYTE_SIZE start_uproc
      in res_bind (run_threads (multi_thread_cfg rand) es (scan_start (multi_thread_cfg rand) user_buff)) (\<lambda>s. Inr (up_out p, s)))"

lemma unmapped_scan_faults:
  assumes "fst (map_range h MULTI_START_ADDR MULTI_ARRAY_BYTE_SIZE start_uproc) = 0"
  shows "multi_thread_main h rand [Spawn 0, Turn 0] = Inl NullDeref"
  using assms by (simp add: multi_thread_main_def split_def scan_start_def threads_step_def thread_turn_def new_thread_def array_start_def
      array_end_def array_slice_def multi_thread_cfg_def Let_def) (simp add: MULTI_ARRAY_BYTE_SIZE_def MULTI_CORES_def)

section \<open>Two paths\<close>

text \<open>
  The program that fills one range through the fast path and one through the slow path. After the
  second commit it looks at the pointer of the first. Each thread gets its own range.
\<close>

definition DUAL_ARRAY_BYTE_SIZE :: u64 where
  "DUAL_ARRAY_BYTE_SIZE = 0x80000000"

definition dual_path_buffers :: "uhost \<Rightarrow> u64 \<times> u64 \<times> uproc" where
  "dual_path_buffers h =
     (let fast = 0x400000000000; slow = 0x300000000000; n = DUAL_ARRAY_BYTE_SIZE;
          (user_buff, p) = reserve_anon_memory h fast n True start_uproc;
          p = report_mapping fast n user_buff p;
          (user_buff_slow_path, p) = reserve_anon_memory h slow n True p;
          p = report_mapping slow n user_buff_slow_path p;
          (user_buff, p) = commit_anon_memory h fast n False p;
          p = report_mapping fast n user_buff p;
          (user_buff_slow_path, p) = commit_anon_memory h slow n False p;
          p = p\<lparr>up_out := up_out p @ [if user_buff = 0 then Mapping_failed slow else Mapping user_buff_slow_path n]\<rparr>
      in (user_buff, user_buff_slow_path, p))"

text \<open>The thread function on its own range, which reads zeros at first; a wrong identifier leaves an empty range.\<close>

definition dual_path_thread :: "u64 \<Rightarrow> u64 \<Rightarrow> nat \<Rightarrow> u64 res" where
  "dual_path_thread fast slow tid =
     (let (user_buff, slice) =
            (if tid = 0 then (fast, unat DUAL_ARRAY_BYTE_SIZE div 8)
             else if tid = 1 then (slow, unat DUAL_ARRAY_BYTE_SIZE div 8)
             else (0, 0))
      in res_bind (fill user_buff slice word_of_nat (start_uproc\<lparr>up_buf := replicate slice 0\<rparr>)) (\<lambda>p.
         Inr (sum_loop 1 slice 0 (up_buf p) 0)))"

lemma dual_path_thread_sum:
  "p \<noteq> 0 \<Longrightarrow> dual_path_thread p q 0 = Inr 0x7FFFFFF8000000" "q \<noteq> 0 \<Longrightarrow> dual_path_thread p q 1 = Inr 0x7FFFFFF8000000"
  using sum_of_indices [of 1 268435456 268435456 0]
  by (simp_all add: dual_path_thread_def DUAL_ARRAY_BYTE_SIZE_def fill_def fill_indices triangle_def del: upt_rec_numeral)

text \<open>
  A failed commit of the slow range is reported as a mapping at address zero, and the second thread
  stores through the null pointer.
\<close>

lemma failed_slow_commit_is_reported_as_success:
  assumes "\<And>cs. uh_answer h cs =
    (case last cs of Mmap a n pr f r \<Rightarrow> if a = 0x300000000000 \<and> pr = PROT_RW then MAP_FAILED else a | _ \<Rightarrow> 0)"
  shows "\<exists>p. dual_path_buffers h = (0x400000000000, 0, p) \<and> last (up_out p) = Mapping 0 DUAL_ARRAY_BYTE_SIZE
     \<and> dual_path_thread 0x400000000000 0 1 = Inl NullDeref"
  using assms
  by (simp add: dual_path_buffers_def reserve_result commit_result report_mapping_def split_def Let_def
      dual_path_thread_def fill_def MAP_FAILED_def) (simp add: DUAL_ARRAY_BYTE_SIZE_def)

text \<open>The random reads of the threads stay in the first eighth of the array.\<close>

lemma random_reads_stay_in_the_first_eighth:
  assumes "wf_cfg c" "cf_kind c = Random_overleap"
  shows "index_to_access c tid i < cf_len c div 8"
proof -
  have "unat (word_of_nat (cf_len c div 8) :: u64) = cf_len c div 8" "0 < cf_len c div 8"
    using assms(1) by (auto simp: wf_cfg_def unsigned_of_nat take_bit_eq_mod div_greater_zero_iff)
  then show ?thesis using assms(2) by (simp add: index_to_access_def array_slice_def unat_mod)
qed

end
