(* ===== verification/Flush_Threads.thy ===== *)
theory Flush_Threads
  imports Swap_Tests
begin

text \<open>
  The test whose threads force their own part of the array out to the memory server
  (\<^verbatim>\<open>src/Kernel-dev/syscall/cp_flush_and_send_flag.cpp\<close>). Every thread stores the indices of its slice, asks the
  kernel to swap the slice out, and reads it back. An event is a thread that is created or one turn of a loop of a
  thread; a list of events is an interleaving.
\<close>

section \<open>The program\<close>

text \<open>The address and size of the array and the number of threads; the program has one choice of them.\<close>

record flush_cfg =
  fc_addr :: u64
  fc_bytes :: u64
  fc_cores :: nat

definition code_cfg :: flush_cfg where
  "code_cfg = \<lparr>fc_addr = 0x400100000000, fc_bytes = 128 * 1048576, fc_cores = 8\<rparr>"

datatype flush_phase = Storing | Flushing | Reading | Exited

record flush_thread =
  ft_phase :: flush_phase
  ft_i :: nat
  ft_sum :: u64
  ft_ret :: u64

record flush_state =
  fs_user_buff :: u64
  fs_proc :: uproc
  fs_threads :: "flush_thread list"
  fs_over :: bool

definition flush_slice :: "flush_cfg \<Rightarrow> nat" where
  "flush_slice c = unat (fc_bytes c) div 8 div fc_cores c"

definition flush_first :: "flush_cfg \<Rightarrow> nat \<Rightarrow> nat" where
  "flush_first c tid = flush_slice c * tid"

definition flush_last :: "flush_cfg \<Rightarrow> nat \<Rightarrow> nat" where
  "flush_last c tid = flush_first c tid + flush_slice c"

text \<open>The system call of the second phase: type 4 to server 0, with the bytes of the slice.\<close>

definition flush_call :: "flush_cfg \<Rightarrow> u64 \<Rightarrow> nat \<Rightarrow> ucall" where
  "flush_call c user_buff tid =
     (let array_slice_byte = word_of_nat (flush_slice c) * 8;
          flush_start_byte_addr = user_buff + word_of_nat tid * array_slice_byte
      in Syscall SYS_do_semeru_rdma_ops [4, 0, flush_start_byte_addr, array_slice_byte])"

text \<open>One turn of a thread; an access through the null pointer faults.\<close>

definition flush_turn :: "uhost \<Rightarrow> flush_cfg \<Rightarrow> nat \<Rightarrow> flush_state \<Rightarrow> flush_state res" where
  "flush_turn h c tid s =
     res_bind (array_get (fs_threads s) tid) (\<lambda>th.
     let i = ft_i th; p = fs_proc s; put = (\<lambda>th p. s\<lparr>fs_threads := (fs_threads s)[tid := th], fs_proc := p\<rparr>) in
     case ft_phase th of
       Storing \<Rightarrow>
         if i < flush_last c tid
         then if fs_user_buff s = 0 then Inl NullDeref
              else res_bind (array_get (up_buf p) i) (\<lambda>_.
                   Inr (put (th\<lparr>ft_i := i + 1\<rparr>) (p\<lparr>up_buf := (up_buf p)[i := word_of_nat i]\<rparr>)))
         else Inr (put (th\<lparr>ft_phase := Flushing\<rparr>) p)
     | Flushing \<Rightarrow>
         let (syscall_ret, p) = kcall h (flush_call c (fs_user_buff s) tid) p
         in Inr (put (th\<lparr>ft_phase := Reading, ft_i := flush_first c tid, ft_sum := 0, ft_ret := to_int syscall_ret\<rparr>)
                   (print_number (to_int syscall_ret) p))
     | Reading \<Rightarrow>
         if i < flush_last c tid
         then if fs_user_buff s = 0 then Inl NullDeref
              else res_bind (array_get (up_buf p) i) (\<lambda>x. Inr (put (th\<lparr>ft_i := i + 1, ft_sum := ft_sum th + x\<rparr>) p))
         else Inr (put (th\<lparr>ft_phase := Exited\<rparr>) (print_number (ft_sum th) p))
     | Exited \<Rightarrow> Inr s)"

text \<open>
  The main thread maps the array and goes on even when that fails, and creates one thread after the other. When a
  creation fails the program returns, which ends every thread; otherwise the main thread leaves and the others go on.
\<close>

definition flush_start :: "uhost \<Rightarrow> flush_cfg \<Rightarrow> flush_state" where
  "flush_start h c =
     (let (user_buff, p) = map_range h (fc_addr c) (fc_bytes c) start_uproc
      in \<lparr>fs_user_buff = user_buff, fs_proc = p, fs_threads = [], fs_over = False\<rparr>)"

datatype flush_event = Create nat int | Advance nat

definition create_thread :: "flush_cfg \<Rightarrow> nat \<Rightarrow> int \<Rightarrow> flush_state \<Rightarrow> flush_state" where
  "create_thread c i ret s =
     (if ret \<noteq> 0 then s\<lparr>fs_over := True\<rparr>
      else s\<lparr>fs_threads := fs_threads s @ [\<lparr>ft_phase = Storing, ft_i = flush_first c i, ft_sum = 0, ft_ret = 0\<rparr>]\<rparr>)"

definition flush_step :: "uhost \<Rightarrow> flush_cfg \<Rightarrow> flush_event \<Rightarrow> flush_state \<Rightarrow> flush_state res" where
  "flush_step h c e s =
     (if fs_over s then Inr s else
      case e of
        Create i ret \<Rightarrow> Inr (if i = length (fs_threads s) \<and> i < fc_cores c then create_thread c i ret s else s)
      | Advance tid \<Rightarrow> flush_turn h c tid s)"

fun run_flush :: "uhost \<Rightarrow> flush_cfg \<Rightarrow> flush_event list \<Rightarrow> flush_state \<Rightarrow> flush_state res" where
  "run_flush h c [] s = Inr s"
| "run_flush h c (e # es) s = res_bind (flush_step h c e s) (run_flush h c es)"

section \<open>What the kernel promises\<close>

text \<open>The array fits into the address space, and the mapping calls answer with the address asked for.\<close>

definition wf_flush :: "uhost \<Rightarrow> flush_cfg \<Rightarrow> bool" where
  "wf_flush h c \<longleftrightarrow> 0 < fc_cores c \<and> fc_addr c \<noteq> 0 \<and> unat (fc_addr c) + unat (fc_bytes c) < 2 ^ 64 \<and>
     fs_user_buff (flush_start h c) = fc_addr c"

text \<open>
  Swapping a range out leaves the memory outside the range alone; and, where it is assumed, what thread \<open>tid\<close> swaps out
  reads as before afterwards.
\<close>

definition flush_confined :: "uhost \<Rightarrow> flush_cfg \<Rightarrow> bool" where
  "flush_confined h c \<longleftrightarrow> (\<forall>cs t server addr n buf.
     let buf' = uh_effect h (cs @ [Syscall SYS_do_semeru_rdma_ops [t, server, addr, n]]) buf
     in length buf' = length buf \<and>
        (\<forall>j < length buf. unat (fc_addr c) + 8 * j < unat addr \<or> unat addr + unat n \<le> unat (fc_addr c) + 8 * j \<longrightarrow> buf' ! j = buf ! j))"

definition flush_transparent :: "uhost \<Rightarrow> flush_cfg \<Rightarrow> nat \<Rightarrow> bool" where
  "flush_transparent h c tid \<longleftrightarrow> (\<forall>cs buf. uh_effect h (cs @ [flush_call c (fc_addr c) tid]) buf = buf)"

section \<open>Slices\<close>

lemma flush_last_le: "tid < fc_cores c \<Longrightarrow> flush_last c tid \<le> unat (fc_bytes c) div 8"
proof -
  assume "tid < fc_cores c"
  then have "flush_slice c * Suc tid \<le> flush_slice c * fc_cores c" by (intro mult_le_mono2) simp
  also have "\<dots> \<le> unat (fc_bytes c) div 8" by (simp add: flush_slice_def)
  finally show ?thesis by (simp add: flush_last_def flush_first_def add.commute)
qed

lemma slices_apart: "t \<noteq> tid \<Longrightarrow> flush_last c t \<le> flush_first c tid \<or> flush_last c tid \<le> flush_first c t"
proof -
  have "flush_last c a \<le> flush_first c b" if "a < b" for a b
    using mult_le_mono2 [of "Suc a" b "flush_slice c"] that by (simp add: flush_last_def flush_first_def)
  moreover assume "t \<noteq> tid"
  ultimately show ?thesis by (meson linorder_neqE_nat)
qed

text \<open>The bytes the system call names are exactly those of the elements of the slice.\<close>

lemma flush_call_range:
  assumes "wf_flush h c" "tid < fc_cores c"
  shows "\<exists>addr n. flush_call c (fc_addr c) tid = Syscall SYS_do_semeru_rdma_ops [4, 0, addr, n] \<and>
    unat addr = unat (fc_addr c) + 8 * flush_first c tid \<and> unat n = 8 * flush_slice c"
proof -
  let ?n = "word_of_nat (flush_slice c) * 8 :: u64" and ?a = "fc_addr c"
  have le: "8 * flush_last c tid \<le> unat (fc_bytes c)" using flush_last_le [OF assms(2)] by simp
  have small: "unat ?a + 8 * flush_last c tid < 2 ^ 64" using assms(1) le by (simp add: wf_flush_def)
  have n: "?n = word_of_nat (8 * flush_slice c)" by simp
  have m: "word_of_nat tid * ?n = (word_of_nat (8 * flush_first c tid) :: u64)" by (simp add: flush_first_def)
  have un: "unat ?n = 8 * flush_slice c" using small unfolding n by (simp only: unsigned_of_nat flush_last_def) (simp add: take_bit_nat_eq_self)
  have um: "unat (word_of_nat tid * ?n :: u64) = 8 * flush_first c tid"
    using small unfolding m by (simp only: unsigned_of_nat flush_last_def) (simp add: take_bit_nat_eq_self)
  have "unat (?a + word_of_nat tid * ?n) = unat ?a + 8 * flush_first c tid"
    by (subst unat_add_no_overflow) (use um small in \<open>simp_all add: flush_last_def\<close>)
  with un show ?thesis by (auto simp: flush_call_def Let_def)
qed

section \<open>A thread keeps to its slice\<close>

definition flush_inv :: "flush_cfg \<Rightarrow> flush_state \<Rightarrow> bool" where
  "flush_inv c s \<longleftrightarrow> length (up_buf (fs_proc s)) = unat (fc_bytes c) div 8 \<and> fs_user_buff s = fc_addr c \<and>
     length (fs_threads s) \<le> fc_cores c \<and>
     (\<forall>tid < length (fs_threads s). flush_first c tid \<le> ft_i (fs_threads s ! tid) \<and> ft_i (fs_threads s ! tid) \<le> flush_last c tid)"

text \<open>What a thread has: its own variables and the elements of its slice.\<close>

definition slice_view :: "flush_cfg \<Rightarrow> nat \<Rightarrow> flush_state \<Rightarrow> flush_thread \<times> u64 list" where
  "slice_view c tid s = (fs_threads s ! tid, map (\<lambda>j. up_buf (fs_proc s) ! j) [flush_first c tid..<flush_last c tid])"

definition slice_held :: "flush_cfg \<Rightarrow> nat \<Rightarrow> flush_thread \<times> u64 list \<Rightarrow> flush_state \<Rightarrow> bool" where
  "slice_held c tid x s \<longleftrightarrow> tid < length (fs_threads s) \<and> slice_view c tid s = x"

definition same_outside :: "flush_cfg \<Rightarrow> nat \<Rightarrow> u64 list \<Rightarrow> u64 list \<Rightarrow> bool" where
  "same_outside c tid buf buf' \<longleftrightarrow> length buf' = length buf \<and>
     (\<forall>j < length buf. j < flush_first c tid \<or> flush_last c tid \<le> j \<longrightarrow> buf' ! j = buf ! j)"

lemma same_outside_refl [simp]: "same_outside c tid buf buf"
  by (simp add: same_outside_def)

lemma same_outside_store: "flush_first c tid \<le> i \<Longrightarrow> i < flush_last c tid \<Longrightarrow> same_outside c tid buf (buf[i := x])"
  by (auto simp: same_outside_def)

lemma flush_call_confined:
  assumes "wf_flush h c" "flush_confined h c" "tid < fc_cores c"
  shows "same_outside c tid buf (uh_effect h (cs @ [flush_call c (fc_addr c) tid]) buf)"
proof -
  obtain addr n where call: "flush_call c (fc_addr c) tid = Syscall SYS_do_semeru_rdma_ops [4, 0, addr, n]"
    and addr: "unat addr = unat (fc_addr c) + 8 * flush_first c tid" and n: "unat n = 8 * flush_slice c"
    using flush_call_range [OF assms(1,3)] by blast
  have "unat addr + unat n = unat (fc_addr c) + 8 * flush_last c tid" by (simp add: addr n flush_last_def)
  with addr assms(2) show ?thesis unfolding same_outside_def call flush_confined_def Let_def by auto
qed

text \<open>The effect of a turn: one thread is changed, the array only in the slice of this thread, and calls are added.\<close>

lemma flush_turn_effect:
  assumes wf: "wf_flush h c" "flush_confined h c" and inv: "flush_inv c s" and turn: "flush_turn h c tid s = Inr s'"
  obtains th' p' ext where "tid < length (fs_threads s)" and "s' = s\<lparr>fs_threads := (fs_threads s)[tid := th'], fs_proc := p'\<rparr>"
    and "same_outside c tid (up_buf (fs_proc s)) (up_buf p')" and "up_calls p' = up_calls (fs_proc s) @ ext"
    and "flush_first c tid \<le> ft_i th'" and "ft_i th' \<le> flush_last c tid"
proof -
  let ?th = "fs_threads s ! tid" and ?p = "fs_proc s"
  from turn have tid: "tid < length (fs_threads s)" by (auto simp: flush_turn_def res_inversion)
  with inv have i: "flush_first c tid \<le> ft_i ?th" "ft_i ?th \<le> flush_last c tid" and ub: "fs_user_buff s = fc_addr c"
    and cores: "tid < fc_cores c" by (auto simp: flush_inv_def)
  have ends: "flush_first c tid \<le> flush_last c tid" by (simp add: flush_last_def)
  have kept: "s = s\<lparr>fs_threads := (fs_threads s)[tid := ?th], fs_proc := ?p\<rparr>" by simp
  note that' = that [OF tid _ _ _ _]
  show thesis
  proof (cases "ft_phase ?th")
    case Storing
    with turn tid i ends show thesis
      by (auto simp: flush_turn_def Let_def res_inversion same_outside_store split: if_splits intro!: that' [of _ _ "[]"])
  next
    case Flushing
    with turn tid ub cores ends show thesis
      by (auto simp: flush_turn_def Let_def kcall_def print_number_def flush_call_confined [OF wf] intro!: that')
  next
    case Reading
    with turn tid i ends show thesis
      by (auto simp: flush_turn_def Let_def res_inversion print_number_def split: if_splits intro!: that' [of _ _ "[]"])
  next
    case Exited
    with turn tid have "s' = s" by (simp add: flush_turn_def Let_def)
    with that' [of ?p ?th "[]"] kept i show thesis by simp
  qed
qed

lemma flush_turn_inv:
  assumes "wf_flush h c" "flush_confined h c" "flush_inv c s" "flush_turn h c tid s = Inr s'"
  shows "flush_inv c s'"
  by (rule flush_turn_effect [OF assms]) (use assms(3) in \<open>auto simp: flush_inv_def same_outside_def nth_update_if\<close>)

lemma create_thread_inv:
  "flush_inv c s \<Longrightarrow> i = length (fs_threads s) \<Longrightarrow> i < fc_cores c \<Longrightarrow> flush_inv c (create_thread c i ret s)"
  by (auto simp: flush_inv_def create_thread_def nth_append flush_last_def less_Suc_eq)

lemma flush_step_inv:
  "wf_flush h c \<Longrightarrow> flush_confined h c \<Longrightarrow> flush_inv c s \<Longrightarrow> flush_step h c e s = Inr s' \<Longrightarrow> flush_inv c s'"
  by (auto simp: flush_step_def create_thread_inv split: flush_event.splits if_splits intro: flush_turn_inv)

lemma flush_start_inv:
  assumes "wf_flush h c"
  shows "flush_inv c (flush_start h c)"
  using assms by (auto simp: wf_flush_def flush_inv_def flush_start_def map_range_def commit_anon_memory_def report_mapping_def
      Let_def split: prod.splits if_splits)

fun flush_actors :: "flush_event \<Rightarrow> nat set" where
  "flush_actors (Create i ret) = {i}"
| "flush_actors (Advance tid) = {tid}"

lemma slice_view_other:
  assumes "same_outside c t (up_buf (fs_proc s)) (up_buf p')" "t \<noteq> tid" "flush_last c tid \<le> length (up_buf (fs_proc s))"
  shows "slice_view c tid (s\<lparr>fs_threads := (fs_threads s)[t := th'], fs_proc := p'\<rparr>) = slice_view c tid s"
  using assms slices_apart [of t tid c] by (auto simp: slice_view_def same_outside_def)

lemma flush_step_keeps:
  assumes "wf_flush h c" "flush_confined h c" "flush_inv c s" "flush_step h c e s = Inr s'" "tid \<notin> flush_actors e"
  shows "slice_held c tid x s' = slice_held c tid x s"
proof (cases e)
  case (Create i ret)
  with assms(4,5) show ?thesis
    by (auto simp: flush_step_def create_thread_def slice_held_def slice_view_def nth_append split: if_splits)
next
  case (Advance t)
  show ?thesis
  proof (cases "fs_over s")
    case True
    with assms(4) show ?thesis by (simp add: flush_step_def)
  next
    case False
    with assms(4) Advance have turn: "flush_turn h c t s = Inr s'" by (simp add: flush_step_def)
    show ?thesis
    proof (rule flush_turn_effect [OF assms(1,2,3) turn])
      fix th' p'
      assume s': "s' = s\<lparr>fs_threads := (fs_threads s)[t := th'], fs_proc := p'\<rparr>"
        and out: "same_outside c t (up_buf (fs_proc s)) (up_buf p')"
      have "slice_view c tid s' = slice_view c tid s" if "tid < length (fs_threads s)"
        unfolding s' by (rule slice_view_other [OF out])
          (use assms(3,5) Advance that flush_last_le [of tid c] in \<open>auto simp: flush_inv_def\<close>)
      then show ?thesis by (auto simp: slice_held_def s')
    qed
  qed
qed

interpretation flush_machine: isolated_machine "\<lambda>s. wf_flush h c \<and> flush_confined h c \<and> s = flush_start h c" "flush_step h c"
  "\<lambda>s. wf_flush h c \<and> flush_confined h c \<and> flush_inv c s" flush_actors "slice_held c" for h c
  by unfold_locales (auto simp: flush_start_inv flush_step_keeps dest: flush_step_inv)

lemma run_flush_run: "run_flush h c es s = flush_machine.run h c es s"
  by (induction es arbitrary: s) (simp_all cong: res_bind_cong)

text \<open>
  C24. Whatever the interleaving, between two of its own turns a thread finds its variables and every element of its slice as it
  left them, as long as the kernel does nothing to the memory outside a range it swaps out: the ranges the threads name in their system calls are
  exactly their slices, and these are disjoint. This holds even if what the kernel swaps out is lost.
\<close>

theorem slices_are_isolated:
  assumes "wf_flush h c" and "flush_confined h c"
    and "run_flush h c es (flush_start h c) = Inr s" and "run_flush h c fs s = Inr s'"
    and "tid < length (fs_threads s)" and "Advance tid \<notin> set fs"
  shows "tid < length (fs_threads s') \<and> slice_view c tid s' = slice_view c tid s"
proof -
  let ?gs = "filter (\<lambda>e. tid \<notin> flush_actors e) fs"
  have "run_flush h c fs s = run_flush h c ?gs s" if "tid < length (fs_threads s)" "Advance tid \<notin> set fs" for s
    using that
  proof (induction fs arbitrary: s)
    case Nil
    then show ?case by simp
  next
    case (Cons e fs)
    show ?case
    proof (cases "tid \<in> flush_actors e")
      case True
      with Cons.prems obtain ret where "e = Create tid ret" by (cases e) auto
      with Cons.prems have "flush_step h c e s = Inr s" by (simp add: flush_step_def)
      with Cons True show ?thesis by simp
    next
      case False
      have "tid < length (fs_threads t)" if "flush_step h c e s = Inr t" for t
        using that Cons.prems(1) by (auto simp: flush_step_def flush_turn_def create_thread_def Let_def res_inversion
            split: if_splits flush_event.splits flush_phase.splits prod.splits)
      with Cons False show ?thesis by (auto intro!: res_bind_cong)
    qed
  qed
  then have "run_flush h c ?gs s = Inr s'" using assms(4-6) by simp
  then have "slice_held c tid (slice_view c tid s) s' = slice_held c tid (slice_view c tid s) s"
    using assms(1-3) unfolding run_flush_run by (intro flush_machine.held_until_acts [where es = es]) auto
  with assms(5) show ?thesis by (simp add: slice_held_def)
qed

text \<open>A small array, and a kernel that loses what it swaps out.\<close>

definition small_cfg :: flush_cfg where
  "small_cfg = \<lparr>fc_addr = 64, fc_bytes = 32, fc_cores = 2\<rparr>"

definition lossy_kernel :: uhost where
  "lossy_kernel = \<lparr>uh_answer = (\<lambda>cs. case last cs of Mmap a n pr f r \<Rightarrow> a | _ \<Rightarrow> 0),
     uh_effect = (\<lambda>cs buf. case last cs of
        Syscall k [t, server, addr, n] \<Rightarrow>
          map (\<lambda>j. if unat addr \<le> 64 + 8 * j \<and> 64 + 8 * j < unat addr + unat n then 0 else buf ! j) [0..<length buf]
      | _ \<Rightarrow> buf)\<rparr>"

lemma lossy_kernel_confined: "wf_flush lossy_kernel small_cfg" "flush_confined lossy_kernel small_cfg"
  by (auto simp: lossy_kernel_def wf_flush_def small_cfg_def flush_start_def map_range_def reserve_anon_memory_def commit_anon_memory_def
      report_mapping_def kcall_def MAP_FAILED_def flush_confined_def Let_def)

definition lossy_schedule :: "flush_event list" where
  "lossy_schedule = [Create 0 0, Create 1 0] @ replicate 3 (Advance 1) @ replicate 6 (Advance 0)"

theorem slices_are_isolated_witness:
  "\<exists>s s'. run_flush lossy_kernel small_cfg lossy_schedule (flush_start lossy_kernel small_cfg) = Inr s \<and>
     run_flush lossy_kernel small_cfg [Advance 1, Advance 1, Advance 1] s = Inr s' \<and>
     map snd [slice_view small_cfg 0 s, slice_view small_cfg 1 s] = [[0, 0], [2, 3]] \<and>
     slice_view small_cfg 0 s' = slice_view small_cfg 0 s \<and> snd (slice_view small_cfg 1 s') = [0, 0]"
proof -
  let ?fs = "[Advance 1, Advance 1, Advance 1]"
  have "case run_flush lossy_kernel small_cfg lossy_schedule (flush_start lossy_kernel small_cfg) of Inl _ \<Rightarrow> False
    | Inr s \<Rightarrow> length (fs_threads s) = 2 \<and> map snd [slice_view small_cfg 0 s, slice_view small_cfg 1 s] = [[0, 0], [2, 3]] \<and>
       (case run_flush lossy_kernel small_cfg ?fs s of Inl _ \<Rightarrow> False | Inr s' \<Rightarrow> snd (slice_view small_cfg 1 s') = [0, 0])"
    by code_simp
  then obtain s s' where s: "run_flush lossy_kernel small_cfg lossy_schedule (flush_start lossy_kernel small_cfg) = Inr s"
      "length (fs_threads s) = 2" "run_flush lossy_kernel small_cfg ?fs s = Inr s'" "snd (slice_view small_cfg 1 s') = [0, 0]"
      "map snd [slice_view small_cfg 0 s, slice_view small_cfg 1 s] = [[0, 0], [2, 3]]"
    by (auto split: sum.splits)
  have kept: "slice_view small_cfg 0 s' = slice_view small_cfg 0 s"
    using slices_are_isolated [OF lossy_kernel_confined s(1,3), of 0] s(2) by simp
  show ?thesis by (intro exI [of _ s] exI [of _ s'] conjI s kept)
qed

section \<open>What is read back\<close>

definition stored_to :: "flush_cfg \<Rightarrow> nat \<Rightarrow> flush_state \<Rightarrow> nat \<Rightarrow> bool" where
  "stored_to c tid s hi \<longleftrightarrow> (\<forall>j. flush_first c tid \<le> j \<and> j < hi \<longrightarrow> up_buf (fs_proc s) ! j = word_of_nat j)"

definition index_sum :: "nat \<Rightarrow> nat \<Rightarrow> u64" where
  "index_sum lo hi = (\<Sum>j = lo..<hi. word_of_nat j)"

definition flush_called :: "flush_cfg \<Rightarrow> nat \<Rightarrow> flush_state \<Rightarrow> bool" where
  "flush_called c tid s \<longleftrightarrow> flush_call c (fc_addr c) tid \<in> set (up_calls (fs_proc s))"

definition flush_ok :: "flush_cfg \<Rightarrow> nat \<Rightarrow> flush_state \<Rightarrow> bool" where
  "flush_ok c tid s \<longleftrightarrow> (tid < length (fs_threads s) \<longrightarrow>
     (let th = fs_threads s ! tid in
      case ft_phase th of
        Storing \<Rightarrow> stored_to c tid s (ft_i th)
      | Flushing \<Rightarrow> stored_to c tid s (flush_last c tid)
      | Reading \<Rightarrow> stored_to c tid s (flush_last c tid) \<and> ft_sum th = index_sum (flush_first c tid) (ft_i th) \<and> flush_called c tid s
      | Exited \<Rightarrow> ft_sum th = index_sum (flush_first c tid) (flush_last c tid) \<and> flush_called c tid s))"

lemma index_sum_Suc: "lo \<le> i \<Longrightarrow> index_sum lo (Suc i) = index_sum lo i + word_of_nat i"
  by (simp add: index_sum_def)

lemma index_sum_self [simp]: "index_sum lo lo = 0"
  by (simp add: index_sum_def)

lemma flush_turn_ok:
  assumes "wf_flush h c" "flush_confined h c" and tr: "flush_transparent h c tid" and inv: "flush_inv c s" and ok: "flush_ok c tid s"
    and turn: "flush_turn h c tid s = Inr s'"
  shows "flush_ok c tid s'"
proof -
  let ?th = "fs_threads s ! tid" and ?p = "fs_proc s"
  from turn have tid: "tid < length (fs_threads s)" by (auto simp: flush_turn_def res_inversion)
  with inv have i: "flush_first c tid \<le> ft_i ?th" "ft_i ?th \<le> flush_last c tid" and ub: "fs_user_buff s = fc_addr c"
    and len: "flush_last c tid \<le> length (up_buf ?p)" using flush_last_le [of tid c] by (auto simp: flush_inv_def)
  note rules = flush_turn_def flush_ok_def Let_def res_inversion stored_to_def flush_called_def
  show ?thesis
  proof (cases "ft_phase ?th")
    case Storing
    with turn ok tid i len show ?thesis by (auto simp: rules nth_update_if less_Suc_eq split: if_splits)
  next
    case Flushing
    with turn ok tid ub tr show ?thesis by (auto simp: rules kcall_def print_number_def flush_transparent_def)
  next
    case Reading
    with turn ok tid i len show ?thesis by (auto simp: rules print_number_def index_sum_Suc split: if_splits)
  next
    case Exited
    with turn ok tid show ?thesis by (simp add: rules)
  qed
qed

text \<open>The turns of the others change neither the slice nor the variables, and add to the calls.\<close>

lemma flush_ok_kept:
  assumes "flush_inv c s" "flush_ok c tid s" "slice_held c tid (slice_view c tid s') s" "set (up_calls (fs_proc s)) \<subseteq> set (up_calls (fs_proc s'))"
  shows "flush_ok c tid s'"
proof -
  have eq: "fs_threads s' ! tid = fs_threads s ! tid" "\<And>j. flush_first c tid \<le> j \<Longrightarrow> j < flush_last c tid \<Longrightarrow>
      up_buf (fs_proc s') ! j = up_buf (fs_proc s) ! j"
    using assms(3) by (auto simp: slice_held_def slice_view_def)
  moreover have "ft_i (fs_threads s ! tid) \<le> flush_last c tid" using assms(1,3) by (simp add: flush_inv_def slice_held_def)
  ultimately show ?thesis using assms(2-4) by (auto simp: flush_ok_def Let_def stored_to_def flush_called_def slice_held_def split: flush_phase.splits)
qed

lemma flush_step_calls:
  assumes "wf_flush h c" "flush_confined h c" "flush_inv c s" "flush_step h c e s = Inr s'"
  shows "set (up_calls (fs_proc s)) \<subseteq> set (up_calls (fs_proc s'))"
proof (cases "\<exists>t. e = Advance t \<and> \<not> fs_over s")
  case True
  then obtain t where "flush_turn h c t s = Inr s'" using assms(4) by (auto simp: flush_step_def)
  from flush_turn_effect [OF assms(1-3) this] show ?thesis by force
qed (use assms(4) in \<open>auto simp: flush_step_def create_thread_def split: flush_event.splits if_splits\<close>)

lemma flush_step_ok:
  assumes "wf_flush h c" "flush_confined h c" "flush_transparent h c tid" "flush_inv c s" "flush_ok c tid s" "flush_step h c e s = Inr s'"
  shows "flush_ok c tid s'"
proof (cases "tid \<in> flush_actors e \<or> \<not> tid < length (fs_threads s)")
  case False
  then have "slice_held c tid (slice_view c tid s) s'"
    using flush_step_keeps [OF assms(1,2,4,6), of tid "slice_view c tid s"] by (simp add: slice_held_def)
  then have "slice_held c tid (slice_view c tid s') s" using False by (simp add: slice_held_def)
  then show ?thesis by (rule flush_ok_kept [OF assms(4,5) _ flush_step_calls [OF assms(1,2,4,6)]])
next
  case acts: True
  show ?thesis
  proof (cases e)
    case (Create i ret)
    with acts assms(5,6) show ?thesis
      by (auto simp: flush_step_def create_thread_def flush_ok_def stored_to_def Let_def nth_append less_Suc_eq flush_called_def
          split: if_splits flush_phase.splits)
  next
    case (Advance t)
    then show ?thesis
    proof (cases "fs_over s")
      case False
      with assms(6) Advance have turn: "flush_turn h c t s = Inr s'" by (simp add: flush_step_def)
      with acts Advance have "t = tid \<or> \<not> tid < length (fs_threads s')"
        using flush_turn_effect [OF assms(1,2,4) turn] by fastforce
      with turn show ?thesis using flush_turn_ok [OF assms(1-5)] by (auto simp: flush_ok_def)
    qed (use assms(5,6) in \<open>simp add: flush_step_def\<close>)
  qed
qed

lemma flush_start_ok: "flush_ok c tid (flush_start h c)"
  by (simp add: flush_ok_def flush_start_def split_def Let_def)

interpretation flushed_slice: invariant_machine
  "\<lambda>s. wf_flush h c \<and> flush_confined h c \<and> flush_transparent h c tid \<and> s = flush_start h c" "flush_step h c"
  "\<lambda>s. wf_flush h c \<and> flush_confined h c \<and> flush_transparent h c tid \<and> flush_inv c s \<and> flush_ok c tid s" for h c tid
  by unfold_locales (auto simp: flush_start_inv flush_start_ok dest: flush_step_inv intro: flush_step_ok)

lemma run_flushed: "run_flush h c es s = flushed_slice.run h c es s"
  by (induction es arbitrary: s) (simp_all cong: res_bind_cong)

lemma flush_turn_returns:
  assumes "wf_flush h c" "flush_inv c s" "tid < length (fs_threads s)"
  shows "\<exists>s'. flush_step h c (Advance tid) s = Inr s'"
proof -
  have "flush_last c tid \<le> length (up_buf (fs_proc s))" "fs_user_buff s \<noteq> 0"
    using assms flush_last_le [of tid c] by (auto simp: flush_inv_def wf_flush_def)
  with assms(3) show ?thesis by (auto simp: flush_step_def flush_turn_def Let_def split: flush_phase.split prod.split)
qed


text \<open>A kernel that loses what the first thread swaps out and keeps the rest.\<close>

definition half_lossy :: uhost where
  "half_lossy = lossy_kernel\<lparr>uh_effect := (\<lambda>cs buf. if last cs = flush_call small_cfg 64 1 then buf else uh_effect lossy_kernel cs buf)\<rparr>"

lemma half_lossy_kernel: "wf_flush half_lossy small_cfg" "flush_confined half_lossy small_cfg" "flush_transparent half_lossy small_cfg 1"
  by (auto simp: half_lossy_def lossy_kernel_def wf_flush_def small_cfg_def flush_start_def map_range_def reserve_anon_memory_def
      commit_anon_memory_def report_mapping_def kcall_def MAP_FAILED_def flush_confined_def flush_transparent_def Let_def)


text \<open>The constants of the program; the slices of its eight threads make up the whole array.\<close>

lemma code_slices:
  "flush_slice code_cfg = 2 ^ 21" "flush_last code_cfg 7 = unat (fc_bytes code_cfg) div 8"
  by (simp_all add: flush_slice_def flush_last_def flush_first_def code_cfg_def)

text \<open>When the array could not be mapped, the failure is printed and the first turn of a thread stores through the null pointer.\<close>

lemma unmapped_array_faults:
  assumes "fs_user_buff (flush_start h code_cfg) = 0"
  shows "run_flush h code_cfg [Create 0 0, Advance 0] (flush_start h code_cfg) = Inl NullDeref"
proof -
  have "fs_over (flush_start h code_cfg) = False" "fs_threads (flush_start h code_cfg) = []"
    by (simp_all add: flush_start_def split_def Let_def)
  with assms show ?thesis
    by (simp add: flush_step_def create_thread_def flush_turn_def Let_def code_slices flush_first_def flush_last_def)
      (simp add: code_cfg_def)
qed

end
