(* ===== verification/Swap_Counters.thy ===== *)
theory Swap_Counters
  imports Swap_Tests
begin

text \<open>
  The remaining programs of \<^verbatim>\<open>src/block_device/swap\<close> without threads: those that reset and print the kernel's
  counters of swapped pages, the monitor that does so once per second for ever, and the scan in random
  order; and the test of huge pages (\<^verbatim>\<open>src/Kernel-dev/hugePage/hugeTable.c\<close>).
\<close>

section \<open>Reading and resetting counters\<close>

definition swap_reset_counter_main :: "uhost \<Rightarrow> uproc" where
  "swap_reset_counter_main h =
     (let request_addr = 0x40000000; size = 0x40000000;
          p = show_int_call h (Syscall SYS_SWAP_STAT_RESET [request_addr, size]) start_uproc
      in show_call h (Syscall SYS_ON_DEMAND_SWAPIN []) p)"

definition swap_counter_read_main :: "uhost \<Rightarrow> uproc" where
  "swap_counter_read_main h = show_call h (Syscall SYS_ON_DEMAND_SWAPIN []) start_uproc"

text \<open>
  The system calls of the later kernel. One stores three counters through pointers to variables that are
  zero before; \<open>stats\<close> is what it stores, or nothing when it fails.
\<close>

definition REMOTE_STAT_RESET :: nat where "REMOTE_STAT_RESET = 451"
definition REMOTE_STAT_READ :: nat where "REMOTE_STAT_READ = 452"

definition show_stats :: "uhost \<Rightarrow> (ucall list \<Rightarrow> (u32 \<times> u32 \<times> u32) option) \<Rightarrow> uproc \<Rightarrow> uproc" where
  "show_stats h stats p =
     (let (_, p) = kcall h (Syscall REMOTE_STAT_READ []) p;
          (ondemand, prefetch, hit) = (case stats (up_calls p) of None \<Rightarrow> (0, 0, 0) | Some x \<Rightarrow> x)
      in print_number (scast hit) (print_number (scast prefetch) (print_number (scast ondemand) p)))"

definition remoteswap_read_counter_main :: "uhost \<Rightarrow> (ucall list \<Rightarrow> (u32 \<times> u32 \<times> u32) option) \<Rightarrow> uproc" where
  "remoteswap_read_counter_main h stats = show_stats h stats start_uproc"

definition remoteswap_reset_counter_main :: "uhost \<Rightarrow> (ucall list \<Rightarrow> (u32 \<times> u32 \<times> u32) option) \<Rightarrow> uproc" where
  "remoteswap_reset_counter_main h stats =
     (let (_, p) = kcall h (Syscall REMOTE_STAT_RESET []) start_uproc in show_stats h stats p)"

definition remoteswap_read_latency_counter_main :: "uhost \<Rightarrow> uproc" where
  "remoteswap_read_latency_counter_main h = show_int_call h (Syscall REMOTE_STAT_READ []) start_uproc"

definition remoteswap_reset_latency_counter_main :: "uhost \<Rightarrow> uproc" where
  "remoteswap_reset_latency_counter_main h =
     show_int_call h (Syscall REMOTE_STAT_READ []) (show_int_call h (Syscall REMOTE_STAT_RESET []) start_uproc)"

text \<open>One turn of the monitor; the program is this turn for ever, so only its first \<open>n\<close> turns are a function.\<close>

definition monitor_turn :: "uhost \<Rightarrow> uproc \<Rightarrow> uproc" where
  "monitor_turn h p =
     (let request_addr = 0x40000000; size = 0x100000;
          p = show_int_call h (Syscall SYS_ON_DEMAND_SWAPIN []) p;
          (ret, p) = kcall h (Syscall SYS_SWAP_STAT_RESET [request_addr, size]) p
      in report_failure ret p)"

fun monitor_turns :: "uhost \<Rightarrow> nat \<Rightarrow> uproc \<Rightarrow> uproc" where
  "monitor_turns h 0 p = p"
| "monitor_turns h (Suc n) p = monitor_turns h n (monitor_turn h p)"

section \<open>What the monitor sees\<close>

text \<open>
  A kernel that counts: between call \<open>j - 1\<close> and call \<open>j\<close> of the program \<open>sw j\<close> pages are swapped in, the
  counter is their number since the last reset, and the reset succeeds.
\<close>

fun is_reset :: "ucall \<Rightarrow> bool" where
  "is_reset (Syscall n _) = (n = SYS_SWAP_STAT_RESET)"
| "is_reset _ = False"

definition since_reset :: "(nat \<Rightarrow> nat) \<Rightarrow> ucall list \<Rightarrow> nat" where
  "since_reset sw cs = (\<Sum>j \<leftarrow> filter (\<lambda>j. \<forall>k \<in> {j..<length cs}. \<not> is_reset (cs ! k)) [0..<Suc (length cs)]. sw j)"

definition counts :: "uhost \<Rightarrow> (nat \<Rightarrow> nat) \<Rightarrow> bool" where
  "counts h sw \<longleftrightarrow> (\<forall>cs. uh_answer h (cs @ [Syscall SYS_ON_DEMAND_SWAPIN []]) = word_of_nat (since_reset sw cs)) \<and>
     (\<forall>cs a. uh_answer h (cs @ [Syscall SYS_SWAP_STAT_RESET a]) = 0)"

lemma since_reset_after_reset:
  assumes "is_reset c"
  shows "since_reset sw (cs @ [c]) = sw (Suc (length cs))"
proof -
  let ?P = "\<lambda>j. \<forall>k \<in> {j..<length (cs @ [c])}. \<not> is_reset ((cs @ [c]) ! k)"
  have no: "\<not> ?P j" if "j < Suc (length cs)" for j
    using that assms by (auto intro!: bexI [of _ "length cs"])
  have "filter ?P [0..<Suc (Suc (length cs))] = [Suc (length cs)]" using no assms by (auto simp: filter_empty_conv)
  then show ?thesis by (simp add: since_reset_def)
qed

lemma since_reset_Nil: "since_reset sw [] = sw 0"
  by (simp add: since_reset_def)

text \<open>
  After every turn the counter has just been reset: a turn adds the pages of its first interval to what is
  printed, and those of its second interval to nothing.
\<close>

lemma monitor_turn_result:
  assumes h: "counts h sw" and p: "since_reset sw (up_calls p) = sw (length (up_calls p))"
  shows "up_out (monitor_turn h p) = up_out p @ [Number (to_int (word_of_nat (sw (length (up_calls p)))))]"
    "length (up_calls (monitor_turn h p)) = length (up_calls p) + 2"
    "since_reset sw (up_calls (monitor_turn h p)) = sw (length (up_calls (monitor_turn h p)))"
proof -
  let ?c = "up_calls p @ [Syscall SYS_ON_DEMAND_SWAPIN []]" and ?r = "Syscall SYS_SWAP_STAT_RESET [0x40000000, 0x100000]"
  have a: "uh_answer h ?c = word_of_nat (sw (length (up_calls p)))" "uh_answer h (?c @ [?r]) = 0"
    using h p by (simp_all add: counts_def del: append_assoc)
  have calls: "up_calls (monitor_turn h p) = ?c @ [?r]"
    using a(2) by (simp add: monitor_turn_def show_int_call_def kcall_def report_failure_def to_int_def Let_def)
  show "up_out (monitor_turn h p) = up_out p @ [Number (to_int (word_of_nat (sw (length (up_calls p)))))]"
    using a by (simp add: monitor_turn_def show_int_call_def kcall_def report_failure_def to_int_def Let_def)
  show "length (up_calls (monitor_turn h p)) = length (up_calls p) + 2" by (simp add: calls)
  show "since_reset sw (up_calls (monitor_turn h p)) = sw (length (up_calls (monitor_turn h p)))"
    unfolding calls by (subst since_reset_after_reset) simp_all
qed

lemma monitor_turns_out:
  assumes h: "counts h sw"
  shows "since_reset sw (up_calls p) = sw (length (up_calls p)) \<Longrightarrow>
    up_out (monitor_turns h n p) = up_out p @ map (\<lambda>i. Number (to_int (word_of_nat (sw (length (up_calls p) + 2 * i))))) [0..<n]"
proof (induction n arbitrary: p)
  case 0
  then show ?case by simp
next
  case (Suc n)
  note r = monitor_turn_result [OF h Suc.prems]
  have "up_out (monitor_turns h (Suc n) p) = up_out p @ [Number (to_int (word_of_nat (sw (length (up_calls p)))))] @
      map (\<lambda>i. Number (to_int (word_of_nat (sw (length (up_calls p) + 2 + 2 * i))))) [0..<n]"
    using Suc.IH [OF r(3)] r(1,2) by simp
  also have "\<dots> = up_out p @ map (\<lambda>i. Number (to_int (word_of_nat (sw (length (up_calls p) + 2 * i))))) (0 # map Suc [0..<n])"
    by (simp add: comp_def)
  finally show ?case by (simp only: map_Suc_upt upt_conv_Cons [OF zero_less_Suc])
qed

text \<open>
  In \<open>n\<close> seconds the monitor prints \<open>n\<close> samples: the pages swapped in from each reset to the next
  reading. The pages swapped in between a reading and the reset that follows it are in no sample,
  so the samples add up to every second interval only.
\<close>

theorem monitor_misses_swapins_before_each_reset:
  assumes "counts h sw"
  shows "up_out (monitor_turns h n start_uproc) = map (\<lambda>i. Number (to_int (word_of_nat (sw (2 * i))))) [0..<n]"
  using monitor_turns_out [OF assms, of start_uproc n] by (simp add: start_uproc_def since_reset_Nil)

definition counting_uhost :: "(nat \<Rightarrow> nat) \<Rightarrow> uhost" where
  "counting_uhost sw = \<lparr>uh_answer = \<lambda>cs. case last cs of
       Syscall n a \<Rightarrow> if n = SYS_ON_DEMAND_SWAPIN then word_of_nat (since_reset sw (butlast cs)) else 0
     | _ \<Rightarrow> 0, uh_effect = \<lambda>cs b. b\<rparr>"

theorem monitor_misses_swapins_before_each_reset_witness:
  "up_out (monitor_turns (counting_uhost (\<lambda>j. j + 1)) 3 start_uproc) = [Number 1, Number 3, Number 5]"
proof -
  have "counts (counting_uhost (\<lambda>j. j + 1)) (\<lambda>j. j + 1)"
    by (simp add: counts_def counting_uhost_def SYS_SWAP_STAT_RESET_def SYS_ON_DEMAND_SWAPIN_def)
  from monitor_misses_swapins_before_each_reset [OF this, of 3] show ?thesis
    by (simp add: upt_rec to_int_def)
qed

text \<open>A program that resets the counter and reads it prints the pages swapped in between the two calls.\<close>

lemma reset_counter_prints_the_interval:
  assumes "counts h sw"
  shows "up_out (swap_reset_counter_main h) = [Number 0, Number (word_of_nat (sw 1))]"
proof -
  let ?r = "Syscall SYS_SWAP_STAT_RESET [0x40000000, 0x40000000]"
  have "uh_answer h ([] @ [?r]) = 0" "uh_answer h ([?r] @ [Syscall SYS_ON_DEMAND_SWAPIN []]) = word_of_nat (since_reset sw [?r])"
    using assms unfolding counts_def by blast+
  moreover have "since_reset sw [?r] = sw 1" using since_reset_after_reset [of ?r sw "[]"] by simp
  ultimately show ?thesis
    by (simp add: swap_reset_counter_main_def show_int_call_def show_call_def kcall_def start_uproc_def to_int_def Let_def)
qed

section \<open>The scan in random order\<close>

text \<open>\<open>rnd i\<close> is the number drawn in turn \<open>i\<close>.\<close>

definition random_sum :: "(nat \<Rightarrow> u64) \<Rightarrow> nat \<Rightarrow> nat \<Rightarrow> u64 list \<Rightarrow> u64 res" where
  "random_sum rnd n turns buf =
     fold (\<lambda>i r. res_bind r (\<lambda>acc.
        let index_to_access = unat ((rnd i * word_of_nat i) mod word_of_nat n)
        in res_bind (array_get buf index_to_access) (\<lambda>x. Inr (acc + x)))) [0..<turns] (Inr 0)"

definition swap_mmap_random_main :: "uhost \<Rightarrow> (nat \<Rightarrow> u64) \<Rightarrow> uproc res" where
  "swap_mmap_random_main h rnd =
     (let ONE_GB = 1073741824; request_addr = 0x400000000000 - 5 * ONE_GB; size = 3 * ONE_GB; n = unat size div 8
      in res_bind (indexed_range h request_addr size start_uproc) (\<lambda>(user_buff, p).
         res_bind (random_sum rnd n (n div 32) (up_buf p)) (\<lambda>sum. Inr (print_number sum p))))"

lemma random_sum_indices:
  assumes "0 < n" "n < 2 ^ 64"
  shows "random_sum rnd n k (map word_of_nat [0..<n]) = Inr (\<Sum>i < k. (rnd i * word_of_nat i) mod word_of_nat n)"
proof (induction k)
  case 0
  then show ?case by (simp add: random_sum_def)
next
  case (Suc k)
  let ?m = "(rnd k * word_of_nat k) mod word_of_nat n"
  have "unat (word_of_nat n :: u64) = n" using assms by (simp add: unsigned_of_nat take_bit_eq_mod)
  then have "unat ?m < n" using assms(1) by (simp add: unat_mod)
  with Suc show ?case by (simp add: random_sum_def)
qed

lemma random_scan_sum:
  assumes "transparent h"
  shows "\<exists>p. swap_mmap_random_main h rnd = Inr p \<and>
    last (up_out p) = Number (\<Sum>i < 12582912. (rnd i * word_of_nat i) mod 402653184)"
  unfolding swap_mmap_random_main_def Let_def
  by (rule after_indexed_range [OF assms, where n = 402653184])
    (use random_sum_indices [of 402653184 rnd 12582912] in \<open>simp_all add: MAP_FAILED_def del: upt_rec_numeral\<close>)

section \<open>Huge pages\<close>

definition huge_reserve :: "uhost \<Rightarrow> u64 \<Rightarrow> u64 \<Rightarrow> bool \<Rightarrow> uproc \<Rightarrow> u64 \<times> uproc" where
  "huge_reserve h requested_addr bytes fixed p =
     (let (addr, p) = kcall h (Mmap_huge requested_addr bytes PROT_NONE fixed False) p
      in (if addr = MAP_FAILED then 0 else addr, p))"

definition huge_commit :: "uhost \<Rightarrow> u64 \<Rightarrow> u64 \<Rightarrow> bool \<Rightarrow> uproc \<Rightarrow> u64 \<times> uproc" where
  "huge_commit h start_addr n exec p =
     (let (res, p) = kcall h (Mmap_huge start_addr n (if exec then PROT_RWX else PROT_RW) True True) p
      in if res = MAP_FAILED then (0, p)
         else (start_addr, p\<lparr>up_buf := replicate (unat n div 8) 0\<rparr>))"

definition hugeTable_main :: "uhost \<Rightarrow> uproc res" where
  "hugeTable_main h =
     (let request_addr = 0x400000000000; size = 0x400000;
          (user_buff, p) = huge_reserve h request_addr size True start_uproc;
          p = report_mapping request_addr size user_buff p;
          (user_buff, p) = huge_commit h request_addr size False p;
          p = report_mapping request_addr size user_buff p
      in res_bind (fill user_buff (unat size div 8) (\<lambda>_. - 1) p) (\<lambda>p.
         res_bind (array_get (up_buf p) 0) (\<lambda>x. Inr (print_number x p))))"

text \<open>
  Huge pages have to be set aside by the administrator. Without them both mapping calls fail, both failures are
  printed, and the program stores through the null pointer.
\<close>

lemma huge_pages_missing:
  assumes "\<And>cs a n pr f r. uh_answer h (cs @ [Mmap_huge a n pr f r]) = MAP_FAILED"
  shows "hugeTable_main h = Inl NullDeref"
  using assms
  by (simp add: hugeTable_main_def huge_reserve_def huge_commit_def kcall_def report_mapping_def fill_def split_def Let_def)

lemma huge_pages_filled:
  assumes "\<And>cs a n pr f r. uh_answer h (cs @ [Mmap_huge a n pr f r]) = a"
  shows "\<exists>p. hugeTable_main h = Inr p \<and> last (up_out p) = Number (- 1)"
  using assms
  by (simp add: hugeTable_main_def huge_reserve_def huge_commit_def kcall_def report_mapping_def fill_def fill_indices split_def Let_def
      MAP_FAILED_def del: upt_rec_numeral)

end
