(* ===== verification/Control_Path.thy ===== *)
theory Control_Path
  imports Swap_Tests
begin

text \<open>
  The tests of the control path, a system call that copies a range of the process to a memory
  server or back (\<^verbatim>\<open>src/block_device/swap/control_path.c\<close>, \<^verbatim>\<open>control_path_after_data_path_flush.c\<close>,
  \<^verbatim>\<open>src/Semeru/CPUServer/cp_scatter_gatehr_test.c\<close>, and \<^verbatim>\<open>rdma_test.c\<close>, \<^verbatim>\<open>force_swap_out.c\<close> and \<^verbatim>\<open>user_kernel_copy.c\<close> of
  \<^verbatim>\<open>src/Kernel-dev/syscall\<close>). The kernel is a parameter. Since a read brings back
  what was in the range when it was written, the history the kernel answers from holds, with every call, the contents
  of the range at that moment.
\<close>

section \<open>Kernel and process\<close>

type_synonym history = "(ucall \<times> u64 list) list"

record chost =
  ch_answer :: "history \<Rightarrow> u64"
  ch_effect :: "history \<Rightarrow> u64 list"

record cproc =
  cp_buf :: "u64 list"
  cp_hist :: history
  cp_out :: "printed list"

definition start_cproc :: cproc where
  "start_cproc = \<lparr>cp_buf = [], cp_hist = [], cp_out = []\<rparr>"

definition ccall :: "chost \<Rightarrow> ucall \<Rightarrow> cproc \<Rightarrow> u64 \<times> cproc" where
  "ccall h c p =
     (let hs = cp_hist p @ [(c, cp_buf p)]
      in (ch_answer h hs, p\<lparr>cp_hist := hs, cp_buf := ch_effect h hs\<rparr>))"

definition cprint :: "printed \<Rightarrow> cproc \<Rightarrow> cproc" where
  "cprint x p = p\<lparr>cp_out := cp_out p @ [x]\<rparr>"

definition cp_report :: "u64 \<Rightarrow> u64 \<Rightarrow> u64 \<Rightarrow> cproc \<Rightarrow> cproc" where
  "cp_report addr bytes user_buff = cprint (if user_buff = 0 then Mapping_failed addr else Mapping user_buff bytes)"

definition cp_reserve :: "chost \<Rightarrow> u64 \<Rightarrow> u64 \<Rightarrow> bool \<Rightarrow> cproc \<Rightarrow> u64 \<times> cproc" where
  "cp_reserve h requested_addr bytes fixed p =
     (let (addr, p) = ccall h (Mmap requested_addr bytes PROT_NONE fixed False) p
      in (if addr = MAP_FAILED then 0 else addr, p))"

definition cp_commit :: "chost \<Rightarrow> u64 \<Rightarrow> u64 \<Rightarrow> bool \<Rightarrow> cproc \<Rightarrow> u64 \<times> cproc" where
  "cp_commit h start_addr n exec p =
     (let (res, p) = ccall h (Mmap start_addr n (if exec then PROT_RWX else PROT_RW) True True) p
      in if res = MAP_FAILED then (0, p)
         else (start_addr, p\<lparr>cp_buf := replicate (unat n div 8) 0\<rparr>))"

text \<open>Both failures are printed, and the pointer is that of the second call.\<close>

definition cp_map_range :: "chost \<Rightarrow> u64 \<Rightarrow> u64 \<Rightarrow> cproc \<Rightarrow> u64 \<times> cproc" where
  "cp_map_range h addr n p =
     (let (user_buff, p) = cp_reserve h addr n True p;
          p = cp_report addr n user_buff p;
          (user_buff, p) = cp_commit h addr n False p
      in (user_buff, cp_report addr n user_buff p))"

text \<open>\<^verbatim>\<open>for (i = 0; i < n; i++) buf_ptr[i] = v\<close>\<close>

definition cp_fill :: "u64 \<Rightarrow> nat \<Rightarrow> u64 \<Rightarrow> cproc \<Rightarrow> cproc res" where
  "cp_fill ptr n v p =
     (if n = 0 then Inr p
      else if ptr = 0 then Inl NullDeref
      else if length (cp_buf p) < n then Inl OutOfBounds
      else Inr (p\<lparr>cp_buf := fold (\<lambda>i b. b[i := v]) [0..<n] (cp_buf p)\<rparr>))"

text \<open>
  Eight bytes from byte \<open>off\<close> of the range on, which may lie across two words of it (the machine
  stores the low byte first).
\<close>

definition load_bytes :: "u64 list \<Rightarrow> nat \<Rightarrow> u64 res" where
  "load_bytes buf off =
     (let i = off div 8; r = 8 * (off mod 8)
      in res_bind (array_get buf i) (\<lambda>lo.
         if r = 0 then Inr lo
         else res_bind (array_get buf (i + 1)) (\<lambda>hi. Inr (drop_bit r lo OR push_bit (64 - r) hi))))"

definition cp_show :: "u64 \<Rightarrow> nat \<Rightarrow> cproc \<Rightarrow> cproc res" where
  "cp_show ptr off p =
     (if ptr = 0 then Inl NullDeref else res_bind (load_bytes (cp_buf p) off) (\<lambda>x. Inr (cprint (Number x) p)))"

definition cp_show_call :: "chost \<Rightarrow> ucall \<Rightarrow> cproc \<Rightarrow> cproc" where
  "cp_show_call h c p = (let (r, p) = ccall h c p in cprint (Number (to_int r)) p)"

text \<open>The opening of every program: map the range and store one value everywhere.\<close>

definition filled_range :: "chost \<Rightarrow> u64 \<Rightarrow> u64 \<Rightarrow> u64 \<Rightarrow> (u64 \<times> cproc) res" where
  "filled_range h request_addr bytes v =
     (let (user_buff, p) = cp_map_range h request_addr bytes start_cproc
      in res_bind (cp_fill user_buff (unat bytes div 8) v p) (\<lambda>p. Inr (user_buff, p)))"

section \<open>The programs\<close>

definition rdma_test_main :: "chost \<Rightarrow> cproc res" where
  "rdma_test_main h =
     (let target_server = 0; request_addr = 0x400100000000; size = 0x40000000; n = unat size div 8
      in res_bind (filled_range h request_addr size (- 1)) (\<lambda>(user_buff, p).
         res_bind (cp_show user_buff 0 p) (\<lambda>p.
         let p = cp_show_call h (Syscall SYS_do_semeru_rdma_ops [2, target_server, user_buff, size]) p
         in res_bind (cp_fill user_buff n 0 p) (\<lambda>p.
         res_bind (cp_show user_buff 0 p) (\<lambda>p.
         let p = cp_show_call h (Syscall SYS_do_semeru_rdma_ops [1, target_server, user_buff, size]) p
         in cp_show user_buff 0 p)))))"

text \<open>The same against one server, with the system call of three arguments.\<close>

definition cp_scatter_gather_main :: "chost \<Rightarrow> cproc res" where
  "cp_scatter_gather_main h =
     (let request_addr = 0x400000000000; size = 0x40000; n = unat size div 8
      in res_bind (filled_range h request_addr size (- 1)) (\<lambda>(user_buff, p).
         res_bind (cp_show user_buff 0 p) (\<lambda>p.
         let p = cp_show_call h (Syscall SYS_do_semeru_rdma_ops [2, user_buff, size]) p
         in res_bind (cp_fill user_buff n 0 p) (\<lambda>p.
         res_bind (cp_show user_buff 0 p) (\<lambda>p.
         let p = cp_show_call h (Syscall SYS_do_semeru_rdma_ops [1, user_buff, size]) p
         in cp_show user_buff 0 p)))))"

definition NUM_OF_MEMORY_SERVER :: nat where
  "NUM_OF_MEMORY_SERVER = 2"

definition write_to_server :: "chost \<Rightarrow> u64 \<Rightarrow> u64 \<Rightarrow> nat \<Rightarrow> cproc \<Rightarrow> cproc res" where
  "write_to_server h user_buff bytes mem_server_id p =
     res_bind (cp_show user_buff 0 p) (\<lambda>p.
       let p = cp_show_call h (Syscall SYS_do_semeru_rdma_ops [2, word_of_nat mem_server_id, user_buff, bytes]) p
       in Inr (cp_show_call h (Syscall SYS_do_semeru_rdma_ops [2, word_of_nat mem_server_id, user_buff, bytes]) p))"

text \<open>What is called the last word is read at \<^verbatim>\<open>user_buff + size/8 - 1\<close>, where \<^verbatim>\<open>user_buff\<close> points to bytes.\<close>

definition read_from_server :: "chost \<Rightarrow> u64 \<Rightarrow> u64 \<Rightarrow> nat \<Rightarrow> cproc \<Rightarrow> cproc res" where
  "read_from_server h user_buff bytes mem_server_id p =
     (let n = unat bytes div 8
      in res_bind (cp_fill user_buff n 0 p) (\<lambda>p.
         res_bind (cp_show user_buff 0 p) (\<lambda>p.
         let p = cp_show_call h (Syscall SYS_do_semeru_rdma_ops [1, word_of_nat mem_server_id, user_buff, bytes]) p
         in res_bind (cp_show user_buff 0 p) (cp_show user_buff (n - 1)))))"

fun for_servers :: "(nat \<Rightarrow> cproc \<Rightarrow> cproc res) \<Rightarrow> nat list \<Rightarrow> cproc \<Rightarrow> cproc res" where
  "for_servers f [] p = Inr p"
| "for_servers f (k # ks) p = res_bind (f k p) (for_servers f ks)"

definition control_path_main :: "chost \<Rightarrow> cproc res" where
  "control_path_main h =
     (let request_addr = 0x400080000000; size = 0x40000000
      in res_bind (filled_range h request_addr size (- 1)) (\<lambda>(user_buff, p).
         res_bind (for_servers (write_to_server h user_buff size) [0..<NUM_OF_MEMORY_SERVER] p)
           (for_servers (read_from_server h user_buff size) [0..<NUM_OF_MEMORY_SERVER])))"

definition force_swap_out_main :: "chost \<Rightarrow> cproc res" where
  "force_swap_out_main h =
     (let target_server = 0; request_addr = 0x400100000000; size = 0x200000
      in res_bind (filled_range h request_addr size 999) (\<lambda>(user_buff, p).
           cp_show user_buff 0 (cp_show_call h (Syscall SYS_do_semeru_rdma_ops [4, target_server, user_buff, size]) p)))"

definition SYS_test_syscall :: nat where
  "SYS_test_syscall = 334"

definition user_kernel_copy_main :: "chost \<Rightarrow> cproc res" where
  "user_kernel_copy_main h =
     (let request_addr = 0x400000000000; size = 0x1000
      in res_bind (filled_range h request_addr size (- 1)) (\<lambda>(user_buff, p).
         res_bind (cp_show user_buff 0 p) (\<lambda>p.
           cp_show user_buff 0 (cp_show_call h (Syscall SYS_test_syscall [user_buff, size]) p))))"

text \<open>
  The control path after part of the range has gone out on the data path: 16 of the 20 pages are
  flushed, and then the whole range is written.
\<close>

definition control_path_after_flush_main :: "chost \<Rightarrow> cproc res" where
  "control_path_after_flush_main h =
     (let request_addr = 0x400100000000; size = 0x14000
      in res_bind (filled_range h request_addr size (- 1)) (\<lambda>(user_buff, p).
         let p = cp_show_call h (Syscall SYS_SWAP_STAT_RESET [request_addr, size]) p;
             (swapped_out_pages, p) = ccall h (Syscall SYS_NUM_SWAP_OUT_PAGES [request_addr, size]) p;
             p = cprint (Number swapped_out_pages) p;
             (ret, p) = ccall h (Madvise user_buff 0x10000 MADV_FLUSH_RANGE_TO_REMOTE) p;
             p = (if to_int ret \<noteq> 0 then cprint (Number (to_int ret)) p else p);
             (swapped_out_pages, p) = ccall h (Syscall SYS_NUM_SWAP_OUT_PAGES [request_addr, size]) p;
             p = cprint (Number swapped_out_pages) p
         in Inr (cp_show_call h (Syscall SYS_do_semeru_rdma_ops [2, user_buff, size]) p)))"

section \<open>A kernel with a control path\<close>

text \<open>
  The arguments of the system call: the kind of operation (1 reads, 2 writes, 4 forces the pages out), the server, the address
  and the length; the earlier interface has no server.
\<close>

fun rdma_op :: "ucall \<Rightarrow> (u64 \<times> u64 \<times> u64 \<times> u64) option" where
  "rdma_op (Syscall s [kind, server, a, n]) = (if s = SYS_do_semeru_rdma_ops then Some (kind, server, a, n) else None)"
| "rdma_op (Syscall s [kind, a, n]) = (if s = SYS_do_semeru_rdma_ops then Some (kind, 0, a, n) else None)"
| "rdma_op _ = None"

definition last_written :: "history \<Rightarrow> u64 \<Rightarrow> u64 \<Rightarrow> u64 \<Rightarrow> u64 list option" where
  "last_written hs server a n = map_option snd (find (\<lambda>(c, _). rdma_op c = Some (2, server, a, n)) (rev hs))"

text \<open>
  What the control path promises: a mapping is made where it is asked for, a read fills the range with what was last written from it to
  the server, and no other call changes what the range contains.
\<close>

definition control_effect :: "history \<Rightarrow> u64 list" where
  "control_effect hs =
     (let (c, b) = last hs
      in case rdma_op c of
           Some (kind, server, a, n) \<Rightarrow>
             if kind = 1 then (case last_written (butlast hs) server a n of Some d \<Rightarrow> d | None \<Rightarrow> b) else b
         | None \<Rightarrow> b)"

definition serves_control_path :: "chost \<Rightarrow> bool" where
  "serves_control_path h \<longleftrightarrow> (\<forall>hs x. ch_effect h (hs @ [x]) = control_effect (hs @ [x])) \<and>
     (\<forall>hs a n pr f r b. ch_answer h (hs @ [(Mmap a n pr f r, b)]) = a)"

lemma serves_effect:
  "serves_control_path h \<Longrightarrow> ch_effect h (hs @ [(c, b)]) = control_effect (hs @ [(c, b)])"
  "serves_control_path h \<Longrightarrow> ch_answer h (hs @ [(Mmap a n pr f r, b)]) = a"
  by (simp_all add: serves_control_path_def)

lemma control_effect_snoc:
  "rdma_op c = None \<Longrightarrow> control_effect (hs @ [(c, b)]) = b"
  "control_effect (hs @ [(Syscall SYS_do_semeru_rdma_ops [kind, server, a, n], b)]) =
     (if kind = 1 then case last_written hs server a n of Some d \<Rightarrow> d | None \<Rightarrow> b else b)"
  "control_effect (hs @ [(Syscall SYS_do_semeru_rdma_ops [kind, a, n], b)]) =
     (if kind = 1 then case last_written hs 0 a n of Some d \<Rightarrow> d | None \<Rightarrow> b else b)"
  by (simp_all add: control_effect_def)

lemma last_written_snoc:
  "last_written (hs @ [(c, b)]) server a n = (if rdma_op c = Some (2, server, a, n) then Some b else last_written hs server a n)"
  by (simp add: last_written_def)

lemma fill_all: "length b = n \<Longrightarrow> fold (\<lambda>i b. b[i := v]) [0..<n] b = replicate n v"
  using fold_list_update_all [of v b] by simp

text \<open>The opening needs no more of the kernel than that it maps ranges.\<close>

definition maps_ranges :: "chost \<Rightarrow> bool" where
  "maps_ranges h \<longleftrightarrow> (\<forall>hs a n pr f r b. ch_effect h (hs @ [(Mmap a n pr f r, b)]) = b \<and> ch_answer h (hs @ [(Mmap a n pr f r, b)]) = a)"

lemma serves_maps_ranges: "serves_control_path h \<Longrightarrow> maps_ranges h"
  by (simp add: maps_ranges_def serves_effect control_effect_snoc)

lemma filled_range_works:
  assumes "maps_ranges h" "addr \<noteq> MAP_FAILED" "addr \<noteq> 0" "0 < unat bytes div 8"
  obtains p where "filled_range h addr bytes v = Inr (addr, p)" "cp_buf p = replicate (unat bytes div 8) v"
    "cp_out p = [Mapping addr bytes, Mapping addr bytes]"
proof (rule that)
  let ?m1 = "Mmap addr bytes PROT_NONE True False" and ?m2 = "Mmap addr bytes PROT_RW True True"
  let ?p = "\<lparr>cp_buf = replicate (unat bytes div 8) v, cp_hist = [(?m1, []), (?m2, [])], cp_out = [Mapping addr bytes, Mapping addr bytes]\<rparr>"
  have e: "ch_effect h [(?m1, [])] = []" "ch_answer h [(?m1, [])] = addr" "ch_answer h [(?m1, []), (?m2, [])] = addr"
    using assms(1) unfolding maps_ranges_def by (metis append_Nil, metis append_Nil, metis append_Cons append_Nil)
  show "filled_range h addr bytes v = Inr (addr, ?p)"
    using assms(2-4) e
    by (simp add: filled_range_def cp_map_range_def cp_reserve_def cp_commit_def ccall_def cprint_def cp_report_def start_cproc_def
        cp_fill_def fill_all Let_def)
qed simp_all

text \<open>One call, and what it leaves; a word of a range that holds one value everywhere.\<close>

lemma cp_show_call_result:
  "cp_buf (cp_show_call h c p) = ch_effect h (cp_hist p @ [(c, cp_buf p)])"
  "cp_hist (cp_show_call h c p) = cp_hist p @ [(c, cp_buf p)]"
  "cp_out (cp_show_call h c p) = cp_out p @ [Number (to_int (ch_answer h (cp_hist p @ [(c, cp_buf p)])))]"
  by (simp_all add: cp_show_call_def ccall_def cprint_def Let_def)

lemma cp_show_first: "ptr \<noteq> 0 \<Longrightarrow> 0 < length (cp_buf p) \<Longrightarrow> cp_show ptr 0 p = Inr (cprint (Number (cp_buf p ! 0)) p)"
  by (simp add: cp_show_def load_bytes_def)

lemma cp_fill_again:
  "ptr \<noteq> 0 \<Longrightarrow> length (cp_buf p) = n \<Longrightarrow> cp_fill ptr n w p = Inr (p\<lparr>cp_buf := replicate n w\<rparr>)"
  by (cases p) (auto simp: cp_fill_def fill_all)

lemma cprint_simps [simp]: "cp_buf (cprint x p) = cp_buf p" "cp_hist (cprint x p) = cp_hist p" "cp_out (cprint x p) = cp_out p @ [x]"
  by (simp_all add: cprint_def)

lemmas control_simps = cp_show_call_result serves_effect control_effect_snoc last_written_snoc

lemma rdma_test_reads_back:
  assumes h: "serves_control_path h"
  shows "\<exists>p a b. rdma_test_main h = Inr p \<and>
    cp_out p = [Mapping 0x400100000000 0x40000000, Mapping 0x400100000000 0x40000000, Number (- 1), a, Number 0, b, Number (- 1)]"
proof -
  obtain p where p: "filled_range h 0x400100000000 0x40000000 (- 1) = Inr (0x400100000000, p)" "cp_buf p = replicate 134217728 (- 1)"
      "cp_out p = [Mapping 0x400100000000 0x40000000, Mapping 0x400100000000 0x40000000]"
    by (rule filled_range_works [OF serves_maps_ranges [OF h], of "0x400100000000" "0x40000000" "- 1"]) (simp_all add: MAP_FAILED_def)
  then show ?thesis
    by (simp add: rdma_test_main_def cp_show_first cp_fill_again control_simps h del: append_assoc)
qed

lemma scatter_gather_reads_back:
  assumes h: "serves_control_path h"
  shows "\<exists>p a b. cp_scatter_gather_main h = Inr p \<and>
    cp_out p = [Mapping 0x400000000000 0x40000, Mapping 0x400000000000 0x40000, Number (- 1), a, Number 0, b, Number (- 1)]"
proof -
  obtain p where p: "filled_range h 0x400000000000 0x40000 (- 1) = Inr (0x400000000000, p)" "cp_buf p = replicate 32768 (- 1)"
      "cp_out p = [Mapping 0x400000000000 0x40000, Mapping 0x400000000000 0x40000]"
    by (rule filled_range_works [OF serves_maps_ranges [OF h], of "0x400000000000" "0x40000" "- 1"]) (simp_all add: MAP_FAILED_def)
  then show ?thesis
    by (simp add: cp_scatter_gather_main_def cp_show_first cp_fill_again control_simps h del: append_assoc)
qed

lemma force_swap_out_keeps_the_data:
  assumes h: "serves_control_path h"
  shows "\<exists>p a. force_swap_out_main h = Inr p \<and>
    cp_out p = [Mapping 0x400100000000 0x200000, Mapping 0x400100000000 0x200000, a, Number 999]"
proof -
  obtain p where p: "filled_range h 0x400100000000 0x200000 999 = Inr (0x400100000000, p)" "cp_buf p = replicate 262144 999"
      "cp_out p = [Mapping 0x400100000000 0x200000, Mapping 0x400100000000 0x200000]"
    by (rule filled_range_works [OF serves_maps_ranges [OF h], of "0x400100000000" "0x200000" 999]) (simp_all add: MAP_FAILED_def)
  then show ?thesis
    by (simp add: force_swap_out_main_def cp_show_first control_simps h del: append_assoc)
qed

text \<open>The word that is printed as the last one of the range.\<close>

lemma load_within_ones: "n = 134217728 \<Longrightarrow> load_bytes (replicate n (- 1)) 134217727 = Inr (- 1)"
  by (simp add: load_bytes_def)

lemma control_path_reads_back:
  assumes h: "serves_control_path h"
  shows "\<exists>p a b c d e f. control_path_main h = Inr p \<and>
    cp_out p = [Mapping 0x400080000000 0x40000000, Mapping 0x400080000000 0x40000000,
      Number (- 1), a, b, Number (- 1), c, d, Number 0, e, Number (- 1), Number (- 1), Number 0, f, Number (- 1), Number (- 1)]"
proof -
  obtain p where p: "filled_range h 0x400080000000 0x40000000 (- 1) = Inr (0x400080000000, p)" "cp_buf p = replicate 134217728 (- 1)"
      "cp_out p = [Mapping 0x400080000000 0x40000000, Mapping 0x400080000000 0x40000000]"
    by (rule filled_range_works [OF serves_maps_ranges [OF h], of "0x400080000000" "0x40000000" "- 1"]) (simp_all add: MAP_FAILED_def)
  have last: "cp_show 0x400080000000 134217727 q = Inr (cprint (Number (- 1)) q)" if "cp_buf q = replicate 134217728 (- 1)" for q
    using that load_within_ones [OF refl] by (simp add: cp_show_def)
  have up: "[0..<NUM_OF_MEMORY_SERVER] = [0, 1]" by (simp add: NUM_OF_MEMORY_SERVER_def upt_rec)
  from p show ?thesis
    by (simp add: control_path_main_def up write_to_server_def read_from_server_def cp_show_first last
        cp_fill_again control_simps h del: append_assoc)
qed


definition demo_chost :: chost where
  "demo_chost = \<lparr>ch_answer = \<lambda>hs. case fst (last hs) of Mmap a n pr f r \<Rightarrow> a | _ \<Rightarrow> 0, ch_effect = control_effect\<rparr>"


section \<open>What the test does not see\<close>

text \<open>A control path that loses the last word of what it reads.\<close>

definition loses_the_last_word :: "chost \<Rightarrow> bool" where
  "loses_the_last_word h \<longleftrightarrow> (\<forall>hs kind server a n b. ch_effect h (hs @ [(Syscall SYS_do_semeru_rdma_ops [kind, server, a, n], b)]) =
       (let d = control_effect (hs @ [(Syscall SYS_do_semeru_rdma_ops [kind, server, a, n], b)])
        in if kind = 1 then d[length d - 1 := 0] else d)) \<and> maps_ranges h"

lemma load_ignores_the_last_word:
  assumes "16 \<le> length buf"
  shows "load_bytes (buf[length buf - 1 := x]) (length buf - 1) = load_bytes buf (length buf - 1)"
proof -
  let ?n = "length buf"
  have "(?n - 1) div 8 + 1 < ?n - 1" using assms by linarith
  then have "array_get (buf[?n - 1 := x]) ((?n - 1) div 8) = array_get buf ((?n - 1) div 8)"
      "array_get (buf[?n - 1 := x]) ((?n - 1) div 8 + 1) = array_get buf ((?n - 1) div 8 + 1)"
    by (auto simp: array_get_def)
  then show ?thesis by (simp only: load_bytes_def Let_def)
qed

text \<open>
  The test of the control path means to look at the first and the last word it reads back, but its pointer
  counts bytes: the second look is at an unaligned place at an eighth of the range. A control path that loses the
  last word of every read passes the test, with exactly the output of one that works.
\<close>

theorem a_lost_last_word_goes_unnoticed:
  assumes h: "loses_the_last_word h"
  shows "\<exists>p a b c d e f. control_path_main h = Inr p \<and> last (cp_buf p) = 0 \<and>
    cp_out p = [Mapping 0x400080000000 0x40000000, Mapping 0x400080000000 0x40000000,
      Number (- 1), a, b, Number (- 1), c, d, Number 0, e, Number (- 1), Number (- 1), Number 0, f, Number (- 1), Number (- 1)]"
proof -
  have eff: "ch_effect h (hs @ [(Syscall SYS_do_semeru_rdma_ops [kind, server, a, n], b)]) =
       (let d = control_effect (hs @ [(Syscall SYS_do_semeru_rdma_ops [kind, server, a, n], b)])
        in if kind = 1 then d[length d - 1 := 0] else d)" for hs kind server a n b
    using h unfolding loses_the_last_word_def by blast
  have m: "maps_ranges h" using h by (simp add: loses_the_last_word_def)
  obtain p where p: "filled_range h 0x400080000000 0x40000000 (- 1) = Inr (0x400080000000, p)" "cp_buf p = replicate 134217728 (- 1)"
      "cp_out p = [Mapping 0x400080000000 0x40000000, Mapping 0x400080000000 0x40000000]"
    by (rule filled_range_works [OF m, of "0x400080000000" "0x40000000" "- 1"]) (simp_all add: MAP_FAILED_def)
  have last: "cp_show 0x400080000000 134217727 q = Inr (cprint (Number (- 1)) q)"
    if "cp_buf q = (replicate 134217728 (- 1))[134217727 := 0]" for q
    using that load_within_ones [OF refl] load_ignores_the_last_word [of "replicate 134217728 (- 1)" 0] by (simp add: cp_show_def)
  have up: "[0..<NUM_OF_MEMORY_SERVER] = [0, 1]" by (simp add: NUM_OF_MEMORY_SERVER_def upt_rec)
  from p show ?thesis
    by (simp add: control_path_main_def up write_to_server_def read_from_server_def cp_show_first last
        cp_fill_again cp_show_call_result control_effect_snoc last_written_snoc eff last_list_update del: append_assoc)
qed

definition lossy_chost :: chost where
  "lossy_chost = demo_chost\<lparr>ch_effect := \<lambda>hs. let d = control_effect hs in
     case rdma_op (fst (last hs)) of Some (kind, _) \<Rightarrow> if kind = 1 then d[length d - 1 := 0] else d | None \<Rightarrow> d\<rparr>"

theorem a_lost_last_word_goes_unnoticed_witness:
  "loses_the_last_word lossy_chost \<and> (\<exists>p. control_path_main lossy_chost = Inr p \<and> last (cp_buf p) = 0 \<and> last (cp_out p) = Number (- 1))"
proof -
  have t: "loses_the_last_word lossy_chost"
    by (simp add: loses_the_last_word_def maps_ranges_def lossy_chost_def demo_chost_def control_effect_def Let_def)
  with a_lost_last_word_goes_unnoticed [OF t] show ?thesis by auto
qed

end
