(* ===== verification/Shared_Pages.thy ===== *)
theory Shared_Pages
  imports Swap_Tests
begin

text \<open>
  The two programs of \<^verbatim>\<open>src/Kernel-dev/user-kernel-shared-mem\<close>. A process maps a range and hands it to the
  kernel, which fills it and, in the second program, keeps the state of every page of a heap in it while the process
  runs. What the process finds there is a parameter; for the second program it may change from one read to the next.
\<close>

section \<open>The buffer the kernel fills once\<close>

definition SYS_USER_KERNEL_BUF :: nat where
  "SYS_USER_KERNEL_BUF = 457"

text \<open>\<^verbatim>\<open>for (i = 0; i < n; i += step) printf(..., user_buf[i])\<close>; the elements are 4-byte integers.\<close>

function show_every :: "nat \<Rightarrow> nat \<Rightarrow> nat \<Rightarrow> u32 list \<Rightarrow> uproc \<Rightarrow> uproc res" where
  "show_every step n i buf p =
     (if i < n \<and> 0 < step
      then res_bind (array_get buf i) (\<lambda>x.
             show_every step n (i + step) buf (print_number (ucast x) (print_number (word_of_nat i) p)))
      else Inr p)"
  by auto
termination by (relation "measure (\<lambda>(step, n, i, buf, p). n - i)") auto

function rewrite_every :: "nat \<Rightarrow> nat \<Rightarrow> nat \<Rightarrow> u32 list \<Rightarrow> uproc \<Rightarrow> (u32 list \<times> uproc) res" where
  "rewrite_every step n i buf p =
     (if i < n \<and> 0 < step
      then res_bind (array_get buf i) (\<lambda>_.
             rewrite_every step n (i + step) (buf[i := 1])
               (print_number (ucast (buf[i := 1] ! i)) (print_number (word_of_nat i) p)))
      else Inr (buf, p))"
  by auto
termination by (relation "measure (\<lambda>(step, n, i, buf, p). n - i)") auto

declare show_every.simps [simp del] rewrite_every.simps [simp del]

text \<open>\<open>kbuf\<close> is what the range contains after the system call.\<close>

definition register_shared_buf_main :: "uhost \<Rightarrow> u32 list \<Rightarrow> uproc res" where
  "register_shared_buf_main h kbuf =
     (let request_addr = 0x400000000000; size = 0x40000000; n = unat size div 4; M = 1024 * 1024;
          (user_buf, p) = map_range h request_addr size start_uproc;
          (ret, p) = kcall h (Syscall SYS_USER_KERNEL_BUF [user_buf, size]) p
      in if to_int ret \<noteq> 0 then Inr (print_number (to_int ret) p)
         else if user_buf = 0 then Inl NullDeref
         else res_bind (show_every (16 * M) n 0 kbuf p) (\<lambda>p.
              res_bind (rewrite_every (16 * M) n 0 kbuf p) (\<lambda>(kbuf, p). Inr p)))"

lemma show_every_all:
  assumes "0 < step" "m * step \<le> length buf" "k \<le> m"
  shows "\<exists>q. show_every step (m * step) (k * step) buf p = Inr q \<and>
    up_out q = up_out p @ concat (map (\<lambda>j. [Number (word_of_nat (j * step)), Number (ucast (buf ! (j * step)))]) [k..<m])"
  using assms(3)
proof (induction "m - k" arbitrary: k p)
  case 0
  then show ?case by (subst show_every.simps) simp
next
  case (Suc d)
  then have k: "k < m" "d = m - Suc k" by simp_all
  then have lt: "k * step < m * step" using assms(1) by simp
  let ?p = "print_number (ucast (buf ! (k * step))) (print_number (word_of_nat (k * step)) p)"
  have "show_every step (m * step) (k * step) buf p = show_every step (m * step) (Suc k * step) buf ?p"
    using lt assms(1) less_le_trans [OF lt assms(2)] by (subst show_every.simps) (simp add: add.commute)
  moreover have "[k..<m] = k # [Suc k..<m]" using k by (simp add: upt_conv_Cons)
  ultimately show ?case using Suc.hyps(1) [of "Suc k" ?p] k by auto
qed

lemma rewrite_every_all:
  assumes "0 < step" "m * step \<le> length buf" "k \<le> m"
  shows "\<exists>b q. rewrite_every step (m * step) (k * step) buf p = Inr (b, q) \<and> length b = length buf \<and>
    up_out q = up_out p @ concat (map (\<lambda>j. [Number (word_of_nat (j * step)), Number 1]) [k..<m])"
  using assms(2,3)
proof (induction "m - k" arbitrary: k buf p)
  case 0
  then show ?case by (subst rewrite_every.simps) simp
next
  case (Suc d)
  then have k: "k < m" "d = m - Suc k" by simp_all
  then have lt: "k * step < m * step" using assms(1) by simp
  let ?p = "print_number 1 (print_number (word_of_nat (k * step)) p)" and ?b = "buf[k * step := 1]"
  have "rewrite_every step (m * step) (k * step) buf p = rewrite_every step (m * step) (Suc k * step) ?b ?p"
    using lt assms(1) less_le_trans [OF lt Suc.prems(1)] by (subst rewrite_every.simps) (simp add: add.commute)
  moreover have "[k..<m] = k # [Suc k..<m]" using k by (simp add: upt_conv_Cons)
  ultimately show ?case using Suc.hyps(1) [of "Suc k" ?b ?p] k Suc.prems by auto
qed

lemma map_range_result:
  assumes "transparent h" "addr \<noteq> MAP_FAILED" "addr \<noteq> 0"
  shows "\<exists>p'. map_range h addr n p = (addr, p') \<and> up_out p' = up_out p @ [Mapping addr n, Mapping addr n]"
  using assms
  by (simp add: map_range_def report_mapping_def reserve_anon_memory_def commit_anon_memory_def kcall_def transparentD split_def Let_def)

lemma shared_buf_is_shown_and_rewritten:
  assumes "transparent h" "\<And>cs a. uh_answer h (cs @ [Syscall SYS_USER_KERNEL_BUF a]) = 0" "length kbuf = 268435456"
  shows "\<exists>p. register_shared_buf_main h kbuf = Inr p \<and> up_out p = [Mapping 0x400000000000 0x40000000, Mapping 0x400000000000 0x40000000] @
    concat (map (\<lambda>j. [Number (word_of_nat (j * 16777216)), Number (ucast (kbuf ! (j * 16777216)))]) [0..<16]) @
    concat (map (\<lambda>j. [Number (word_of_nat (j * 16777216)), Number 1]) [0..<16])"
proof -
  obtain q where q: "map_range h 0x400000000000 0x40000000 start_uproc = (0x400000000000, q)"
      "up_out q = [Mapping 0x400000000000 0x40000000, Mapping 0x400000000000 0x40000000]"
    using map_range_result [OF assms(1), of "0x400000000000" "0x40000000" start_uproc] by (auto simp: MAP_FAILED_def start_uproc_def)
  obtain r where r: "kcall h (Syscall SYS_USER_KERNEL_BUF [0x400000000000, 0x40000000]) q = (0, r)" "up_out r = up_out q"
    using assms(2) by (simp add: kcall_def Let_def)
  obtain s where s: "show_every 16777216 268435456 0 kbuf r = Inr s"
      "up_out s = up_out r @ concat (map (\<lambda>j. [Number (word_of_nat (j * 16777216)), Number (ucast (kbuf ! (j * 16777216)))]) [0..<16])"
    using show_every_all [of 16777216 16 kbuf 0 r] assms(3) by (auto simp del: upt_rec_numeral)
  obtain b t where t: "rewrite_every 16777216 268435456 0 kbuf s = Inr (b, t)"
      "up_out t = up_out s @ concat (map (\<lambda>j. [Number (word_of_nat (j * 16777216)), Number 1]) [0..<16])"
    using rewrite_every_all [of 16777216 16 kbuf 0 s] assms(3) by (auto simp del: upt_rec_numeral)
  show ?thesis using q r s t by (simp add: register_shared_buf_main_def to_int_def del: upt_rec_numeral)
qed

section \<open>The state of pages, kept by the kernel\<close>

datatype page_stat = MAPPED | UNMAPPED | SWAPPED

fun page_stat_code :: "page_stat \<Rightarrow> u8" where
  "page_stat_code MAPPED = 0"
| "page_stat_code UNMAPPED = 1"
| "page_stat_code SWAPPED = 2"

text \<open>
  \<^verbatim>\<open>struct epoch_struct\<close>: four bytes of epoch, four bytes with the length of the array, and the array. \<open>mem t\<close> is the buffer at
  the time of the program's read number \<open>t\<close>.
\<close>

record sproc =
  sh_reads :: nat
  sh_out :: "u64 list"

definition load32 :: "u8 list \<Rightarrow> nat \<Rightarrow> u32 res" where
  "load32 b off =
     (if off + 4 \<le> length b
      then Inr (ucast (b ! off) OR push_bit 8 (ucast (b ! (off + 1))) OR push_bit 16 (ucast (b ! (off + 2))) OR push_bit 24 (ucast (b ! (off + 3))))
      else Inl OutOfBounds)"

definition epoch_field :: "(nat \<Rightarrow> u8 list) \<Rightarrow> sproc \<Rightarrow> (u32 \<times> sproc) res" where
  "epoch_field mem p = res_bind (load32 (mem (sh_reads p)) 0) (\<lambda>x. Inr (x, p\<lparr>sh_reads := sh_reads p + 1\<rparr>))"

definition length_field :: "(nat \<Rightarrow> u8 list) \<Rightarrow> sproc \<Rightarrow> (u32 \<times> sproc) res" where
  "length_field mem p = res_bind (load32 (mem (sh_reads p)) 4) (\<lambda>x. Inr (x, p\<lparr>sh_reads := sh_reads p + 1\<rparr>))"

definition page_stats_field :: "(nat \<Rightarrow> u8 list) \<Rightarrow> nat \<Rightarrow> sproc \<Rightarrow> (u8 \<times> sproc) res" where
  "page_stats_field mem i p = res_bind (array_get (mem (sh_reads p)) (8 + i)) (\<lambda>x. Inr (x, p\<lparr>sh_reads := sh_reads p + 1\<rparr>))"

definition sprint :: "u64 \<Rightarrow> sproc \<Rightarrow> sproc" where
  "sprint x p = p\<lparr>sh_out := sh_out p @ [x]\<rparr>"

text \<open>
  \<^verbatim>\<open>for (i = 0; i < user_buf->length; i += step) printf(...)\<close>. The length is read again before every turn; it is a 4-byte number,
  so \<open>2 ^ 32 - i\<close> decreases whatever the kernel writes.
\<close>

lemma counter_below_length: "i < unat (len :: u32) \<Longrightarrow> 0 < step \<Longrightarrow> 2 ^ 32 - (i + step) < (2 ^ 32 - i :: nat)"
  using unat_bound [of len] by simp

function show_stats_loop :: "(nat \<Rightarrow> u8 list) \<Rightarrow> nat \<Rightarrow> nat \<Rightarrow> sproc \<Rightarrow> sproc res" where
  "show_stats_loop mem step i p =
     (case length_field mem p of
        Inl e \<Rightarrow> Inl e
      | Inr (len, p) \<Rightarrow>
          if i < unat len \<and> 0 < step
          then (case page_stats_field mem i p of
                  Inl e \<Rightarrow> Inl e
                | Inr (x, p) \<Rightarrow> show_stats_loop mem step (i + step) (sprint (ucast x) (sprint (word_of_nat i) p)))
          else Inr p)"
  by auto
termination
  by (relation "measure (\<lambda>(mem, step, i, p). 2 ^ 32 - i)") (auto dest: counter_below_length)

declare show_stats_loop.simps [simp del]

text \<open>
  The heap of 4-byte integers: every element gets the square of its index, cut to the width of the element, and is
  added to a sum of 8 bytes as a signed number.
\<close>

definition heap_turn :: "nat \<Rightarrow> u32 list \<times> u64 \<Rightarrow> u32 list \<times> u64" where
  "heap_turn i = (\<lambda>(heap, sum).
     let heap = heap[i := ucast (word_of_nat i * word_of_nat i :: u64)] in (heap, sum + scast (heap ! i)))"

definition read_page_swap_status_main :: "uhost \<Rightarrow> (nat \<Rightarrow> u8 list) \<Rightarrow> sproc res" where
  "read_page_swap_status_main h mem =
     (let shared_addr = 0x100000000000; shared_size = 0x80000; heap_addr = 0x400000000000; heap_size = 0x40000000; K = 1024;
          n = unat heap_size div 4; out = \<lparr>sh_reads = 0, sh_out = []\<rparr>;
          (user_buf, p) = map_range h shared_addr shared_size start_uproc;
          (ret, p) = kcall h (Syscall SYS_USER_KERNEL_BUF [user_buf, shared_size]) p
      in if to_int ret \<noteq> 0 then Inr (sprint (to_int ret) out)
         else if user_buf = 0 then Inl NullDeref
         else res_bind (epoch_field mem out) (\<lambda>(epoch, out).
              res_bind (length_field mem (sprint (ucast epoch) out)) (\<lambda>(len, out).
              res_bind (show_stats_loop mem (256 * K) 0 (sprint (ucast len) out)) (\<lambda>out.
              let (semeru_heap, p) = map_range h heap_addr heap_size p
              in if semeru_heap = 0 then Inl NullDeref
                 else let (_, sum) = fold heap_turn [0..<n] (replicate n 0, 0)
                      in show_stats_loop mem (2 * K) 0 (sprint sum out)))))"

section \<open>What is read and printed\<close>

text \<open>A buffer of fixed size whose length field does not change; the states in it may.\<close>

definition fixed_length :: "(nat \<Rightarrow> u8 list) \<Rightarrow> nat \<Rightarrow> u32 \<Rightarrow> bool" where
  "fixed_length mem n len \<longleftrightarrow> (\<forall>t. length (mem t) = n \<and> load32 (mem t) 4 = Inr len)"

text \<open>The number of turns, and what they print.\<close>

definition turns :: "nat \<Rightarrow> u32 \<Rightarrow> nat" where
  "turns step len = (unat len + step - 1) div step"

lemma turns_iff:
  assumes "0 < step"
  shows "j < turns step len \<longleftrightarrow> j * step < unat len"
proof -
  have "j < turns step len \<longleftrightarrow> Suc j * step \<le> unat len + step - 1"
    unfolding turns_def Suc_le_eq [symmetric] using assms by (rule less_eq_div_iff_mult_less_eq)
  also have "\<dots> \<longleftrightarrow> j * step < unat len" using assms by auto
  finally show ?thesis .
qed

definition stats_shown :: "(nat \<Rightarrow> u8 list) \<Rightarrow> nat \<Rightarrow> nat \<Rightarrow> nat \<Rightarrow> nat \<Rightarrow> u64 list" where
  "stats_shown mem step t k m =
     concat (map (\<lambda>j. [word_of_nat (j * step), ucast (mem (t + 2 * (j - k) + 1) ! (8 + j * step))]) [k..<m])"

lemma stats_shown_Cons:
  "k < m \<Longrightarrow> stats_shown mem step t k m =
     [word_of_nat (k * step), ucast (mem (t + 1) ! (8 + k * step))] @ stats_shown mem step (t + 2) (Suc k) m"
proof -
  assume k: "k < m"
  have eq: "map (\<lambda>j. [word_of_nat (j * step), ucast (mem (t + 2 * (j - k) + 1) ! (8 + j * step))]) [Suc k..<m] =
      (map (\<lambda>j. [word_of_nat (j * step), ucast (mem (t + 2 + 2 * (j - Suc k) + 1) ! (8 + j * step))]) [Suc k..<m] :: u64 list list)"
  proof (rule map_cong [OF refl])
    fix j assume "j \<in> set [Suc k..<m]"
    then have "t + 2 * (j - k) + 1 = t + 2 + 2 * (j - Suc k) + 1" by auto
    then show "[word_of_nat (j * step), ucast (mem (t + 2 * (j - k) + 1) ! (8 + j * step))] =
        ([word_of_nat (j * step), ucast (mem (t + 2 + 2 * (j - Suc k) + 1) ! (8 + j * step))] :: u64 list)" by (simp only:)
  qed
  show ?thesis unfolding stats_shown_def upt_conv_Cons [OF k] list.map concat.simps eq by simp
qed

lemma show_stats_loop_result:
  assumes fl: "fixed_length mem n len" and step: "0 < step" and k: "k \<le> turns step len"
  shows "show_stats_loop mem step (k * step) p =
    (if \<forall>j. k \<le> j \<and> j < turns step len \<longrightarrow> 8 + j * step < n
     then Inr (p\<lparr>sh_reads := sh_reads p + 2 * (turns step len - k) + 1,
                 sh_out := sh_out p @ stats_shown mem step (sh_reads p) k (turns step len)\<rparr>)
     else Inl OutOfBounds)"
  using k
proof (induction "turns step len - k" arbitrary: k p)
  case 0
  then have k: "k = turns step len" by simp
  then have "\<not> k * step < unat len" using turns_iff [OF step, of k len] by simp
  with fl show ?case
    by (subst show_stats_loop.simps) (simp add: k length_field_def fixed_length_def stats_shown_def)
next
  case (Suc d)
  then have k: "k < turns step len" "d = turns step len - Suc k" by simp_all
  then have lt: "k * step < unat len" using turns_iff [OF step] by simp
  have len: "length_field mem p = Inr (len, p\<lparr>sh_reads := sh_reads p + 1\<rparr>)"
    using fl by (simp add: length_field_def fixed_length_def)
  show ?case
  proof (cases "8 + k * step < n")
    case False
    then have "page_stats_field mem (k * step) (p\<lparr>sh_reads := sh_reads p + 1\<rparr>) = Inl OutOfBounds"
      using fl by (simp add: page_stats_field_def fixed_length_def)
    with False k lt len step show ?thesis by (subst show_stats_loop.simps) auto
  next
    case True
    let ?x = "mem (sh_reads p + 1) ! (8 + k * step)"
    let ?q = "p\<lparr>sh_reads := sh_reads p + 2, sh_out := sh_out p @ [word_of_nat (k * step), ucast ?x]\<rparr>"
    have "page_stats_field mem (k * step) (p\<lparr>sh_reads := sh_reads p + 1\<rparr>) = Inr (?x, p\<lparr>sh_reads := sh_reads p + 2\<rparr>)"
      using fl True by (simp add: page_stats_field_def fixed_length_def)
    then have "show_stats_loop mem step (k * step) p = show_stats_loop mem step (Suc k * step) ?q"
      using lt len step by (subst show_stats_loop.simps) (simp add: sprint_def add.commute del: of_nat_mult)
    also have "\<dots> = (if \<forall>j. Suc k \<le> j \<and> j < turns step len \<longrightarrow> 8 + j * step < n
     then Inr (?q\<lparr>sh_reads := sh_reads ?q + 2 * (turns step len - Suc k) + 1,
                 sh_out := sh_out ?q @ stats_shown mem step (sh_reads ?q) (Suc k) (turns step len)\<rparr>)
     else Inl OutOfBounds)" using k by (intro Suc.hyps(1)) simp_all
    also have "(\<forall>j. Suc k \<le> j \<and> j < turns step len \<longrightarrow> 8 + j * step < n) \<longleftrightarrow> (\<forall>j. k \<le> j \<and> j < turns step len \<longrightarrow> 8 + j * step < n)"
      using True by (metis Suc_leI Suc_leD le_neq_implies_less)
    finally show ?thesis using k(1) by (simp add: stats_shown_Cons del: of_nat_mult)
  qed
qed


text \<open>A buffer for five pages, all of them swapped, and one whose length is that of the buffer with its two fields.\<close>

definition demo_shared :: "u8 \<Rightarrow> nat \<Rightarrow> u8 list" where
  "demo_shared len t = [7, 0, 0, 0, len, 0, 0, 0] @ replicate 5 (page_stat_code SWAPPED)"


text \<open>The sum is that of the squares as far as they fit: from index 46341 on the element is a negative number.\<close>

lemma heap_sum:
  "n \<le> length heap \<Longrightarrow> snd (fold heap_turn [0..<n] (heap, acc)) = acc + (\<Sum>i < n. scast (ucast (word_of_nat i * word_of_nat i :: u64) :: u32))
     \<and> length (fst (fold heap_turn [0..<n] (heap, acc))) = length heap"
  by (induction n) (auto simp: heap_turn_def split_def Let_def add.assoc)

lemma squares_turn_negative: "(scast (ucast (46341 * 46341 :: u64) :: u32) :: u64) = - 2147479015"
  by simp

end
