(* ===== verification/Remap.thy ===== *)
theory Remap
  imports Swap_Tests
begin

text \<open>
  The test of \<^verbatim>\<open>mremap\<close> (\<^verbatim>\<open>src/Kernel-dev/syscall/mremap.c\<close>). Two ranges are filled with different values and the
  smaller one is moved onto the larger one. The address space maps the words of mapped pages to their contents; whether a
  mapping call succeeds is a parameter, and what it does when it succeeds is its documented effect: a
  fixed mapping replaces what is there by zeros, a move takes the pages along, unmaps where they
  were and zeroes what the range has grown by.
\<close>

section \<open>Address space\<close>

type_synonym aspace = "nat \<rightharpoonup> u64"

record remap_host =
  rm_mmap :: "u64 \<Rightarrow> bool"
  rm_mremap :: bool

definition map_fixed :: "u64 \<Rightarrow> u64 \<Rightarrow> aspace \<Rightarrow> aspace" where
  "map_fixed addr bytes m =
     (\<lambda>w. if unat addr div 8 \<le> w \<and> w < unat addr div 8 + unat bytes div 8 then Some 0 else m w)"

definition move_fixed :: "u64 \<Rightarrow> u64 \<Rightarrow> u64 \<Rightarrow> u64 \<Rightarrow> aspace \<Rightarrow> aspace" where
  "move_fixed old old_bytes new_bytes new m =
     (\<lambda>w. let o' = unat old div 8; on = unat old_bytes div 8; n' = unat new div 8; nn = unat new_bytes div 8
          in if n' \<le> w \<and> w < n' + nn then (if w - n' < on then m (o' + (w - n')) else Some 0)
             else if o' \<le> w \<and> w < o' + on then None
             else m w)"

record mproc =
  mp_mem :: aspace
  mp_out :: "printed list"

definition mprint :: "printed \<Rightarrow> mproc \<Rightarrow> mproc" where
  "mprint x p = p\<lparr>mp_out := mp_out p @ [x]\<rparr>"

definition remap_commit :: "remap_host \<Rightarrow> u64 \<Rightarrow> u64 \<Rightarrow> mproc \<Rightarrow> u64 \<times> mproc" where
  "remap_commit h start_addr n p =
     (if rm_mmap h start_addr then (start_addr, p\<lparr>mp_mem := map_fixed start_addr n (mp_mem p)\<rparr>) else (0, p))"

text \<open>An access to word \<open>i\<close> of a pointer; page zero is never mapped.\<close>

definition mload :: "u64 \<Rightarrow> nat \<Rightarrow> mproc \<Rightarrow> u64 res" where
  "mload ptr i p =
     (if ptr = 0 then Inl NullDeref
      else case mp_mem p (unat ptr div 8 + i) of None \<Rightarrow> Inl OutOfBounds | Some x \<Rightarrow> Inr x)"

definition mstore :: "u64 \<Rightarrow> nat \<Rightarrow> u64 \<Rightarrow> mproc \<Rightarrow> mproc res" where
  "mstore ptr i v p =
     res_bind (mload ptr i p) (\<lambda>_. Inr (p\<lparr>mp_mem := (mp_mem p)(unat ptr div 8 + i \<mapsto> v)\<rparr>))"

fun mfill :: "u64 \<Rightarrow> (nat \<Rightarrow> u64) \<Rightarrow> nat list \<Rightarrow> mproc \<Rightarrow> mproc res" where
  "mfill ptr f [] p = Inr p"
| "mfill ptr f (i # is) p = res_bind (mstore ptr i (f i) p) (mfill ptr f is)"

fun mshow :: "u64 \<Rightarrow> nat list \<Rightarrow> mproc \<Rightarrow> mproc res" where
  "mshow ptr [] p = Inr p"
| "mshow ptr (i # is) p =
     res_bind (mload ptr i p) (\<lambda>x. mshow ptr is (mprint (Number x) (mprint (Number (word_of_nat i)) p)))"

text \<open>The counters of \<^verbatim>\<open>for (i = 0; i < n; i += 512)\<close>.\<close>

definition every_page :: "nat \<Rightarrow> nat list" where
  "every_page n = map (\<lambda>k. k * 512) [0..<(n + 511) div 512]"

section \<open>The program\<close>

definition mremap_main :: "remap_host \<Rightarrow> mproc res" where
  "mremap_main h =
     (let target_request_addr = 0x40000000; target_size = 0x10000;
          user_buffer_addr = 0x20000000; user_buffer_size = 0x2000;
          un = unat user_buffer_size div 8; tn = unat target_size div 8;
          (user_buff, p) = remap_commit h user_buffer_addr user_buffer_size \<lparr>mp_mem = Map.empty, mp_out = []\<rparr>;
          p = mprint (if user_buff = 0 then Mapping_failed user_buffer_addr else Mapping user_buffer_addr user_buffer_size) p;
          (target_buff, p) = remap_commit h target_request_addr target_size p;
          p = mprint (if user_buff = 0 then Mapping_failed target_request_addr else Mapping target_request_addr target_size) p
      in res_bind (mfill user_buff (\<lambda>_. 7) [0..<un] p) (\<lambda>p.
         res_bind (mshow user_buff (every_page un) p) (\<lambda>p.
         res_bind (mfill target_buff word_of_nat [0..<tn] p) (\<lambda>p.
         res_bind (mshow target_buff (every_page tn) p) (\<lambda>p.
           if \<not> rm_mremap h then Inl OutOfBounds
           else let p = p\<lparr>mp_mem := move_fixed user_buff user_buffer_size target_size target_buff (mp_mem p)\<rparr>;
                    ret = target_buff;
                    p = mprint (Number target_buff) (mprint (Number user_buff) (mprint (Number ret) p))
                in res_bind (mshow ret (every_page tn) p) (mshow target_buff (every_page tn)))))))"

section \<open>What is found after the move\<close>

text \<open>A range of \<open>n\<close> words from word \<open>a\<close> on with given contents.\<close>

definition holds_words :: "aspace \<Rightarrow> nat \<Rightarrow> nat \<Rightarrow> (nat \<Rightarrow> u64) \<Rightarrow> bool" where
  "holds_words m a n f \<longleftrightarrow> (\<forall>i < n. m (a + i) = Some (f i))"

lemma mfill_result:
  assumes "ptr \<noteq> 0" "unat ptr div 8 = a" "holds_words (mp_mem p) a n g" "k \<le> n"
  shows "\<exists>q. mfill ptr f [0..<k] p = Inr q \<and> mp_out q = mp_out p \<and>
    mp_mem q = (\<lambda>w. if a \<le> w \<and> w < a + k then Some (f (w - a)) else mp_mem p w)"
proof -
  have app: "mfill ptr f (xs @ ys) p = res_bind (mfill ptr f xs p) (mfill ptr f ys)" for xs ys p
    by (induction xs arbitrary: p) (simp_all add: res_bind_assoc cong: res_bind_cong)
  show ?thesis using assms(4)
  proof (induction k)
    case 0
    then show ?case by (auto simp: fun_eq_iff)
  next
    case (Suc k)
    then obtain q where q: "mfill ptr f [0..<k] p = Inr q" "mp_out q = mp_out p"
      "mp_mem q = (\<lambda>w. if a \<le> w \<and> w < a + k then Some (f (w - a)) else mp_mem p w)" by auto
    have "mp_mem p (a + k) = Some (g k)" using assms(3) Suc.prems by (simp add: holds_words_def)
    with q assms(1,2) show ?case by (auto simp: app mstore_def mload_def fun_eq_iff)
  qed
qed

lemma mshow_result:
  assumes "ptr \<noteq> 0" "unat ptr div 8 = a" "holds_words (mp_mem p) a n f" "\<forall>i \<in> set is. i < n"
  shows "mshow ptr is p = Inr (p\<lparr>mp_out := mp_out p @ concat (map (\<lambda>i. [Number (word_of_nat i), Number (f i)]) is)\<rparr>)"
  using assms(3,4)
proof (induction "is" arbitrary: p)
  case Nil
  then show ?case by simp
next
  case (Cons i "is")
  let ?q = "mprint (Number (f i)) (mprint (Number (word_of_nat i)) p)"
  have "mload ptr i p = Inr (f i)" using assms(1,2) Cons.prems by (simp add: mload_def holds_words_def)
  moreover have "mshow ptr is ?q = Inr (?q\<lparr>mp_out := mp_out ?q @ concat (map (\<lambda>i. [Number (word_of_nat i), Number (f i)]) is)\<rparr>)"
    by (rule Cons.IH) (use Cons.prems in \<open>simp_all add: mprint_def\<close>)
  ultimately show ?case by (simp add: mprint_def)
qed

lemma every_page_in: "\<forall>i \<in> set (every_page n). i < n"
proof
  fix i assume "i \<in> set (every_page n)"
  then obtain k where k: "k < (n + 511) div 512" "i = k * 512" by (auto simp: every_page_def)
  then have "Suc k * 512 \<le> n + 511" by (metis Suc_leI less_eq_div_iff_mult_less_eq zero_less_numeral)
  with k show "i < n" by simp
qed

definition shown :: "(nat \<Rightarrow> u64) \<Rightarrow> nat \<Rightarrow> printed list" where
  "shown f n = concat (map (\<lambda>i. [Number (word_of_nat i), Number (f i)]) (every_page n))"

text \<open>
  When every call succeeds the program returns, and after the move the range it has moved to holds, through both
  pointers, the contents of the moved range in its first two pages and zeros in the fourteen it has grown by; nothing is left of what
  was stored there before, and the old range is not mapped any more.
\<close>

theorem moved_range_replaces_the_target:
  assumes "rm_mmap h 0x20000000" and "rm_mmap h 0x40000000" and "rm_mremap h"
  shows "\<exists>p. mremap_main h = Inr p \<and>
    mp_out p = [Mapping 0x20000000 0x2000, Mapping 0x40000000 0x10000] @ shown (\<lambda>_. 7) 1024 @ shown word_of_nat 8192 @
      [Number 0x40000000, Number 0x20000000, Number 0x40000000] @
      shown (\<lambda>i. if i < 1024 then 7 else 0) 8192 @ shown (\<lambda>i. if i < 1024 then 7 else 0) 8192 \<and>
    (\<forall>i < 1024. mp_mem p (0x20000000 div 8 + i) = None)"
proof -
  define p0 where "p0 = \<lparr>mp_mem = map_fixed 0x40000000 0x10000 (map_fixed 0x20000000 0x2000 Map.empty),
      mp_out = [Mapping 0x20000000 0x2000, Mapping 0x40000000 0x10000]\<rparr>"
  have u0: "holds_words (mp_mem p0) 0x4000000 1024 (\<lambda>_. 0)"
    and t0: "holds_words (mp_mem p0) 0x8000000 8192 (\<lambda>_. 0)"
    by (simp_all add: p0_def holds_words_def map_fixed_def)
  obtain p1 where p1: "mfill 0x20000000 (\<lambda>_. 7) [0..<1024] p0 = Inr p1" "mp_out p1 = mp_out p0"
      and m1: "mp_mem p1 = (\<lambda>w. if 0x4000000 \<le> w \<and> w < 0x4000000 + 1024 then Some 7 else mp_mem p0 w)"
    using mfill_result [OF _ _ u0, of "0x20000000" 1024 "\<lambda>_. 7"] by auto
  define p2 where "p2 = p1\<lparr>mp_out := mp_out p1 @ shown (\<lambda>_. 7) 1024\<rparr>"
  have p2: "mshow 0x20000000 (every_page 1024) p1 = Inr p2"
    unfolding p2_def shown_def by (rule mshow_result [where n = 1024 and a = "0x4000000"]) (simp_all add: every_page_in holds_words_def m1)
  have t2: "holds_words (mp_mem p2) 0x8000000 8192 (\<lambda>_. 0)"
    using t0 by (simp add: p2_def m1 holds_words_def)
  obtain p3 where p3: "mfill 0x40000000 word_of_nat [0..<8192] p2 = Inr p3" "mp_out p3 = mp_out p2"
      and m3: "mp_mem p3 = (\<lambda>w. if 0x8000000 \<le> w \<and> w < 0x8000000 + 8192 then Some (word_of_nat (w - 0x8000000)) else mp_mem p2 w)"
    using mfill_result [OF _ _ t2, of "0x40000000" 8192 word_of_nat] by auto
  define p4 where "p4 = p3\<lparr>mp_out := mp_out p3 @ shown word_of_nat 8192\<rparr>"
  have p4: "mshow 0x40000000 (every_page 8192) p3 = Inr p4"
    unfolding p4_def shown_def by (rule mshow_result [where n = 8192 and a = "0x8000000"]) (simp_all add: every_page_in holds_words_def m3)
  define p5 where "p5 = p4\<lparr>mp_mem := move_fixed 0x20000000 0x2000 0x10000 0x40000000 (mp_mem p4),
      mp_out := mp_out p4 @ [Number 0x40000000, Number 0x20000000, Number 0x40000000]\<rparr>"
  let ?f = "\<lambda>i. if i < 1024 then 7 else 0"
  have h5: "holds_words (mp_mem p5) 0x8000000 8192 ?f"
    by (simp add: p5_def p4_def m3 p2_def m1 holds_words_def move_fixed_def)
  have s5: "mshow 0x40000000 (every_page 8192) q = Inr (q\<lparr>mp_out := mp_out q @ shown ?f 8192\<rparr>)" if "mp_mem q = mp_mem p5" for q
    unfolding shown_def by (rule mshow_result [where n = 8192 and a = "0x8000000"]) (use that h5 in \<open>simp_all add: every_page_in\<close>)
  have gone: "\<forall>i < 1024. mp_mem p5 (0x20000000 div 8 + i) = None"
    by (simp add: p5_def move_fixed_def)
  have run: "mremap_main h = Inr (p5\<lparr>mp_out := mp_out p5 @ shown ?f 8192 @ shown ?f 8192\<rparr>)"
    using assms p1(1) p2 p3(1) p4 s5 [of p5]
    by (simp add: mremap_main_def remap_commit_def mprint_def p0_def [symmetric] p5_def [symmetric] s5 del: upt_rec_numeral)
  show ?thesis
    by (rule exI, rule conjI [OF run], rule conjI) (use gone in \<open>simp_all add: p5_def p4_def p3(2) p2_def p1(2) p0_def\<close>)
qed

theorem moved_range_replaces_the_target_witness:
  "\<exists>p. mremap_main \<lparr>rm_mmap = \<lambda>_. True, rm_mremap = True\<rparr> = Inr p \<and> mp_mem p (0x20000000 div 8) = None"
  using moved_range_replaces_the_target [of "\<lparr>rm_mmap = \<lambda>_. True, rm_mremap = True\<rparr>"]
  by (metis add.right_neutral remap_host.select_convs(1,2) zero_less_numeral)

text \<open>
  The second commit is judged by the pointer of the first: when it fails it is reported as done, and the program stores
  through the null pointer. A failed move is reported with a string conversion of the pointer it returned, which points nowhere.
\<close>

lemma failed_target_is_reported_as_mapped:
  assumes "rm_mmap h 0x20000000" and "\<not> rm_mmap h 0x40000000"
  shows "mremap_main h = Inl NullDeref"
proof -
  define p0 where "p0 = \<lparr>mp_mem = map_fixed 0x20000000 0x2000 Map.empty, mp_out = [Mapping 0x20000000 0x2000, Mapping 0x40000000 0x10000]\<rparr>"
  have u0: "holds_words (mp_mem p0) 0x4000000 1024 (\<lambda>_. 0)"
    by (simp add: p0_def holds_words_def map_fixed_def)
  obtain p1 where p1: "mfill 0x20000000 (\<lambda>_. 7) [0..<1024] p0 = Inr p1"
      and m1: "mp_mem p1 = (\<lambda>w. if 0x4000000 \<le> w \<and> w < 0x4000000 + 1024 then Some 7 else mp_mem p0 w)"
    using mfill_result [OF _ _ u0, of "0x20000000" 1024 "\<lambda>_. 7"] by auto
  have "mshow 0x20000000 (every_page 1024) p1 = Inr (p1\<lparr>mp_out := mp_out p1 @ shown (\<lambda>_. 7) 1024\<rparr>)"
    unfolding shown_def by (rule mshow_result [where n = 1024 and a = "0x4000000"]) (simp_all add: every_page_in holds_words_def m1)
  moreover have "mfill 0 word_of_nat [0..<8192] q = Inl NullDeref" for q
    using upt_conv_Cons [of 0 8192] by (simp add: mstore_def mload_def del: upt_rec_numeral)
  ultimately show ?thesis
    using assms p1 by (simp add: mremap_main_def remap_commit_def mprint_def p0_def [symmetric] del: upt_rec_numeral)
qed

end
