(* ===== verification/Clocks.thy ===== *)
theory Clocks
  imports Prelude
begin

text \<open>
  The kernel modules that measure short times: the counter of processor cycles
  (\<^verbatim>\<open>src/Kernel-dev/rdtsc_clock\<close>, \<^verbatim>\<open>src/Kernel-dev/hrtimer\<close>) and the monotonic clock (\<^verbatim>\<open>src/Kernel-dev/monotonic_clock\<close>). The counter and the clock
  are parameters: their values at the moments the modules read them.
\<close>

section \<open>The cycle counter\<close>

text \<open>The instruction leaves the high half of the counter in one register and the low half in another.\<close>

definition rdtsc :: "u64 \<Rightarrow> u32 \<times> u32" where
  "rdtsc counter = (ucast (drop_bit 32 counter), ucast counter)"

definition joined_cycles :: "u32 \<Rightarrow> u32 \<Rightarrow> u64" where
  "joined_cycles high low = push_bit 32 (ucast high) OR ucast low"

lemma joined_rdtsc [simp]: "joined_cycles (fst (rdtsc t)) (snd (rdtsc t)) = t"
  unfolding joined_cycles_def rdtsc_def by (rule bit_word_eqI) (auto simp: bit_simps)

text \<open>The module measures one microsecond of delay while it is loaded: \<open>t0\<close> and \<open>t1\<close> are the counter before and after it.\<close>

definition rdtsc_timer_init :: "u64 \<Rightarrow> u64 \<Rightarrow> int \<times> u64 list" where
  "rdtsc_timer_init t0 t1 =
     (let (cycles_high, cycles_low) = rdtsc t0;
          (cycles_high1, cycles_low1) = rdtsc t1;
          start = joined_cycles cycles_high cycles_low;
          end' = joined_cycles cycles_high1 cycles_low1
      in (0, [end' - start]))"

lemma elapsed_cycles: "d < 2 ^ 64 \<Longrightarrow> unat (word_of_nat (t + d) - word_of_nat t :: u64) = d"
  by (simp add: unsigned_of_nat take_bit_nat_eq_self)

section \<open>The timer measured with the counter\<close>

text \<open>
  The module with a high-resolution timer. Loading it starts the timer; when it expires, the
  handler reads the counter; unloading does not stop it. Its global variables live as long as it is loaded.
\<close>

record hr_module =
  hr_loaded :: bool
  hr_pending :: bool
  hr_cycles :: "u32 \<times> u32"
  hr_cycles_mid :: "u32 \<times> u32"
  hr_cycles1 :: "u32 \<times> u32"
  hr_log :: "u64 list"

definition hr_start :: hr_module where
  "hr_start = \<lparr>hr_loaded = False, hr_pending = False, hr_cycles = (0, 0), hr_cycles_mid = (0, 0), hr_cycles1 = (0, 0), hr_log = []\<rparr>"

definition cycles_between :: "u32 \<times> u32 \<Rightarrow> u32 \<times> u32 \<Rightarrow> u64" where
  "cycles_between a b = joined_cycles (fst b) (snd b) - joined_cycles (fst a) (snd a)"

definition hr_timer_init :: "u64 \<Rightarrow> u64 \<Rightarrow> hr_module \<Rightarrow> hr_module" where
  "hr_timer_init t0 tmid m =
     (let m = m\<lparr>hr_loaded := True, hr_cycles := rdtsc t0\<rparr>;
          m = m\<lparr>hr_pending := True\<rparr>;
          m = m\<lparr>hr_cycles_mid := rdtsc tmid\<rparr>
      in m\<lparr>hr_log := hr_log m @ [cycles_between (hr_cycles m) (hr_cycles_mid m)]\<rparr>)"

definition hr_timer_expired :: "u64 \<Rightarrow> hr_module \<Rightarrow> hr_module" where
  "hr_timer_expired t1 m =
     (let m = m\<lparr>hr_cycles1 := rdtsc t1\<rparr>
      in m\<lparr>hr_log := hr_log m @ [cycles_between (hr_cycles m) (hr_cycles1 m)], hr_pending := False\<rparr>)"

definition hr_timer_exit :: "hr_module \<Rightarrow> hr_module" where
  "hr_timer_exit m = m\<lparr>hr_loaded := False\<rparr>"

datatype hr_event = Load u64 u64 | Expire u64 | Unload

text \<open>Whether the timer fires is up to the kernel: a pending timer may, another does not. The handler of an unloaded module is gone.\<close>

fun hr_step :: "hr_event \<Rightarrow> hr_module \<Rightarrow> hr_module res" where
  "hr_step (Load t0 tmid) m = Inr (if hr_loaded m then m else hr_timer_init t0 tmid m)"
| "hr_step (Expire t1) m =
     (if \<not> hr_pending m then Inr m else if \<not> hr_loaded m then Inl UseAfterFree else Inr (hr_timer_expired t1 m))"
| "hr_step Unload m = Inr (if hr_loaded m then hr_timer_exit m else m)"

text \<open>
  C31. Both modules print the exact number of cycles between their readings: the halves the instruction delivers are
  joined to the counter again, and the difference is right even when the counter has wrapped around in between. A module that is unloaded before
  its timer has expired leaves the timer running, and the kernel then calls a handler that is gone.
\<close>

theorem cycle_counts_are_exact:
  assumes "d < 2 ^ 64" and "dm < 2 ^ 64"
  shows "rdtsc_timer_init (word_of_nat t) (word_of_nat (t + d)) = (0, [word_of_nat d]) \<and>
    unat (snd (rdtsc_timer_init (word_of_nat t) (word_of_nat (t + d))) ! 0) = d \<and>
    (\<exists>m1 m2. hr_step (Load (word_of_nat t) (word_of_nat (t + dm))) hr_start = Inr m1 \<and> map unat (hr_log m1) = [dm] \<and>
       hr_step (Expire (word_of_nat (t + d))) m1 = Inr m2 \<and> map unat (hr_log m2) = [dm, d] \<and> \<not> hr_pending m2 \<and>
       res_bind (hr_step Unload m1) (hr_step (Expire (word_of_nat (t + d)))) = Inl UseAfterFree \<and>
       res_bind (hr_step Unload m2) (hr_step (Expire (word_of_nat (t + d)))) = Inr (hr_timer_exit m2))"
proof -
  have init: "rdtsc_timer_init a b = (0, [b - a])" for a b
    by (simp add: rdtsc_timer_init_def split_def)
  have e: "unat (word_of_nat (t + d) - word_of_nat t :: u64) = d" "unat (word_of_nat (t + dm) - word_of_nat t :: u64) = dm"
    using elapsed_cycles assms by blast+
  have w: "word_of_nat (t + d) - word_of_nat t = (word_of_nat d :: u64)" by simp
  have fits: "take_bit 64 d = d" "take_bit 64 dm = dm" using assms by (simp_all only: take_bit_nat_eq_self)
  show ?thesis
    unfolding init snd_conv nth_Cons_0 e
    by (simp add: w hr_start_def hr_timer_init_def hr_timer_expired_def hr_timer_exit_def cycles_between_def Let_def del: of_nat_add)
      (simp add: e fits unsigned_of_nat)
qed

theorem cycle_counts_are_exact_witness:
  "rdtsc_timer_init (word_of_nat 0xFFFFFFFFFFFFFFFE) (word_of_nat (0xFFFFFFFFFFFFFFFE + 5)) = (0, [word_of_nat 5]) \<and>
   (word_of_nat (0xFFFFFFFFFFFFFFFE + 5) :: u64) = 3"
  using conjunct1 [OF cycle_counts_are_exact [of 5 0 "0xFFFFFFFFFFFFFFFE"]] by (simp del: of_nat_add)

section \<open>The monotonic clock\<close>

record timespec =
  tv_sec :: int
  tv_nsec :: int

definition clock_at :: "nat \<Rightarrow> timespec" where
  "clock_at ns = \<lparr>tv_sec = int (ns div 1000000000), tv_nsec = int (ns mod 1000000000)\<rparr>"

definition timer_start :: "timespec \<Rightarrow> timespec" where
  "timer_start now = now"

definition timer_end :: "timespec \<Rightarrow> timespec \<Rightarrow> int" where
  "timer_end start_time end_time = tv_nsec end_time - tv_nsec start_time"

text \<open>The module; its start time is a global variable, zero at first, which is set after the timer has been started.\<close>

record mono_module =
  mo_start_time :: timespec
  mo_pending :: bool
  mo_log :: "u64 list"

definition mono_loading :: mono_module where
  "mono_loading = \<lparr>mo_start_time = \<lparr>tv_sec = 0, tv_nsec = 0\<rparr>, mo_pending = False, mo_log = []\<rparr>"

definition mono_timer_expired :: "timespec \<Rightarrow> mono_module \<Rightarrow> mono_module" where
  "mono_timer_expired now m =
     (let elapsed_time = timer_end (mo_start_time m) now
      in m\<lparr>mo_log := mo_log m @ [word_of_int elapsed_time], mo_pending := False\<rparr>)"

text \<open>Loading, with the moment the timer expires if that is before the start time has been taken.\<close>

definition mono_timer_init :: "timespec option \<Rightarrow> timespec \<Rightarrow> mono_module \<Rightarrow> int \<times> mono_module" where
  "mono_timer_init early now m =
     (let m = m\<lparr>mo_pending := True\<rparr>;
          m = (case early of None \<Rightarrow> m | Some e \<Rightarrow> mono_timer_expired e m)
      in (0, m\<lparr>mo_start_time := timer_start now\<rparr>))"

lemma timer_end_clock:
  "timer_end (clock_at a) (clock_at b) = int b - int a - 1000000000 * (int (b div 1000000000) - int (a div 1000000000))"
proof -
  have "int (x mod 1000000000) = int x - 1000000000 * int (x div 1000000000)" for x
    by (metis add_diff_cancel_left' mult_div_mod_eq of_nat_add of_nat_mult of_nat_numeral)
  then show ?thesis by (simp add: timer_end_def clock_at_def)
qed

text \<open>
  The time the module prints leaves out the seconds. It is the time from loading to the expiry of the timer exactly when no
  second has begun in between; with one second boundary in a short interval it is negative, and is printed as a number beyond
  two to the 63. A timer that expires before the start time has been taken prints the fraction of the current second instead.
\<close>

theorem printed_time_leaves_out_the_seconds:
  assumes "a \<le> b" and "b < a + 1000000000"
  shows "(let m = snd (mono_timer_init None (clock_at a) mono_loading); x = last (mo_log (mono_timer_expired (clock_at b) m))
     in (b div 1000000000 = a div 1000000000 \<longrightarrow> unat x = b - a) \<and>
        (b div 1000000000 \<noteq> a div 1000000000 \<longrightarrow> unat x = 2 ^ 64 - (1000000000 - (b - a)) \<and> 2 ^ 63 < unat x)) \<and>
    mo_log (snd (mono_timer_init (Some (clock_at b)) (clock_at a) mono_loading)) = [word_of_nat (b mod 1000000000)]"
proof -
  let ?q = "1000000000 :: nat"
  have log: "last (mo_log (mono_timer_expired (clock_at b) (snd (mono_timer_init None (clock_at a) mono_loading)))) =
      word_of_int (timer_end (clock_at a) (clock_at b))"
    by (simp add: mono_timer_expired_def mono_timer_init_def timer_start_def mono_loading_def)
  have early: "mo_log (snd (mono_timer_init (Some (clock_at b)) (clock_at a) mono_loading)) = [word_of_nat (b mod ?q)]"
    by (simp add: mono_timer_expired_def mono_timer_init_def mono_loading_def timer_end_def clock_at_def)
  have same: "unat (word_of_int (timer_end (clock_at a) (clock_at b)) :: u64) = b - a" if "b div ?q = a div ?q"
  proof -
    have "timer_end (clock_at a) (clock_at b) = int (b - a)" using that assms(1) unfolding timer_end_clock by simp
    moreover have "unat (word_of_int (int (b - a)) :: u64) = b - a"
      using assms elapsed_cycles [of "b - a" 0] by (simp only: of_int_of_nat_eq) simp
    ultimately show ?thesis by simp
  qed
  have crossed: "unat (word_of_int (timer_end (clock_at a) (clock_at b)) :: u64) = 2 ^ 64 - (?q - (b - a))" if "b div ?q \<noteq> a div ?q"
  proof -
    have "b div ?q \<le> (a + ?q) div ?q" using assms(2) by (intro div_le_mono) simp
    moreover have "a div ?q \<le> b div ?q" using assms(1) by (rule div_le_mono)
    ultimately have "b div ?q = a div ?q + 1" using that by simp
    then have t: "timer_end (clock_at a) (clock_at b) = - int (?q - (b - a))" using assms unfolding timer_end_clock by simp
    have "(word_of_int (- int (?q - (b - a))) :: u64) = word_of_nat (2 ^ 64 - (?q - (b - a)))"
      using assms by (simp add: of_nat_diff)
    moreover have "unat (word_of_nat (2 ^ 64 - (?q - (b - a))) :: u64) = 2 ^ 64 - (?q - (b - a))"
      using assms elapsed_cycles [of "2 ^ 64 - (?q - (b - a))" 0] by (simp only: of_nat_0 diff_0_right add_0) simp
    ultimately show ?thesis unfolding t by (simp only:)
  qed
  have big: "2 ^ 63 < (2 ^ 64 - (?q - (b - a)) :: nat)" by simp
  show ?thesis unfolding Let_def log early using same crossed big by auto
qed

theorem printed_time_leaves_out_the_seconds_witness:
  "unat (last (mo_log (mono_timer_expired (clock_at 2000005000) (snd (mono_timer_init None (clock_at 1999995000) mono_loading))))) =
     2 ^ 64 - 999990000"
  using printed_time_leaves_out_the_seconds [of 1999995000 2000005000] by (simp add: Let_def)

end
