(* ===== verification/Stress_Loops.thy ===== *)
theory Stress_Loops
  imports Prelude
begin

text \<open>
  The programs that stress memory with an array larger than it
  (\<^verbatim>\<open>src/block_device/swap/swap_streaming.c\<close>, \<^verbatim>\<open>src/Kernel-dev/cgroup/mem_usage.c\<close>,
  \<^verbatim>\<open>src/Kernel-dev/mem_page_fault/user_pagefault.c\<close>, \<^verbatim>\<open>src/pmuTest/offcoreTest_single_node.c\<close>). Their counters are signed
  numbers of 32 bits. The arithmetic of floating-point numbers is a parameter, and so is what the allocation returns: no
  memory, or an array whose elements may not have been set.
\<close>

section \<open>Counting loops\<close>

definition INT_MAX :: int where
  "INT_MAX = 2 ^ 31 - 1"

text \<open>\<^verbatim>\<open>for (; cond(i); i += step) body\<close>: the counter is signed, and it is an error when it passes the greatest number.\<close>

function count_loop :: "(int \<Rightarrow> bool) \<Rightarrow> int \<Rightarrow> (int \<Rightarrow> 's \<Rightarrow> 's res) \<Rightarrow> int \<Rightarrow> 's \<Rightarrow> 's res" where
  "count_loop cond step body i s =
     (if cond i \<and> 0 < step
      then res_bind (body i s) (\<lambda>s. if i + step \<le> INT_MAX then count_loop cond step body (i + step) s else Inl SignedOverflow)
      else Inr s)"
  by auto
termination by (relation "measure (\<lambda>(cond, step, body, i, s). nat (INT_MAX - i))") auto

declare count_loop.simps [simp del]

text \<open>The first \<open>n\<close> turns of a loop whose body keeps a property of counter and state; at the end of the array it stops.\<close>

lemma count_loop_steps:
  assumes step: "0 < step" and room: "\<And>k. k < n \<Longrightarrow> cond (i + int k * step) \<and> i + int k * step + step \<le> INT_MAX"
    and body: "\<And>k s. k < n \<Longrightarrow> P k s \<Longrightarrow> \<exists>s'. body (i + int k * step) s = Inr s' \<and> P (Suc k) s'" and start: "P 0 s"
  shows "\<exists>s'. P n s' \<and> count_loop cond step body i s = count_loop cond step body (i + int n * step) s'"
  using room body
proof (induction n)
  case 0
  then show ?case using start by auto
next
  case (Suc n)
  then obtain s1 where s1: "P n s1" "count_loop cond step body i s = count_loop cond step body (i + int n * step) s1"
    by (metis less_SucI)
  moreover obtain s2 where "body (i + int n * step) s1 = Inr s2" "P (Suc n) s2" using Suc.prems(2) [of n] s1(1) by auto
  moreover have "cond (i + int n * step)" "i + int n * step + step \<le> INT_MAX" using Suc.prems(1) [of n] by simp_all
  ultimately show ?case using step count_loop.simps [of cond step body "i + int n * step" s1]
    by (auto simp: algebra_simps)
qed

lemma count_loop_done: "\<not> cond i \<Longrightarrow> count_loop cond step body i s = Inr s"
  by (simp add: count_loop.simps)

lemma count_loop_fault: "cond i \<Longrightarrow> 0 < step \<Longrightarrow> body i s = Inl e \<Longrightarrow> count_loop cond step body i s = Inl e"
  by (simp add: count_loop.simps)

lemma count_loop_overflow:
  "cond i \<Longrightarrow> 0 < step \<Longrightarrow> INT_MAX < i + step \<Longrightarrow> body i s = Inr s' \<Longrightarrow> count_loop cond step body i s = Inl SignedOverflow"
  by (simp add: count_loop.simps)

section \<open>Arrays of floating-point numbers\<close>

text \<open>What the programs use of floating-point numbers: a number times a factor, sums, products with a number.\<close>

record 'd double_ops =
  times_pi :: "int \<Rightarrow> 'd"
  of_number :: "int \<Rightarrow> 'd"
  dplus :: "'d \<Rightarrow> 'd \<Rightarrow> 'd"
  dtimes :: "'d \<Rightarrow> int \<Rightarrow> 'd"

type_synonym 'd doubles = "'d option list"

definition store_elem :: "int \<Rightarrow> 'd \<Rightarrow> 'd doubles \<Rightarrow> 'd doubles res" where
  "store_elem i v a = res_bind (array_get a (nat i)) (\<lambda>_. Inr (a[nat i := Some v]))"

definition load_elem :: "int \<Rightarrow> 'd doubles \<Rightarrow> 'd res" where
  "load_elem i a = res_bind (array_get a (nat i)) (\<lambda>x. case x of None \<Rightarrow> Inl Uninitialised | Some v \<Rightarrow> Inr v)"

definition int_times :: "int \<Rightarrow> int \<Rightarrow> int res" where
  "int_times x y = (if - INT_MAX - 1 \<le> x * y \<and> x * y \<le> INT_MAX then Inr (x * y) else Inl SignedOverflow)"

text \<open>The array allocated for \<open>n\<close> elements, or the null pointer, which is found out by the first store.\<close>

type_synonym 'd allocator = "nat \<Rightarrow> 'd doubles option"

definition allocates :: "'d allocator \<Rightarrow> bool" where
  "allocates malloc \<longleftrightarrow> (\<forall>n. \<exists>a. malloc n = Some a \<and> length a = n)"

section \<open>The streaming test\<close>

definition STREAM_LENGTH :: u64 where
  "STREAM_LENGTH = 1024 * 1024 * 1024 * 2"

text \<open>The counter is compared with an unsigned long, and converted for that.\<close>

definition swap_streaming_main :: "'d double_ops \<Rightarrow> 'd \<Rightarrow> 'd allocator \<Rightarrow> 'd res" where
  "swap_streaming_main d zero malloc =
     (let more = (\<lambda>i. word_of_int i < STREAM_LENGTH) in
      res_bind (deref (malloc (unat STREAM_LENGTH))) (\<lambda>d_array.
      res_bind (count_loop more 1 (\<lambda>i a. store_elem i (times_pi d i) a) 0 d_array) (\<lambda>d_array.
      count_loop more 1 (\<lambda>i sum. res_bind (load_elem i d_array) (\<lambda>x. Inr (dplus d sum x))) 0 zero)))"

section \<open>The memory usage test\<close>

text \<open>The sum is never set before it is added to; a local variable that has not been set is \<open>None\<close>.\<close>

definition USAGE_LENGTH :: int where
  "USAGE_LENGTH = 1024 * 1024 * 1024 * 1"

definition add_elem :: "'d double_ops \<Rightarrow> int \<Rightarrow> 'd doubles \<Rightarrow> 'd option \<Rightarrow> 'd option res" where
  "add_elem d i a acc = res_bind (load_elem i a) (\<lambda>x. case acc of None \<Rightarrow> Inl Uninitialised | Some s \<Rightarrow> Inr (Some (dplus d s x)))"

definition usage_round :: "'d double_ops \<Rightarrow> 'd doubles \<times> 'd doubles \<times> 'd option \<times> (int \<times> 'd \<times> 'd) list \<Rightarrow>
    ('d doubles \<times> 'd doubles \<times> 'd option \<times> (int \<times> 'd \<times> 'd) list) res" where
  "usage_round d st =
     (let (a, b, sum, out) = st; more = (\<lambda>i. i < USAGE_LENGTH) in
      res_bind (count_loop more 1 (\<lambda>i (a, b).
          res_bind (store_elem i (dtimes d (times_pi d i) 1) a) (\<lambda>a.
          res_bind (store_elem i (dtimes d (times_pi d i) 2) b) (\<lambda>b. Inr (a, b)))) 0 (a, b)) (\<lambda>(a, b).
      res_bind (count_loop more 8 (\<lambda>i sum. res_bind (add_elem d i a sum) (add_elem d i b)) 0 sum) (\<lambda>sum.
      res_bind (count_loop more (1024 * 1024 * 64) (\<lambda>i out.
          res_bind (load_elem i a) (\<lambda>x. res_bind (load_elem i b) (\<lambda>y. Inr (out @ [(i, x, y)])))) 0 out) (\<lambda>out.
      Inr (a, b, sum, out)))))"

definition mem_usage_main :: "'d double_ops \<Rightarrow> 'd allocator \<Rightarrow> 'd allocator \<Rightarrow> (int \<times> 'd \<times> 'd) list res" where
  "mem_usage_main d malloc malloc' =
     res_bind (deref (malloc (nat USAGE_LENGTH))) (\<lambda>a.
     res_bind (deref (malloc' (nat USAGE_LENGTH))) (\<lambda>b.
     res_bind (count_loop (\<lambda>j. j < 5) 1 (\<lambda>j. usage_round d) 0 (a, b, None, [])) (\<lambda>(a, b, sum, out). Inr out)))"

section \<open>The page fault test\<close>

datatype 'd shown = Descriptor int | Element int 'd | As_int 'd

definition FAULT_LENGTH :: int where
  "FAULT_LENGTH = 512 * 1024 * 1024"

text \<open>The sum, a floating-point number, is printed with the format of an int at the end.\<close>

definition user_pagefault_main :: "'d double_ops \<Rightarrow> 'd \<Rightarrow> 'd allocator \<Rightarrow> int \<Rightarrow> 'd shown list res" where
  "user_pagefault_main d zero malloc fd =
     res_bind (deref (malloc (nat FAULT_LENGTH))) (\<lambda>a.
     res_bind (count_loop (\<lambda>i. i < FAULT_LENGTH) 8 (\<lambda>i (a, sum).
         res_bind (store_elem i (times_pi d i) a) (\<lambda>a.
         res_bind (load_elem i a) (\<lambda>x. Inr (a, dplus d sum x)))) 0 (a, zero)) (\<lambda>(a, sum).
     res_bind (count_loop (\<lambda>j. j < FAULT_LENGTH) (1024 * 1024) (\<lambda>j out.
         res_bind (load_elem j a) (\<lambda>x. Inr (out @ [Element j x]))) 0 [Descriptor fd]) (\<lambda>out.
     Inr (out @ [As_int sum]))))"

section \<open>The performance counter test\<close>

definition COUNTER_LENGTH :: int where
  "COUNTER_LENGTH = 1024 * 1024 * 64"

definition offcore_round :: "'d double_ops \<Rightarrow> 'd doubles \<times> 'd \<Rightarrow> ('d doubles \<times> 'd) res" where
  "offcore_round d st =
     (let (a, sum) = st; more = (\<lambda>i. i < COUNTER_LENGTH) in
      res_bind (count_loop more 8 (\<lambda>i sum. res_bind (load_elem i a) (\<lambda>x. Inr (dplus d sum (dtimes d x i)))) 0 sum) (\<lambda>sum.
      res_bind (count_loop more 1 (\<lambda>i a. res_bind (int_times i i) (\<lambda>q. store_elem i (of_number d q) a)) 0 a) (\<lambda>a.
      Inr (a, sum))))"

definition offcore_main :: "'d double_ops \<Rightarrow> 'd \<Rightarrow> 'd allocator \<Rightarrow> 'd res" where
  "offcore_main d zero malloc =
     res_bind (deref (malloc (nat COUNTER_LENGTH))) (\<lambda>arr_1.
     res_bind (count_loop (\<lambda>i. i < COUNTER_LENGTH) 1 (\<lambda>i a. store_elem i (of_number d i) a) 0 arr_1) (\<lambda>arr_1.
     res_bind (count_loop (\<lambda>j. j < 16) 1 (\<lambda>j. offcore_round d) 0 (arr_1, zero)) (\<lambda>(arr_1, sum). Inr sum)))"

section \<open>What the programs do\<close>

lemma allocatesE: "allocates malloc \<Longrightarrow> (\<And>a. malloc n = Some a \<Longrightarrow> length a = n \<Longrightarrow> thesis) \<Longrightarrow> thesis"
  by (auto simp: allocates_def)

lemma store_elem_in [simp]: "nat i < length a \<Longrightarrow> store_elem i v a = Inr (a[nat i := Some v])"
  by (simp add: store_elem_def)

lemma load_elem_set [simp]: "nat i < length a \<Longrightarrow> a ! nat i = Some v \<Longrightarrow> load_elem i a = Inr v"
  by (simp add: load_elem_def)

text \<open>The elements at the multiples of \<open>step\<close> that \<open>k\<close> turns of a loop have set.\<close>

definition set_by :: "nat \<Rightarrow> nat \<Rightarrow> (int \<Rightarrow> 'd) \<Rightarrow> nat \<Rightarrow> 'd doubles \<Rightarrow> bool" where
  "set_by len step f k a \<longleftrightarrow> length a = len \<and> (\<forall>j < k. j * step < len \<longrightarrow> a ! (j * step) = Some (f (int (j * step))))"

lemma set_by_0: "length a = len \<Longrightarrow> set_by len step f 0 a"
  by (simp add: set_by_def)

lemma set_by_Suc:
  "set_by len step f k a \<Longrightarrow> k * step < len \<Longrightarrow> 0 < step \<Longrightarrow> set_by len step f (Suc k) (a[k * step := Some (f (int (k * step)))])"
  by (auto simp: set_by_def less_Suc_eq nth_list_update)

text \<open>A loop that stores every \<open>step\<close>-th element of an array returns with them set.\<close>

lemma fill_loop:
  assumes "length a = n * step" "0 < step" "int (n * step) \<le> INT_MAX"
  shows "\<exists>a'. set_by (n * step) step f n a' \<and> count_loop (\<lambda>i. i < int (n * step)) (int step) (\<lambda>i a. store_elem i (f i) a) 0 a = Inr a'"
proof -
  have room: "0 + int k * int step < int (n * step) \<and> 0 + int k * int step + int step \<le> INT_MAX" if "k < n" for k
  proof -
    have "Suc k * step \<le> n * step" using that by (intro mult_le_mono1) simp
    then have "int (Suc k * step) \<le> int (n * step)" by (simp only: of_nat_le_iff)
    with assms(2,3) that show ?thesis by (simp add: algebra_simps)
  qed
  have "\<exists>a'. set_by (n * step) step f n a' \<and> count_loop (\<lambda>i. i < int (n * step)) (int step) (\<lambda>i a. store_elem i (f i) a) 0 a =
      count_loop (\<lambda>i. i < int (n * step)) (int step) (\<lambda>i a. store_elem i (f i) a) (0 + int n * int step) a'"
  proof (rule count_loop_steps [where P = "set_by (n * step) step f", OF _ room])
    fix k b
    assume k: "k < n" and b: "set_by (n * step) step f k b"
    have lt: "k * step < n * step" using room [OF k] by (metis add_0 of_nat_less_iff of_nat_mult)
    have "nat (0 + int k * int step) = k * step" "0 + int k * int step = int (k * step)" by (simp_all flip: of_nat_mult)
    with set_by_Suc [OF b lt assms(2)] b lt
    show "\<exists>b'. store_elem (0 + int k * int step) (f (0 + int k * int step)) b = Inr b' \<and> set_by (n * step) step f (Suc k) b'"
      by (simp add: set_by_def)
  qed (use assms in \<open>simp_all add: set_by_0\<close>)
  then show ?thesis by (simp add: count_loop_done)
qed

lemma streaming_overflows:
  assumes "allocates malloc"
  shows "swap_streaming_main d zero malloc = Inl SignedOverflow"
proof -
  let ?more = "\<lambda>i. word_of_int i < STREAM_LENGTH" and ?body = "\<lambda>i a. store_elem i (times_pi d i) a"
  obtain a where a: "malloc (unat STREAM_LENGTH) = Some a" "length a = 2 ^ 31"
    using allocatesE [OF assms, of "unat STREAM_LENGTH"] by (auto simp: STREAM_LENGTH_def)
  have more: "?more (int k)" if "k < 2 ^ 31" for k
    using that by (simp add: STREAM_LENGTH_def word_less_nat_alt unsigned_of_nat take_bit_nat_eq_self)
  have "\<exists>b. length b = 2 ^ 31 \<and> count_loop ?more 1 ?body 0 a = count_loop ?more 1 ?body (0 + int (2 ^ 31 - 1) * 1) b"
    by (rule count_loop_steps) (use a(2) more in \<open>auto simp: INT_MAX_def\<close>)
  then obtain b where b: "length b = 2 ^ 31" "count_loop ?more 1 ?body 0 a = count_loop ?more 1 ?body (0 + int (2 ^ 31 - 1) * 1) b" by blast
  have "count_loop ?more 1 ?body (0 + int (2 ^ 31 - 1) * 1) b = Inl SignedOverflow"
    by (rule count_loop_overflow) (use b(1) more [of "2 ^ 31 - 1"] in \<open>auto simp: INT_MAX_def\<close>)
  with a b show ?thesis by (simp add: swap_streaming_main_def Let_def)
qed

lemma set_byD: "set_by len step f n a \<Longrightarrow> k < n \<Longrightarrow> k * step < len \<Longrightarrow> load_elem (int k * int step) a = Inr (f (int k * int step))"
  by (simp add: set_by_def load_elem_def nat_mult_distrib)

lemma set_by_length: "set_by len step f n a \<Longrightarrow> length a = len"
  by (simp add: set_by_def)

lemma squares_overflow:
  assumes "length a = 2 ^ 26"
  shows "count_loop (\<lambda>i. i < COUNTER_LENGTH) 1 (\<lambda>i a. res_bind (int_times i i) (\<lambda>q. store_elem i (of_number d q) a)) 0 a = Inl SignedOverflow"
    (is "count_loop ?more 1 ?body 0 a = _")
proof -
  have small: "int_times (int k) (int k) = Inr (int k * int k)" if "k < 46341" for k
  proof -
    have "int k * int k \<le> 46340 * 46340" using that by (intro mult_mono) simp_all
    then show ?thesis by (simp add: int_times_def INT_MAX_def) (smt (verit) mult_nonneg_nonneg of_nat_0_le_iff)
  qed
  have "\<exists>b. length b = 2 ^ 26 \<and> count_loop ?more 1 ?body 0 a = count_loop ?more 1 ?body (0 + int 46341 * 1) b"
    by (rule count_loop_steps) (use assms small in \<open>auto simp: INT_MAX_def COUNTER_LENGTH_def\<close>)
  then obtain b where b: "count_loop ?more 1 ?body 0 a = count_loop ?more 1 ?body (0 + int 46341 * 1) b" by blast
  have "count_loop ?more 1 ?body (0 + int 46341 * 1) b = Inl SignedOverflow"
    by (rule count_loop_fault) (simp_all add: COUNTER_LENGTH_def int_times_def INT_MAX_def)
  with b show ?thesis by simp
qed

lemma offcore_overflows:
  assumes "allocates malloc"
  shows "offcore_main d zero malloc = Inl SignedOverflow"
proof -
  let ?more = "\<lambda>i. i < COUNTER_LENGTH"
  obtain a where a: "malloc (nat COUNTER_LENGTH) = Some a" "length a = 2 ^ 26"
    using allocatesE [OF assms, of "nat COUNTER_LENGTH"] by (auto simp: COUNTER_LENGTH_def)
  obtain b where b: "set_by (2 ^ 26) 1 (of_number d) (2 ^ 26) b" "count_loop ?more 1 (\<lambda>i a. store_elem i (of_number d i) a) 0 a = Inr b"
    using fill_loop [of a "2 ^ 26" 1 "of_number d"] a(2) by (auto simp: COUNTER_LENGTH_def INT_MAX_def)
  let ?read = "\<lambda>i s. res_bind (load_elem i b) (\<lambda>x. Inr (dplus d s (dtimes d x i)))"
  have "\<exists>s. True \<and> count_loop ?more 8 ?read 0 zero = count_loop ?more 8 ?read (0 + int (2 ^ 23) * 8) s"
    by (rule count_loop_steps) (use set_byD [OF b(1), of "_ * 8"] in \<open>auto simp: COUNTER_LENGTH_def INT_MAX_def\<close>)
  then obtain s where "count_loop ?more 8 ?read 0 zero = Inr s" by (auto simp: count_loop_done COUNTER_LENGTH_def)
  then have "offcore_round d (b, zero) = Inl SignedOverflow"
    using squares_overflow [of b d] set_by_length [OF b(1)] by (simp add: offcore_round_def)
  then have "count_loop (\<lambda>j. j < 16) 1 (\<lambda>j. offcore_round d) 0 (b, zero) = Inl SignedOverflow" by (intro count_loop_fault) simp_all
  with a b show ?thesis by (simp add: offcore_main_def)
qed

lemma mem_usage_uses_unset_sum:
  assumes "allocates malloc" and "allocates malloc'"
  shows "mem_usage_main d malloc malloc' = Inl Uninitialised"
proof -
  let ?more = "\<lambda>i. i < USAGE_LENGTH" and ?f = "\<lambda>i. dtimes d (times_pi d i) 1" and ?g = "\<lambda>i. dtimes d (times_pi d i) 2"
  let ?P = "\<lambda>k (a, b). set_by (2 ^ 30) 1 ?f k a \<and> set_by (2 ^ 30) 1 ?g k b"
  let ?body = "\<lambda>i (a, b). res_bind (store_elem i (?f i) a) (\<lambda>a. res_bind (store_elem i (?g i) b) (\<lambda>b. Inr (a, b)))"
  obtain a where a: "malloc (nat USAGE_LENGTH) = Some a" "length a = 2 ^ 30"
    using allocatesE [OF assms(1), of "nat USAGE_LENGTH"] by (auto simp: USAGE_LENGTH_def)
  obtain b where b: "malloc' (nat USAGE_LENGTH) = Some b" "length b = 2 ^ 30"
    using allocatesE [OF assms(2), of "nat USAGE_LENGTH"] by (auto simp: USAGE_LENGTH_def)
  have "\<exists>ab. ?P (2 ^ 30) ab \<and> count_loop ?more 1 ?body 0 (a, b) = count_loop ?more 1 ?body (0 + int (2 ^ 30) * 1) ab"
  proof (rule count_loop_steps [where P = ?P])
    fix k ab
    assume k: "k < (2 ^ 30 :: nat)" and ab: "?P k ab"
    obtain a b where [simp]: "ab = (a, b)" by fastforce
    have "length a = 2 ^ 30" "length b = 2 ^ 30" using ab by (auto dest: set_by_length)
    then show "\<exists>ab'. ?body (0 + int k * 1) ab = Inr ab' \<and> ?P (Suc k) ab'"
      using ab k set_by_Suc [of "2 ^ 30" 1 ?f k a] set_by_Suc [of "2 ^ 30" 1 ?g k b] by simp
  qed (use a(2) b(2) in \<open>auto simp: USAGE_LENGTH_def INT_MAX_def set_by_0\<close>)
  then obtain a' b' where ab: "set_by (2 ^ 30) 1 ?f (2 ^ 30) a'" "count_loop ?more 1 ?body 0 (a, b) = Inr (a', b')"
    by (auto simp: count_loop_done USAGE_LENGTH_def)
  have "add_elem d 0 a' None = Inl Uninitialised" using set_byD [OF ab(1), of 0] by (simp add: add_elem_def)
  then have "count_loop ?more 8 (\<lambda>i s. res_bind (add_elem d i a' s) (add_elem d i b')) 0 None = Inl Uninitialised"
    by (intro count_loop_fault) (simp_all add: USAGE_LENGTH_def)
  then have "usage_round d (a, b, None, []) = Inl Uninitialised" using ab(2) by (simp add: usage_round_def)
  then have "count_loop (\<lambda>j. j < 5) 1 (\<lambda>j. usage_round d) 0 (a, b, None, []) = Inl Uninitialised" by (intro count_loop_fault) simp_all
  with a b show ?thesis by (simp add: mem_usage_main_def)
qed



text \<open>
  The page fault test reads only elements it has stored: it prints the descriptor and 512 elements, each the value stored for its index.
  Only the last line, which prints the sum with the format of an int, says nothing.
\<close>

lemma page_fault_test_reads_what_it_stored:
  assumes "allocates malloc"
  shows "\<exists>total. user_pagefault_main d zero malloc fd =
    Inr (Descriptor fd # map (\<lambda>k. Element (int k * 1048576) (times_pi d (int k * 1048576))) [0..<512] @ [As_int total])"
proof -
  let ?more = "\<lambda>i. i < FAULT_LENGTH" and ?P = "\<lambda>k (a, s :: 'a). set_by (2 ^ 29) 8 (times_pi d) k a"
  let ?body = "\<lambda>i (a, s). res_bind (store_elem i (times_pi d i) a) (\<lambda>a. res_bind (load_elem i a) (\<lambda>x. Inr (a, dplus d s x)))"
  obtain a where a: "malloc (nat FAULT_LENGTH) = Some a" "length a = 2 ^ 29"
    using allocatesE [OF assms, of "nat FAULT_LENGTH"] by (auto simp: FAULT_LENGTH_def)
  have "\<exists>as. ?P (2 ^ 26) as \<and> count_loop ?more 8 ?body 0 (a, zero) = count_loop ?more 8 ?body (0 + int (2 ^ 26) * 8) as"
  proof (rule count_loop_steps [where P = ?P])
    fix k as
    assume k: "k < (2 ^ 26 :: nat)" and as: "?P k as"
    obtain b s where [simp]: "as = (b, s)" by fastforce
    have "length b = 2 ^ 29" using as by (auto dest: set_by_length)
    then show "\<exists>as'. ?body (0 + int k * 8) as = Inr as' \<and> ?P (Suc k) as'"
      using as k set_by_Suc [of "2 ^ 29" 8 "times_pi d" k b] by (simp add: nat_mult_distrib)
  qed (use a(2) in \<open>auto simp: FAULT_LENGTH_def INT_MAX_def set_by_0\<close>)
  then obtain b s where b: "set_by (2 ^ 29) 8 (times_pi d) (2 ^ 26) b" "count_loop ?more 8 ?body 0 (a, zero) = Inr (b, s)"
    by (auto simp: count_loop_done FAULT_LENGTH_def)
  let ?show = "\<lambda>j out. res_bind (load_elem j b) (\<lambda>x. Inr (out @ [Element j x]))"
  let ?lines = "\<lambda>k out. out = Descriptor fd # map (\<lambda>k. Element (int k * 1048576) (times_pi d (int k * 1048576))) [0..<k]"
  have "\<exists>out. ?lines 512 out \<and> count_loop ?more 1048576 ?show 0 [Descriptor fd] = count_loop ?more 1048576 ?show (0 + int 512 * 1048576) out"
  proof (rule count_loop_steps [where P = ?lines])
    fix k out
    assume "k < (512 :: nat)" and "?lines k out"
    then show "\<exists>out'. ?show (0 + int k * 1048576) out = Inr out' \<and> ?lines (Suc k) out'"
      using set_byD [OF b(1), of "k * 131072"] by (simp add: mult.commute)
  qed (auto simp: FAULT_LENGTH_def INT_MAX_def)
  then have "count_loop ?more 1048576 ?show 0 [Descriptor fd] =
      Inr (Descriptor fd # map (\<lambda>k. Element (int k * 1048576) (times_pi d (int k * 1048576))) [0..<512])"
    by (simp add: count_loop_done FAULT_LENGTH_def del: upt_rec_numeral)
  with a b show ?thesis by (simp add: user_pagefault_main_def del: upt_rec_numeral)
qed

end
