(* ===== verification/Page_Map.thy ===== *)
theory Page_Map
  imports Prelude
begin

text \<open>
  The reader of a process's page map (\<^verbatim>\<open>src/block_device/swap_ratio\<close>): for a range of addresses it
  reads one entry of eight bytes per page and counts the pages that are in memory. The page map
  file is a parameter, the list of its bytes.
\<close>

section \<open>Entries\<close>

definition PM_PAGE_SIZE :: u64 where
  "PM_PAGE_SIZE = 4096"

definition PAGEMAP_ENTRY :: nat where
  "PAGEMAP_ENTRY = 8"

definition GET_BIT :: "u64 \<Rightarrow> nat \<Rightarrow> u64" where
  "GET_BIT x y = drop_bit y (x AND push_bit y 1)"

definition PG_PRESENT :: "u64 \<Rightarrow> u64" where
  "PG_PRESENT x = GET_BIT x 63"

definition PG_SWAPPED :: "u64 \<Rightarrow> u64" where
  "PG_SWAPPED x = GET_BIT x 62"

text \<open>\<^verbatim>\<open>getc\<close> gives the next byte or \<^verbatim>\<open>EOF\<close>, which is \<open>-1\<close>; the position stays at the end.\<close>

definition getc :: "u8 list \<Rightarrow> nat \<Rightarrow> int \<times> nat" where
  "getc file pos = (if pos < length file then (uint (file ! pos), pos + 1) else (- 1, pos))"

text \<open>The bytes of an entry, most significant first; the result of \<^verbatim>\<open>getc\<close> is stored as an unsigned char.\<close>

fun read_bytes :: "bool \<Rightarrow> u8 list \<Rightarrow> nat \<Rightarrow> nat \<Rightarrow> u8 list \<Rightarrow> u8 list \<times> nat" where
  "read_bytes big file pos 0 c_buf = (c_buf, pos)"
| "read_bytes big file pos (Suc k) c_buf =
     (let i = PAGEMAP_ENTRY - Suc k;
          (c, pos) = getc file pos;
          idx = (if big then i else PAGEMAP_ENTRY - i - 1)
      in read_bytes big file pos k (c_buf[idx := word_of_int c]))"

definition entry_value :: "u8 list \<Rightarrow> u64" where
  "entry_value c_buf = foldl (\<lambda>read_val c. push_bit 8 read_val + ucast c) 0 c_buf"

definition read_entry :: "bool \<Rightarrow> u8 list \<Rightarrow> nat \<Rightarrow> u64 \<times> nat" where
  "read_entry big file pos =
     (let (c_buf, pos) = read_bytes big file pos PAGEMAP_ENTRY (replicate PAGEMAP_ENTRY 0)
      in (entry_value c_buf, pos))"

section \<open>The ratio\<close>

record page_counts =
  num_pages_in :: nat
  num_pages_swapped :: nat

fun count_pages :: "bool \<Rightarrow> u8 list \<Rightarrow> nat \<Rightarrow> nat \<Rightarrow> page_counts \<Rightarrow> page_counts" where
  "count_pages big file pos 0 c = c"
| "count_pages big file pos (Suc n) c =
     (let (read_val, pos) = read_entry big file pos;
          c = (if PG_PRESENT read_val \<noteq> 0 then c\<lparr>num_pages_in := num_pages_in c + 1\<rparr> else c);
          c = (if PG_SWAPPED read_val \<noteq> 0 then c\<lparr>num_pages_swapped := num_pages_swapped c + 1\<rparr> else c)
      in count_pages big file pos n c)"

text \<open>
  The result is minus one when the file cannot be opened or positioned, and otherwise a quotient of
  two numbers; the division in floating point is left to its two operands.
\<close>

datatype ratio = Failed | Ratio nat nat

definition pages_inmem_ratio :: "bool \<Rightarrow> u8 list option \<Rightarrow> (nat \<Rightarrow> bool) \<Rightarrow> u64 \<Rightarrow> u64 \<Rightarrow> ratio" where
  "pages_inmem_ratio big pagemap seekable addr_start addr_end =
     (let num_pages = unat ((addr_end - addr_start) div 0x1000) in
      case pagemap of None \<Rightarrow> Failed
      | Some file \<Rightarrow>
          let base_offset = unat (addr_start div PM_PAGE_SIZE * word_of_nat PAGEMAP_ENTRY) in
          if \<not> seekable base_offset then Failed
          else Ratio (num_pages_in (count_pages big file base_offset num_pages \<lparr>num_pages_in = 0, num_pages_swapped = 0\<rparr>)) num_pages)"

section \<open>Reading what the kernel writes\<close>

text \<open>The kernel writes every entry in the byte order of the machine, here with the least significant byte first.\<close>

definition entry_bytes :: "u64 \<Rightarrow> u8 list" where
  "entry_bytes x = map (\<lambda>i. ucast (drop_bit (8 * i) x)) [0..<8]"

definition pagemap_file :: "u64 list \<Rightarrow> u8 list" where
  "pagemap_file es = concat (map entry_bytes es)"

lemma pagemap_file_append: "pagemap_file (xs @ ys) = pagemap_file xs @ pagemap_file ys"
  by (simp add: pagemap_file_def)

lemma length_entry_bytes [simp]: "length (entry_bytes x) = 8"
  by (simp add: entry_bytes_def)

lemma digits_mod: "(\<Sum>i < k. (x div 256 ^ i mod 256) * 256 ^ i) = x mod (256 ^ k :: nat)"
proof (induction k)
  case 0
  then show ?case by simp
next
  case (Suc k)
  have "x mod 256 ^ Suc k = 256 ^ k * (x div 256 ^ k mod 256) + x mod 256 ^ k"
    by (simp only: power_Suc2 mod_mult2_eq)
  with Suc show ?case by (simp add: mult.commute)
qed

lemma unat_entry_byte: "unat (ucast (drop_bit (8 * i) x) :: u8) = unat x div 256 ^ i mod 256" for x :: u64
  by (simp add: unsigned_ucast_eq take_bit_eq_mod unat_drop_bit power_mult)

lemma entry_value_bytes: "entry_value (rev (entry_bytes x)) = x"
proof -
  have fold: "foldl (\<lambda>v c. push_bit 8 v + ucast c) v (rev bs)
      = v * 256 ^ length bs + word_of_nat (\<Sum>i < length bs. unat (bs ! i) * 256 ^ i)" for v :: u64 and bs :: "u8 list"
  proof (induction bs arbitrary: v rule: rev_induct)
    case Nil
    then show ?case by simp
  next
    case (snoc b bs)
    have "(\<Sum>i < length bs. unat ((bs @ [b]) ! i) * 256 ^ i) = (\<Sum>i < length bs. unat (bs ! i) * 256 ^ i)"
      by (simp add: nth_append)
    moreover have "foldl (\<lambda>v c. push_bit 8 v + ucast c) v (rev (bs @ [b]))
      = (v * 256 + word_of_nat (unat b)) * 256 ^ length bs + word_of_nat (\<Sum>i < length bs. unat (bs ! i) * 256 ^ i)"
      using snoc.IH [of "push_bit 8 v + ucast b"] by (simp add: push_bit_eq_mult)
    ultimately show ?case
      by (simp add: algebra_simps del: of_nat_unat)
  qed
  have "(\<Sum>i < length (entry_bytes x). unat (entry_bytes x ! i) * 256 ^ i) = (\<Sum>i < 8. (unat x div 256 ^ i mod 256) * 256 ^ i)"
    by (rule sum.cong) (simp_all add: entry_bytes_def unat_entry_byte del: upt_rec_numeral upt_conv_Cons)
  also have "\<dots> = unat x mod 256 ^ 8" by (rule digits_mod)
  also have "\<dots> = unat x" using unat_bound [of x] by simp
  finally show ?thesis unfolding entry_value_def fold by simp
qed

lemma getc_drop: "drop pos file = b # rest \<Longrightarrow> getc file pos = (uint b, pos + 1)"
  by (metis Cons_nth_drop_Suc drop_all getc_def list.distinct(1) list.inject not_le)

lemma drop_append_text: "drop i d = u @ t \<Longrightarrow> drop (i + length u) d = t"
  by (metis add.commute append_eq_conv_conj drop_drop)

lemma drop_Suc_rest: "drop pos file = b # rest \<Longrightarrow> drop (Suc pos) file = rest"
  by (metis drop_Suc list.sel(3) tl_drop)

text \<open>Eight bytes of the file fill the buffer from its last place to its first.\<close>

lemma read_entry_bytes:
  assumes "drop pos file = entry_bytes x @ rest"
  shows "read_entry False file pos = (x, pos + 8)"
proof -
  obtain a b c d e f g h where bs: "entry_bytes x = [a, b, c, d, e, f, g, h]"
    by (simp add: entry_bytes_def upt_rec)
  note 0 = assms [unfolded bs append.simps]
  note 1 = drop_Suc_rest [OF 0] note 2 = drop_Suc_rest [OF 1] note 3 = drop_Suc_rest [OF 2] note 4 = drop_Suc_rest [OF 3]
  note 5 = drop_Suc_rest [OF 4] note 6 = drop_Suc_rest [OF 5] note 7 = drop_Suc_rest [OF 6]
  have "read_bytes False file pos 8 (replicate 8 0) = ([h, g, f, e, d, c, b, a], pos + 8)"
    by (simp add: numeral_eq_Suc PAGEMAP_ENTRY_def getc_drop [OF 0] getc_drop [OF 1] getc_drop [OF 2] getc_drop [OF 3]
        getc_drop [OF 4] getc_drop [OF 5] getc_drop [OF 6] getc_drop [OF 7])
  moreover have "entry_value [h, g, f, e, d, c, b, a] = x"
    using entry_value_bytes [of x] by (simp add: bs)
  ultimately show ?thesis by (simp add: read_entry_def PAGEMAP_ENTRY_def)
qed

lemma GET_BIT_nonzero: "GET_BIT x y \<noteq> 0 \<longleftrightarrow> bit x y"
proof (cases "bit x y")
  case True
  then have "bit (GET_BIT x y) 0" by (auto simp: GET_BIT_def bit_simps dest: bit_imp_le_length)
  with True show ?thesis by auto
next
  case False
  then have "x AND push_bit y 1 = 0"
    by (intro bit_word_eqI) (auto simp: bit_simps)
  with False show ?thesis by (simp add: GET_BIT_def)
qed

lemma count_pages_entries:
  assumes "drop pos file = pagemap_file es @ rest"
  shows "num_pages_in (count_pages False file pos (length es) c) = num_pages_in c + length (filter (\<lambda>e. bit e 63) es)
     \<and> num_pages_swapped (count_pages False file pos (length es) c) = num_pages_swapped c + length (filter (\<lambda>e. bit e 62) es)"
  using assms
proof (induction es arbitrary: pos c)
  case Nil
  then show ?case by simp
next
  case (Cons e es)
  then have "drop pos file = entry_bytes e @ pagemap_file es @ rest" by (simp add: pagemap_file_def)
  then have "read_entry False file pos = (e, pos + 8)" "drop (pos + 8) file = pagemap_file es @ rest"
    by (simp_all add: read_entry_bytes drop_append_text [of _ _ "entry_bytes e", simplified])
  with Cons.IH show ?case by (simp add: PG_PRESENT_def PG_SWAPPED_def GET_BIT_nonzero)
qed


definition demo_entries :: "u64 list" where
  "demo_entries = [0, 0x8000000000000001, 0x4000000000000002, 0x8000000000000003]"

lemma demo_entries_present: "length (filter (\<lambda>e. bit e 63) (drop (Suc 0) demo_entries)) = 2" "length demo_entries = 4"
  by code_simp+


text \<open>
  Past the end of the page map every byte reads as 255, so every page of a range the file does not
  reach counts as present, and as swapped.
\<close>

theorem missing_entries_count_as_present:
  assumes "length file \<le> pos"
  shows "count_pages big file pos n c = c\<lparr>num_pages_in := num_pages_in c + n, num_pages_swapped := num_pages_swapped c + n\<rparr>"
proof -
  have "getc file pos = (- 1, pos)" using assms by (simp add: getc_def)
  then have "read_bytes big file pos 8 (replicate 8 0) = (replicate 8 (- 1), pos)"
    by (cases big) (simp_all add: numeral_eq_Suc PAGEMAP_ENTRY_def)
  moreover have "entry_value (replicate 8 (- 1)) = - 1" by code_simp
  ultimately have "read_entry big file pos = (- 1, pos)" by (simp add: read_entry_def PAGEMAP_ENTRY_def)
  then show ?thesis
    by (induction n arbitrary: c) (simp_all add: PG_PRESENT_def PG_SWAPPED_def GET_BIT_nonzero)
qed

theorem missing_entries_count_as_present_witness:
  "num_pages_in (count_pages False (pagemap_file [0]) 8 3 \<lparr>num_pages_in = 0, num_pages_swapped = 0\<rparr>) = 3"
  using missing_entries_count_as_present [of "pagemap_file [0]" 8 False 3] by (simp add: pagemap_file_def)

end
