(* ===== verification/User_Fault.thy ===== *)
theory User_Fault
  imports Swap_Tests
begin

text \<open>
  The tests of page faults handled at user level (\<^verbatim>\<open>src/Kernel-dev/user_fault_handler\<close>): four programs
  that register a range of memory with the kernel, start a thread that polls for faults and serves
  them, and touch the range. A list of rounds says what the kernel answers each time the thread polls;
  the thread still polls at the end of the list.
\<close>

section \<open>The polling thread\<close>

definition POLLIN :: u16 where "POLLIN = 1"
definition POLLERR :: u16 where "POLLERR = 8"
definition POLLHUP :: u16 where "POLLHUP = 16"
definition POLLNVAL :: u16 where "POLLNVAL = 32"
definition EAGAIN :: int where "EAGAIN = 11"
definition UFFD_EVENT_PAGEFAULT :: u8 where "UFFD_EVENT_PAGEFAULT = 0x12"
definition UFFD_MSG_SIZE :: int where "UFFD_MSG_SIZE = 32"
definition UF_PAGE_SIZE :: u64 where "UF_PAGE_SIZE = 4096"

text \<open>
  What the thread asks of the kernel: to fill a page from its buffer, or to fetch chunks of pages,
  each a start and a number of pages. One program passes the address of the memory area on, the others leave
  that field unset.
\<close>

datatype fault_call = Uffdio_copy u64 u64 | Uffdio_swap_prefetch "u64 option" "(u64 \<times> nat) list"

record uffd_msg =
  msg_event :: u8
  msg_address :: u64
  msg_vma :: u64

record round =
  rd_poll :: int
  rd_revents :: u16
  rd_read :: int
  rd_errno :: int
  rd_msg :: uffd_msg
  rd_ioctl :: "fault_call \<Rightarrow> int"

datatype outcome = Continue | Exit_handler | Serve

text \<open>
  From the poll to the test of the event. The test for the absence of input negates before it
  masks; one of the programs does not test for an invalid descriptor.
\<close>

definition poll_outcome :: "bool \<Rightarrow> round \<Rightarrow> outcome" where
  "poll_outcome tests_nval r =
     (if rd_poll r = - 1 \<or> rd_poll r = 0 then Continue
      else if rd_poll r \<noteq> 1 then Exit_handler
      else if rd_revents r AND POLLERR \<noteq> 0 then Exit_handler
      else if tests_nval \<and> rd_revents r AND POLLNVAL \<noteq> 0 then Exit_handler
      else if (if rd_revents r = 0 then 1 else 0) AND POLLIN \<noteq> 0 then Continue
      else if rd_read r = - 1 then if rd_errno r = EAGAIN then Continue else Exit_handler
      else if rd_read r \<noteq> UFFD_MSG_SIZE then Exit_handler
      else if msg_event (rd_msg r) AND UFFD_EVENT_PAGEFAULT \<noteq> 0 then Serve
      else Continue)"

text \<open>The calls made for one fault, up to the first that fails, and whether all succeeded.\<close>

fun serve_calls :: "round \<Rightarrow> fault_call list \<Rightarrow> fault_call list \<times> bool" where
  "serve_calls r [] = ([], True)"
| "serve_calls r (c # cs) =
     (if rd_ioctl r c = - 1 then ([c], False)
      else let (ds, ok) = serve_calls r cs in (c # ds, ok))"

datatype handler_end = Polling | Returned

fun handler_loop :: "bool \<Rightarrow> (uffd_msg \<Rightarrow> fault_call list) \<Rightarrow> round list \<Rightarrow> fault_call list \<Rightarrow> handler_end \<times> fault_call list" where
  "handler_loop nval calls [] done_calls = (Polling, done_calls)"
| "handler_loop nval calls (r # rs) done_calls =
     (case poll_outcome nval r of
        Continue \<Rightarrow> handler_loop nval calls rs done_calls
      | Exit_handler \<Rightarrow> (Returned, done_calls)
      | Serve \<Rightarrow>
          let (cs, ok) = serve_calls r (calls (rd_msg r))
          in if ok then handler_loop nval calls rs (done_calls @ cs) else (Returned, done_calls @ cs))"

definition copy_page :: "uffd_msg \<Rightarrow> fault_call" where
  "copy_page m = Uffdio_copy (msg_address m) UF_PAGE_SIZE"

definition prefetch_next :: "uffd_msg \<Rightarrow> fault_call" where
  "prefetch_next m = Uffdio_swap_prefetch (Some (msg_vma m)) [(msg_address m + UF_PAGE_SIZE, 1)]"

text \<open>The loop over the chunks of the other two programs, which set one chunk; only the length of the first chunk is set.\<close>

definition prefetch_chunks :: "nat \<Rightarrow> uffd_msg \<Rightarrow> fault_call" where
  "prefetch_chunks chunk_num m =
     Uffdio_swap_prefetch None (map (\<lambda>i. (msg_address m + UF_PAGE_SIZE * word_of_nat i, if i = 0 then 1 else 0)) [0..<chunk_num])"

text \<open>
  The thread functions: how the thread ends, its calls, and whether it freed its argument, which
  two of the programs allocate and two have on the stack of \<^verbatim>\<open>main\<close>.
\<close>

definition poll_handler :: "round list \<Rightarrow> handler_end \<times> fault_call list \<times> bool" where
  "poll_handler rs =
     (let (e, cs) = handler_loop False (\<lambda>m. [copy_page m]) rs [] in (e, cs, e = Returned))"

definition swap_prefetch_handler :: "round list \<Rightarrow> handler_end \<times> fault_call list \<times> bool" where
  "swap_prefetch_handler rs =
     (let (e, cs) = handler_loop True (\<lambda>m. [prefetch_next m]) rs [] in (e, cs, e = Returned))"

definition vma_merge_handler :: "round list \<Rightarrow> handler_end \<times> fault_call list \<times> bool" where
  "vma_merge_handler rs =
     (let (e, cs) = handler_loop True (\<lambda>m. [prefetch_chunks 1 m, copy_page m]) rs [] in (e, cs, False))"

definition multi_commit_handler :: "round list \<Rightarrow> handler_end \<times> fault_call list \<times> bool" where
  "multi_commit_handler rs =
     (let (e, cs) = handler_loop True (\<lambda>m. [prefetch_chunks 1 m, copy_page m]) rs [] in (e, cs, False))"

section \<open>The programs\<close>

definition NR_userfaultfd :: nat where "NR_userfaultfd = 323"
definition O_NONBLOCK :: u64 where "O_NONBLOCK = 0x800"
definition MODE_MISSING :: nat where "MODE_MISSING = 1"
definition MODE_WP :: nat where "MODE_WP = 2"

text \<open>The file descriptor and the handshake; none when the program returns early.\<close>

definition open_uffd :: "uhost \<Rightarrow> u64 option \<times> uproc" where
  "open_uffd h =
     (let (fd, p) = kcall h (Syscall NR_userfaultfd [O_NONBLOCK]) start_uproc in
      if to_int fd = - 1 then (None, p)
      else let (r, p) = kcall h (Ioctl fd UFFDIO_API) p in
      if to_int r \<noteq> 0 then (None, p) else (Some fd, p))"

text \<open>Registering a range and starting the thread; false when the kernel refuses.\<close>

definition register_range :: "uhost \<Rightarrow> u64 \<Rightarrow> u64 \<Rightarrow> u64 \<Rightarrow> nat \<Rightarrow> uproc \<Rightarrow> bool \<times> uproc" where
  "register_range h fd start len mode p =
     (let (r, p) = kcall h (Ioctl fd (UFFDIO_REGISTER start len mode)) p in
      if to_int r \<noteq> 0 then (False, p) else (True, snd (kcall h Pthread_create p)))"

text \<open>\<^verbatim>\<open>for (i = 8; i < size; i += PAGE_SIZE)\<close> reading at \<^verbatim>\<open>ptr + i\<close>.\<close>

function touch_pages :: "u64 \<Rightarrow> nat \<Rightarrow> nat \<Rightarrow> uproc \<Rightarrow> uproc" where
  "touch_pages ptr i n p =
     (if i < n then touch_pages ptr (i + 4096) n (p\<lparr>up_calls := up_calls p @ [Touch (ptr + word_of_nat i)]\<rparr>) else p)"
  by auto
termination by (relation "measure (\<lambda>(ptr, i, n, p). n - i)") auto

declare touch_pages.simps [simp del]

definition poll_main :: "uhost \<Rightarrow> uproc" where
  "poll_main h =
     (let addr = 0x20000000; n = 0x2000; (ofd, p) = open_uffd h in
      case ofd of None \<Rightarrow> p
      | Some fd \<Rightarrow>
          let (user_buf, p) = commit_anon_memory h addr n True p;
              p = report_mapping addr n user_buf p;
              (ok, p) = register_range h fd user_buf n MODE_MISSING p
          in if \<not> ok then p else touch_pages user_buf 8 (unat n) (touch_pages user_buf 8 (unat n) p))"

definition vma_merge_main :: "uhost \<Rightarrow> uproc" where
  "vma_merge_main h =
     (let n = 0x2000; addr1 = 0x20000000; addr2 = addr1 + n; addr3 = addr2 + n; (ofd, p) = open_uffd h in
      case ofd of None \<Rightarrow> p
      | Some fd \<Rightarrow>
          let (user_buf, p) = commit_anon_memory h addr1 n True p;
              p = report_mapping addr1 n user_buf p;
              (user_buf, p) = commit_anon_memory h addr2 n True p;
              p = report_mapping addr2 n user_buf p;
              (user_buf, p) = commit_anon_memory h addr3 n True p;
              p = report_mapping addr3 n user_buf p;
              (ok, p) = register_range h fd addr1 (n * 3) MODE_MISSING p
          in if \<not> ok then p
             else touch_pages addr3 8 (unat n) (touch_pages addr2 8 (unat n) (touch_pages addr1 8 (unat n) p)))"

definition multi_commit_main :: "uhost \<Rightarrow> uproc" where
  "multi_commit_main h =
     (let addr = 0x20000000; n = 0x2000; (ofd, p) = open_uffd h in
      case ofd of None \<Rightarrow> p
      | Some fd \<Rightarrow>
          let (user_buf, p) = reserve_anon_memory h addr n True p;
              p = report_mapping addr n user_buf p;
              (ok, p) = register_range h fd user_buf n MODE_MISSING p
          in if \<not> ok then p
             else let (user_buf, p) = commit_anon_memory h addr n True p;
                      p = report_mapping addr n user_buf p
                  in touch_pages user_buf 8 (unat n) p)"

text \<open>
  The fourth program stores into every word of the range and then reads 128 words at random; \<open>draws\<close>
  are the random numbers, between one and the size of the range.
\<close>

definition swap_prefetch_main :: "uhost \<Rightarrow> (nat \<Rightarrow> nat) \<Rightarrow> uproc" where
  "swap_prefetch_main h draws =
     (let addr = 0x400000000000; n = 0x10000000; (ofd, p) = open_uffd h in
      case ofd of None \<Rightarrow> p
      | Some fd \<Rightarrow>
          let (user_buf, p) = reserve_anon_memory h addr n True p;
              p = report_mapping addr n user_buf p;
              (user_buf, p) = commit_anon_memory h addr n True p;
              p = report_mapping addr n user_buf p;
              (ok, p) = register_range h fd user_buf n MODE_WP p;
              words = unat n div 8
          in if \<not> ok then p
             else p\<lparr>up_calls := up_calls p @ map (\<lambda>i. Touch (user_buf + word_of_nat (8 * i))) [0..<words]
                      @ map (\<lambda>i. Touch (user_buf + word_of_nat (8 * (draws i div 8 mod words)))) [0..<128]\<rparr>)"

section \<open>Faults are served in order\<close>

text \<open>
  A round that brings a page fault; a round that brings nothing, because poll timed out or was
  interrupted or the message was taken meanwhile; and rounds without errors, in which no call of the thread fails.
\<close>

definition fault_round :: "round \<Rightarrow> bool" where
  "fault_round r \<longleftrightarrow> rd_poll r = 1 \<and> rd_revents r = POLLIN \<and> rd_read r = UFFD_MSG_SIZE \<and> msg_event (rd_msg r) = UFFD_EVENT_PAGEFAULT"

definition idle_round :: "round \<Rightarrow> bool" where
  "idle_round r \<longleftrightarrow> rd_poll r = 0 \<or> rd_poll r = - 1 \<or> (rd_poll r = 1 \<and> rd_revents r = POLLIN \<and> rd_read r = - 1 \<and> rd_errno r = EAGAIN)"

definition calm_round :: "round \<Rightarrow> bool" where
  "calm_round r \<longleftrightarrow> (fault_round r \<or> idle_round r) \<and> (\<forall>c. rd_ioctl r c \<noteq> - 1)"

lemmas poll_defs = POLLIN_def POLLERR_def POLLHUP_def POLLNVAL_def UFFD_EVENT_PAGEFAULT_def UFFD_MSG_SIZE_def EAGAIN_def

lemma poll_outcome_fault: "fault_round r \<Longrightarrow> poll_outcome nval r = Serve"
  by (simp add: fault_round_def poll_outcome_def poll_defs)

lemma poll_outcome_idle: "idle_round r \<Longrightarrow> poll_outcome nval r = Continue"
  by (auto simp: idle_round_def poll_outcome_def poll_defs)

lemma idle_no_fault: "idle_round r \<Longrightarrow> \<not> fault_round r"
  by (auto simp: idle_round_def fault_round_def UFFD_MSG_SIZE_def)

lemma serve_calls_ok: "\<forall>c. rd_ioctl r c \<noteq> - 1 \<Longrightarrow> serve_calls r cs = (cs, True)"
  by (induction cs) auto

lemma handler_loop_append:
  assumes "\<forall>r \<in> set rs. calm_round r"
  shows "handler_loop nval calls (rs @ rs') cs
    = handler_loop nval calls rs' (cs @ concat (map (\<lambda>r. calls (rd_msg r)) (filter fault_round rs)))"
  using assms
proof (induction rs arbitrary: cs)
  case Nil
  then show ?case by simp
next
  case (Cons r rs)
  then have "fault_round r \<or> idle_round r" "\<forall>c. rd_ioctl r c \<noteq> - 1" by (auto simp: calm_round_def)
  with Cons show ?case
    by (auto simp: poll_outcome_fault poll_outcome_idle idle_no_fault serve_calls_ok)
qed

lemma handler_loop_calm:
  assumes "\<forall>r \<in> set rs. calm_round r"
  shows "handler_loop nval calls rs cs = (Polling, cs @ concat (map (\<lambda>r. calls (rd_msg r)) (filter fault_round rs)))"
  using handler_loop_append [OF assms, of nval calls "[]"] by simp

lemma concat_map_singleton: "concat (map (\<lambda>x. [f x]) xs) = map f xs"
  by (induction xs) auto

text \<open>
  C27. As long as the kernel reports no error, each thread keeps polling and answers every page fault
  once, in order: by a copy to the page that faulted, by a prefetch of the page after it, or by a
  prefetch of the faulting page itself and the copy. It frees nothing meanwhile.
\<close>

theorem handlers_serve_every_fault_in_order:
  assumes "\<forall>r \<in> set rs. calm_round r"
  shows "poll_handler rs = (Polling, map (\<lambda>r. Uffdio_copy (msg_address (rd_msg r)) 4096) (filter fault_round rs), False)
    \<and> swap_prefetch_handler rs
        = (Polling, map (\<lambda>r. Uffdio_swap_prefetch (Some (msg_vma (rd_msg r))) [(msg_address (rd_msg r) + 4096, 1)]) (filter fault_round rs), False)
    \<and> vma_merge_handler rs
        = (Polling, concat (map (\<lambda>r. [Uffdio_swap_prefetch None [(msg_address (rd_msg r), 1)], Uffdio_copy (msg_address (rd_msg r)) 4096]) (filter fault_round rs)), False)
    \<and> multi_commit_handler rs = vma_merge_handler rs"
  by (simp add: poll_handler_def swap_prefetch_handler_def vma_merge_handler_def multi_commit_handler_def
      handler_loop_calm [OF assms] concat_map_singleton copy_page_def prefetch_next_def prefetch_chunks_def UF_PAGE_SIZE_def)

definition demo_round :: "int \<Rightarrow> u8 \<Rightarrow> u64 \<Rightarrow> round" where
  "demo_round ready ev addr =
     \<lparr>rd_poll = ready, rd_revents = 1, rd_read = 32, rd_errno = 0, rd_msg = \<lparr>msg_event = ev, msg_address = addr, msg_vma = 5\<rparr>, rd_ioctl = \<lambda>c. 0\<rparr>"

theorem handlers_serve_every_fault_in_order_witness:
  "poll_handler [demo_round 1 0x12 0x20000000, demo_round 0 0 0, demo_round 1 0x12 0x20001000]
     = (Polling, [Uffdio_copy 0x20000000 4096, Uffdio_copy 0x20001000 4096], False)"
proof -
  have "\<forall>r \<in> set [demo_round 1 0x12 0x20000000, demo_round 0 0 0, demo_round 1 0x12 0x20001000]. calm_round r"
    by (simp add: calm_round_def fault_round_def idle_round_def demo_round_def poll_defs)
  from handlers_serve_every_fault_in_order [OF this] show ?thesis
    by (simp add: fault_round_def demo_round_def poll_defs)
qed

text \<open>The first error ends the thread: nothing after it is served, and an allocated argument is freed.\<close>

lemma handler_stops_at_the_first_error:
  assumes "\<forall>r \<in> set rs. calm_round r" "poll_outcome False r = Exit_handler"
  shows "poll_handler (rs @ r # rs') = (Returned, map (\<lambda>r. Uffdio_copy (msg_address (rd_msg r)) 4096) (filter fault_round rs), True)"
  using assms by (simp add: poll_handler_def handler_loop_append concat_map_singleton copy_page_def UF_PAGE_SIZE_def)

text \<open>
  The events are numbers, not bits: a fork, a move, a removal or an unmapping shares a bit with
  the page fault, so it is served as a fault at whatever address its message holds there. A hang-up without input is not recognised and the
  descriptor is read.
\<close>

theorem other_events_are_served_as_faults:
  assumes "rd_poll r = 1" "rd_read r = UFFD_MSG_SIZE" "rd_revents r = POLLIN \<or> rd_revents r = POLLHUP"
    and "msg_event (rd_msg r) \<in> {0x13, 0x14, 0x15, 0x16}" "\<forall>c. rd_ioctl r c \<noteq> - 1"
  shows "poll_handler [r] = (Polling, [Uffdio_copy (msg_address (rd_msg r)) 4096], False)"
proof -
  have "poll_outcome False r = Serve"
    using assms(1-4) by (auto simp: poll_outcome_def poll_defs)
  then show ?thesis
    using assms(5) by (simp add: poll_handler_def serve_calls_ok copy_page_def UF_PAGE_SIZE_def)
qed

theorem other_events_are_served_as_faults_witness:
  "poll_handler [demo_round 1 0x16 0x30000000] = (Polling, [Uffdio_copy 0x30000000 4096], False)"
  using other_events_are_served_as_faults [of "demo_round 1 0x16 0x30000000"] by (simp add: demo_round_def poll_defs)

section \<open>What is registered when it is touched\<close>

text \<open>
  By the interface of the kernel a registration covers the mappings it finds, and a mapping at a
  fixed address replaces what was there, registration included. The flags say for every access of a run whether
  its address was registered.
\<close>

definition in_range :: "u64 \<Rightarrow> u64 \<Rightarrow> u64 \<Rightarrow> bool" where
  "in_range start len a \<longleftrightarrow> unat start \<le> unat a \<and> unat a < unat start + unat len"

fun registered_touches :: "(u64 \<Rightarrow> bool) \<Rightarrow> ucall list \<Rightarrow> bool list" where
  "registered_touches reg [] = []"
| "registered_touches reg (Mmap s n pr f r # cs) = registered_touches (\<lambda>a. reg a \<and> \<not> in_range s n a) cs"
| "registered_touches reg (Ioctl fd (UFFDIO_REGISTER s n mode) # cs) = registered_touches (\<lambda>a. reg a \<or> in_range s n a) cs"
| "registered_touches reg (Touch a # cs) = reg a # registered_touches reg cs"
| "registered_touches reg (c # cs) = registered_touches reg cs"

lemma registered_touches_all:
  "registered_touches reg (map (Touch \<circ> f) xs @ cs) = map (reg \<circ> f) xs @ registered_touches reg cs"
  by (induction xs) simp_all

text \<open>A kernel on which every call succeeds: the descriptor is 3 and mappings are given where they are asked for.\<close>

definition grants :: "uhost \<Rightarrow> bool" where
  "grants h \<longleftrightarrow> (\<forall>cs. uh_answer h cs = (case last cs of Mmap a n pr f r \<Rightarrow> a | Syscall k as \<Rightarrow> 3 | _ \<Rightarrow> 0))"

lemma grantsD: "grants h \<Longrightarrow> uh_answer h cs = (case last cs of Mmap a n pr f r \<Rightarrow> a | Syscall k as \<Rightarrow> 3 | _ \<Rightarrow> 0)"
  by (simp add: grants_def)

lemma open_uffd_grants:
  assumes "grants h"
  shows "\<exists>p. open_uffd h = (Some 3, p) \<and> up_calls p = [Syscall NR_userfaultfd [O_NONBLOCK], Ioctl 3 UFFDIO_API]"
  using assms by (simp add: open_uffd_def kcall_def Let_def grantsD to_int_def start_uproc_def)

lemma register_range_grants:
  assumes "grants h"
  shows "fst (register_range h fd s n mode p)" "up_calls (snd (register_range h fd s n mode p)) = up_calls p @ [Ioctl fd (UFFDIO_REGISTER s n mode), Pthread_create]"
  using assms by (simp_all add: register_range_def kcall_def Let_def grantsD to_int_def)

lemma report_mapping_calls [simp]: "up_calls (report_mapping a n b p) = up_calls p"
  by (simp add: report_mapping_def)

lemma touch_two_pages: "up_calls (touch_pages ptr 8 8192 p) = up_calls p @ [Touch (ptr + 8), Touch (ptr + 4104)]"
  by (subst touch_pages.simps, subst touch_pages.simps, subst touch_pages.simps) simp

lemmas uffd_run = commit_result reserve_result register_range_grants grantsD touch_two_pages split_def Let_def MAP_FAILED_def in_range_def

lemma poll_main_touches: "grants h \<Longrightarrow> registered_touches (\<lambda>a. False) (up_calls (poll_main h)) = [True, True, True, True]"
  using open_uffd_grants [of h] by (auto simp: poll_main_def uffd_run)

lemma vma_merge_main_touches: "grants h \<Longrightarrow> registered_touches (\<lambda>a. False) (up_calls (vma_merge_main h)) = [True, True, True, True, True, True]"
  using open_uffd_grants [of h] by (auto simp: vma_merge_main_def uffd_run)

lemma multi_commit_main_touches: "grants h \<Longrightarrow> registered_touches (\<lambda>a. False) (up_calls (multi_commit_main h)) = [False, False]"
  using open_uffd_grants [of h] by (auto simp: multi_commit_main_def uffd_run)

lemma in_prefetch_range:
  assumes "k < 33554432"
  shows "in_range 0x400000000000 0x10000000 (0x400000000000 + word_of_nat (8 * k))"
proof -
  have "unat (word_of_nat (8 * k) :: u64) = 8 * k"
    using assms by (simp add: unsigned_of_nat take_bit_eq_mod del: of_nat_mult)
  then have "unat (0x400000000000 + word_of_nat (8 * k) :: u64) = 0x400000000000 + 8 * k"
    using assms by (subst unat_add_no_overflow) (simp_all del: of_nat_mult)
  with assms show ?thesis by (simp add: in_range_def del: of_nat_mult)
qed

lemma swap_prefetch_main_touches:
  assumes "grants h"
  shows "registered_touches (\<lambda>a. False) (up_calls (swap_prefetch_main h draws)) = replicate (33554432 + 128) True"
proof -
  obtain p where p: "open_uffd h = (Some 3, p)" "up_calls p = [Syscall NR_userfaultfd [O_NONBLOCK], Ioctl 3 UFFDIO_API]"
    using open_uffd_grants [OF assms] by blast
  let ?f = "\<lambda>i. 0x400000000000 + word_of_nat (8 * i) :: u64"
  let ?touches = "map (Touch \<circ> ?f) ([0..<33554432] @ map (\<lambda>i. draws i div 8 mod 33554432) [0..<128])"
  have "registered_touches (\<lambda>a. False) (up_calls (swap_prefetch_main h draws)) = registered_touches (in_range 0x400000000000 0x10000000) (?touches @ [])"
    using p assms by (simp add: swap_prefetch_main_def commit_result reserve_result register_range_grants grantsD split_def Let_def
      MAP_FAILED_def comp_def del: upt_rec_numeral of_nat_mult)
  also have "\<dots> = map (in_range 0x400000000000 0x10000000 \<circ> ?f) ([0..<33554432] @ map (\<lambda>i. draws i div 8 mod 33554432) [0..<128])"
    by (subst registered_touches_all, subst registered_touches.simps(1), rule append_Nil2)
  also have "\<dots> = replicate (33554432 + 128) True"
    by (rule replicate_eqI) (auto simp: in_prefetch_range simp del: upt_rec_numeral of_nat_mult)
  finally show ?thesis .
qed

text \<open>
  When every call succeeds, three of the programs touch only addresses registered with the
  handler. The fourth commits its range after it has registered the reserved one: the new mapping
  replaces the registered one and none of its accesses reaches the handler.
\<close>

theorem touched_pages_are_registered:
  assumes "grants h"
  shows "(\<forall>b \<in> set (registered_touches (\<lambda>a. False) (up_calls (poll_main h))). b)
    \<and> (\<forall>b \<in> set (registered_touches (\<lambda>a. False) (up_calls (vma_merge_main h))). b)
    \<and> (\<forall>b \<in> set (registered_touches (\<lambda>a. False) (up_calls (swap_prefetch_main h draws))). b)
    \<and> registered_touches (\<lambda>a. False) (up_calls (multi_commit_main h)) = [False, False]"
  by (simp add: poll_main_touches [OF assms] vma_merge_main_touches [OF assms] swap_prefetch_main_touches [OF assms]
      multi_commit_main_touches [OF assms])

definition demo_uffd_host :: uhost where
  "demo_uffd_host = \<lparr>uh_answer = \<lambda>cs. case last cs of Mmap a n pr f r \<Rightarrow> a | Syscall k as \<Rightarrow> 3 | _ \<Rightarrow> 0, uh_effect = \<lambda>cs b. b\<rparr>"

theorem touched_pages_are_registered_witness:
  "grants demo_uffd_host \<and> registered_touches (\<lambda>a. False) (up_calls (multi_commit_main demo_uffd_host)) = [False, False]"
proof -
  have g: "grants demo_uffd_host" by (simp add: grants_def demo_uffd_host_def)
  with touched_pages_are_registered [OF g] show ?thesis by simp
qed

end
