(* ===== verification/Spec2Isabelle.thy ===== *)
theory Spec2Isabelle
  imports Log2 C_Layout Client_Names Server_Isolation Early_Client Block_Prototype Rdma_Sum Ib_Device Method_Instrument Swap_Threads Flush_Threads
    Swap_Counters Control_Path Shared_Pages Remap Clocks Stress_Loops Page_Map User_Fault
begin

text \<open>
  A verification library for the Octopus remote-memory system: a client kernel module that turns
  block requests into one-sided RDMA operations on the memory of another machine, and the memory
  server that offers that memory in chunks of one gigabyte.

  \<^bold>\<open>The program.\<close> The client (\<^verbatim>\<open>src/IB-test-case/C-Based-Octopus-Platform/client\<close>) connects to
  the server, is told the size of its free memory, asks for 32 chunks and binds the addresses and keys it receives into a
  table (\<^verbatim>\<open>rdma_client.c\<close>). It then registers a block device (\<^verbatim>\<open>register_disk.c\<close>). A request of the block layer is
  translated to a chunk, an offset and a length, takes a command from the queue of its core, and
  is posted; the completion handler ends the request and returns the command. The server
  (\<^verbatim>\<open>src/IB-test-case/Kernel_Level_RDMA_connection/server\<close>) accepts connections, answers messages,
  and once per second compares the free memory of its machine with two thresholds, expanding or
  evicting chunks (\<^verbatim>\<open>rdma-common.c\<close>, \<^verbatim>\<open>infiniswap-daemon.c\<close>).

  \<^bold>\<open>The theories.\<close>
  \<^item> \<open>Prelude\<close>: faults as values, sequencing of operations that may fault, arrays, words, and the
    locales of machines with an invariant and of machines whose agents are isolated from each other.
  \<^item> \<open>Wire\<close>: the message structure and its codes on both sides, byte order (locale \<open>byte_order\<close>,
    interpreted for the 32-bit and the 64-bit conversions).
  \<^item> \<open>C_Layout\<close>: where C places the fields of a structure; the message as four programs declare it
    (the client, its first version, the memory server, the probe), and the layout experiments of \<^verbatim>\<open>src/c-test\<close>.
  \<^item> \<open>Log2\<close>: the two integer logarithms of \<^verbatim>\<open>src/c-test/bit_operations/log_function.c\<close>, one of
    which is the constant-folded logarithm behind the client's shift macros.
  \<^item> \<open>Client_Types\<close>: \<^verbatim>\<open>octopus_client.h\<close> as records and datatypes; the kernel is a parameter that
    answers calls, and every call is recorded in the state in order.
  \<^item> \<open>Client_Chunks\<close>, \<open>Client_Queue\<close> (locale \<open>slot_pool\<close>), \<open>Client_Rdma\<close>, \<open>Client_Disk\<close> (locale
    \<open>chunked_space\<close>), \<open>Client_Connection\<close> (interpretation of \<open>invariant_machine\<close>), \<open>Client_Names\<close>:
    the client, one function of the code per definition of the same name.
  \<^item> \<open>Memory_Server\<close>: the server's tables, connections, messages and handlers, with the invariant
    that every operation keeps; \<open>Server_Chunks\<close>: what these operations achieve, stated over the
    abstract view \<open>owner\<close> of who owns a chunk; \<open>Server_Evict\<close>: eviction, adaptation, the daemon,
    and the whole server as a machine (second interpretation of \<open>invariant_machine\<close>); \<open>Server_Isolation\<close>: what one
    client of the server can do to another (first interpretation of \<open>isolated_machine\<close>).
  \<^item> \<open>Early_Client\<close>: the first version of the client
    (\<^verbatim>\<open>src/IB-test-case/Kernel_Level_RDMA_connection/client\<close>), on the structures of the later one.
  \<^item> \<open>Block_Prototype\<close>: the block device of \<^verbatim>\<open>src/block_device/register_disk.c\<close>, which has no transport.
  \<^item> \<open>Rdma_Exchange\<close>: the two programs of \<^verbatim>\<open>src/IB-test-case/RDMA_read_write\<close>, which exchange the
    description of a buffer as text and write into it; printing and scanning of a field have the
    contract \<open>text_field\<close>, and the two programs are interpretations of the locale \<open>rdma_program\<close>.
  \<^item> \<open>Rdma_Sum\<close>: the client and the server of \<^verbatim>\<open>RDMA_post_send_recv_a_plus_b\<close>, and the client of
    \<^verbatim>\<open>RDMA_post_send_recv_connect_to_infiniswap_daemon\<close>, which waits for the memory server's first message;
    \<open>Ib_Device\<close>: the listing of a device (\<^verbatim>\<open>Check_IB_device\<close>).
  \<^item> \<open>Method_Instrument\<close>: the agents of the Java virtual machine (\<^verbatim>\<open>src/jvmti\<close>); the scan of a method descriptor,
    the instructions it inserts, and a small stack machine on which they are run.
  \<^item> \<open>Swap_Tests\<close>: the programs of \<^verbatim>\<open>src/block_device/swap\<close> and \<^verbatim>\<open>src/Kernel-dev/tlb\<close> that fill a mapped range and sum it;
    \<open>Swap_Threads\<close>: those with threads, a third interpretation of \<open>invariant_machine\<close>, whose events are turns of threads;
    \<open>Flush_Threads\<close>: the threads of \<^verbatim>\<open>src/Kernel-dev/syscall/cp_flush_and_send_flag.cpp\<close>, which flush their slices while the others run
    (second interpretation of \<open>isolated_machine\<close>).
  \<^item> \<open>Swap_Counters\<close>: the programs that reset, read and watch the swap counters, the scan in random order, huge pages;
    \<open>Control_Path\<close>: the programs that move a range to the memory servers and back with a system call;
    \<open>Shared_Pages\<close>: the readers of a buffer the kernel fills (\<^verbatim>\<open>src/Kernel-dev/user-kernel-shared-mem\<close>); \<open>Remap\<close>: \<^verbatim>\<open>mremap.c\<close>.
  \<^item> \<open>Clocks\<close>: the kernel modules that measure with the cycle counter and the monotonic clock (\<^verbatim>\<open>src/Kernel-dev\<close>);
    \<open>Stress_Loops\<close>: the loops over large arrays of \<^verbatim>\<open>swap_streaming.c\<close>, \<^verbatim>\<open>mem_usage.c\<close>, \<^verbatim>\<open>user_pagefault.c\<close> and \<^verbatim>\<open>offcoreTest_single_node.c\<close>.
  \<^item> \<open>Page_Map\<close>: the reader of the page map (\<^verbatim>\<open>src/block_device/swap_ratio\<close>).
  \<^item> \<open>User_Fault\<close>: the four programs of \<^verbatim>\<open>src/Kernel-dev/user_fault_handler\<close>, on the mapping functions of \<open>Swap_Tests\<close>.
  \<^item> This theory: each of the clients and the memory server together.

  \<^bold>\<open>What is shown.\<close> The client's table and queues are well-formed in every reachable state; a
  request reaches exactly the bytes of its sectors; commands are handed out once and returned; the
  handshake ends with the server's chunks in the table; resources are released once. On the server
  no chunk is ever owned twice, requests, stops, disconnects, evictions and expansions have exactly
  their intended effect on ownership, and the offer respects its bounds; whatever the server does for others, a client
  that does not act keeps its chunks, their addresses and their keys. All programs that exchange messages agree on every byte of them. For the test programs:
  what one side prints the other scans back, the write stays inside the registered memory, the library is used by its rules,
  and the sum comes back; the inserted code passes exactly the object parameters and leaves the stack as it was; every
  interleaving of the scanning threads gives the same sums, and the flushing threads do not disturb each other; what the control path
  has written it reads back; cycle counts are exact across a wrap-around; page faults are answered once and in order, and the ranges
  touched are registered; the entries of the page map are read back as written. Where the code does not
  do what it is meant to do, the behaviour is proved as it is: books that disagree with the tables, searches
  and waits that never end, accesses out of bounds, a freed record that is used, an address cut to half its width,
  counters that overflow, times without their seconds, a timer that outlives its module.

  \<^bold>\<open>Bounds.\<close> Loops over arrays are recursions over index lists. Waits consume the list of events
  that arrive and are \<open>Blocked\<close> when it is exhausted. The search for a selectable chunk has 32
  steps of fuel, one full turn of the table, and is proved to fail only when no turn would succeed. The loop that
  settles branch offsets is a partial function and is shown to return when the library ever reports no change. The loop of the monitor, which
  has no end, is run for any number of turns; loops with a signed counter end or overflow, so they need no fuel.

  \<^bold>\<open>Not modelled.\<close> The verbs library, the kernel and the C library are parameters with their
  results as functions of the call history; memory allocation in the server is assumed to succeed; the contents of
  remote memory, timing, and the interleaving of threads inside one handler are not represented.
  The class file library, the Java virtual machine and floating-point arithmetic are parameters too. Left out are the module skeletons that
  print a line (\<^verbatim>\<open>fs_get_dev\<close>, \<^verbatim>\<open>external_symbol_provider\<close>, \<^verbatim>\<open>infos\<close>), the remaining language experiments of \<^verbatim>\<open>src/c-test\<close>,
  several of which show undefined behaviour and so have nothing to state, code that no program calls (second copies of the mapping functions,
  thread functions that are not started, debug output), and the workloads in Java, Scala, Rust and assembly.
\<close>

section \<open>From the server's memory to the client's table\<close>

lemma filter_mem_sublist:
  assumes "sorted xs" and "distinct xs" and "sorted ps" and "distinct ps" and "set ps \<subseteq> set xs"
  shows "filter (\<lambda>i. i \<in> set ps) xs = ps"
  by (rule sorted_distinct_set_unique) (use assms in \<open>auto simp: sorted_wrt_filter\<close>)

lemma picked_sorted: "sorted (picked n (free_list s))"
  by (auto simp: picked_def free_list_def sorted_wrt_filter intro!: sorted_wrt_take simp del: upt_rec_numeral)

text \<open>
  What the client reads in the server's answer: the key and the address of every chunk handed
  out, in order, when no key is zero.
\<close>

lemma offered_by_server:
  assumes "\<forall>i < 32. msg_rkey m ! i = (if i \<in> set ps then htonl (key i) else 0)"
    and "\<forall>i \<in> set ps. msg_buf m ! i = htonll (ad i)" and "\<forall>i \<in> set ps. key i \<noteq> 0"
    and "sorted ps" and "distinct ps" and "\<forall>i \<in> set ps. i < 32"
  shows "offered m [0..<32] = map (\<lambda>i. (key i, ad i)) ps"
proof -
  have "filter (\<lambda>i. msg_rkey m ! i \<noteq> 0) [0..<32] = filter (\<lambda>i. i \<in> set ps) [0..<32]"
    using assms(1,3) by (intro filter_cong) (auto simp: ho32.enc_eq_zero_iff)
  also have "\<dots> = ps" by (rule filter_mem_sublist) (use assms in auto)
  finally show ?thesis
    using assms by (simp add: offered_def ho32.dec_enc ho64.dec_enc del: upt_rec_numeral)
qed

lemma free_size_spec:
  assumes works: "host_works H" and inv: "inv_server s" and c: "get_conn s k = Inr c" and up: "connected c \<noteq> 0"
  shows "\<exists>s' c'. send_free_mem_size H k s = Inr s' \<and> inv_server s' \<and> get_conn s' k = Inr c' \<and> connected c' = connected c \<and>
    conn_index c' = conn_index c \<and> s_calls s' = s_calls s @ [PostSend k (send_msg c')] \<and>
    msg_type (send_msg c') = server_message_type_code S_FREE_SIZE \<and>
    msg_size_gb (send_msg c') = size_gb (rdma_remote s) - mapped_size (rdma_remote s) \<and>
    rdma_remote s' = rdma_remote s \<and> conns_state s' = conns_state s"
proof -
  let ?g = "\<lambda>m. m\<lparr>msg_type := server_message_type_code S_FREE_SIZE, msg_size_gb := size_gb (rdma_remote s) - mapped_size (rdma_remote s)\<rparr>"
  let ?u = "upd_send_msg k ?g s" and ?c = "c\<lparr>send_msg := ?g (send_msg c)\<rparr>"
  have cu: "get_conn ?u k = Inr ?c" using c by (simp add: upd_send_msg_def get_conn_upd_conn)
  have res: "send_free_mem_size H k s = Inr (s_call (PostSend k (?g (send_msg c))) ?u)"
    using c cu up works by (simp add: send_free_mem_size_def send_message_def test_succeeds)
  have "inv_server (s_call (PostSend k (?g (send_msg c))) ?u)" by (rule inv_send_simple(1) [OF inv res])
  with res cu show ?thesis
    by (intro exI [of _ "s_call (PostSend k (?g (send_msg c))) ?u"] exI [of _ ?c]) (simp add: upd_send_msg_def)
qed

lemma free_list_at_most_32: "length (free_list s) \<le> 32"
  using distinct_card [OF distinct_free_list, of s] card_mono [of "{..<32 :: nat}" "set (free_list s)"] by (auto simp: set_free_list)

text \<open>
  The server's side of a connection: it reports its free size, and answers a request for \<open>n\<close>
  gigabytes with the first \<open>n\<close> of its free chunks.
\<close>

lemma server_offers_its_free_chunks:
  assumes works: "host_works H" and keys: "\<forall>cs a. h_rkey H cs a \<noteq> 0" and inv: "inv_server s"
    and c: "get_conn s k = Inr c" and up: "connected c \<noteq> 0"
    and slot: "0 \<le> conn_index c" "conn_index c < int (length (conns_state s))" and books: "books_ok (rdma_remote s)"
    and req: "msg_type m = message_type_code REQUEST_CHUNKS"
  shows "\<exists>s1 m1 s2 m2 cs. send_free_mem_size H k s = Inr s1 \<and> s_calls s1 = s_calls s @ [PostSend k m1] \<and>
    handle_cqe H k 0 (Some m) s1 = Inr s2 \<and> s_calls s2 = cs @ [PostSend k m2, PostRecv k] \<and>
    msg_type m1 = message_type_code FREE_SIZE \<and> unat (word_of_int (msg_size_gb m1) :: u32) = length (free_list s) \<and>
    msg_type m2 = message_type_code GOT_CHUNKS \<and>
    offered m2 [0..<32] =
      map (\<lambda>i. (snd (mr_list (rdma_remote s2) ! i), region_list (rdma_remote s) ! i)) (picked (msg_size_gb m) (free_list s)) \<and>
    (\<forall>i < 32. owner s2 i = (if i \<in> set (picked (msg_size_gb m) (free_list s)) then Some k else owner s1 i))"
proof -
  let ?r = "rdma_remote s" and ?p = "picked (msg_size_gb m) (free_list s)"
  obtain s1 and c1 :: connection where s1: "send_free_mem_size H k s = Inr s1" "inv_server s1" "get_conn s1 k = Inr c1"
      "connected c1 = connected c" "conn_index c1 = conn_index c" "s_calls s1 = s_calls s @ [PostSend k (send_msg c1)]"
      and m1: "msg_type (send_msg c1) = server_message_type_code S_FREE_SIZE"
        "msg_size_gb (send_msg c1) = size_gb ?r - mapped_size ?r"
      and r1: "rdma_remote s1 = ?r" "conns_state s1 = conns_state s"
    using free_size_spec [OF works inv c up] by blast
  have wf: "wf_remote ?r" using inv by (simp add: inv_server_def)
  have F: "size_gb ?r - mapped_size ?r = int (length (free_list s))" using free_list_length [OF wf] books by (auto simp: books_ok_def)
  have size: "unat (word_of_int (msg_size_gb (send_msg c1)) :: u32) = length (free_list s)"
    using free_list_at_most_32 [of s] by (simp add: m1(2) F unsigned_of_nat take_bit_nat_eq_self)
  have fl: "free_list s1 = free_list s" by (simp add: free_list_def chunk_free_def r1 del: upt_rec_numeral)
  have t: "msg_type m = server_message_type_code S_REQUEST_CHUNKS" using req by simp
  have pre: "connected c1 \<noteq> 0" "0 \<le> conn_index c1" "conn_index c1 < int (length (conns_state s1))"
    using up slot s1(4,5) r1(2) by simp_all
  obtain s2 cs and c2 :: connection where s2: "handle_cqe H k 0 (Some m) s1 = Inr s2" "s_calls s2 = cs @ [PostSend k (send_msg c2), PostRecv k]"
      and own: "\<forall>i < 32. owner s2 i = (if i \<in> set ?p then Some k else owner s1 i)"
      and m2: "msg_type (send_msg c2) = server_message_type_code SEND_CHUNKS"
      and rk: "\<forall>i < 32. msg_rkey (send_msg c2) ! i = (if i \<in> set ?p then htonl (snd (mr_list (rdma_remote s2) ! i)) else 0)"
      and bf: "\<forall>i \<in> set ?p. msg_buf (send_msg c2) ! i = htonll (region_list ?r ! i) \<and>
         (\<exists>cs. snd (mr_list (rdma_remote s2) ! i) = h_rkey H cs (region_list ?r ! i))"
    using handle_request_spec [OF works s1(2,3) pre t] unfolding fl r1(1) by blast
  have "distinct ?p" "set ?p \<subseteq> {..<32}"
    using distinct_free_list [of s] picked_subset [of "msg_size_gb m" "free_list s"] by (auto simp: picked_def set_free_list)
  then have off: "offered (send_msg c2) [0..<32] = map (\<lambda>i. (snd (mr_list (rdma_remote s2) ! i), region_list ?r ! i)) ?p"
    by (intro offered_by_server [OF rk]) (use bf keys picked_sorted in auto)
  show ?thesis
    by (intro exI [of _ s1] exI [of _ "send_msg c1"] exI [of _ s2] exI [of _ "send_msg c2"] exI [of _ cs] conjI)
      (use s1(1,6) s2 own m1 m2 size off in simp_all)
qed

text \<open>
  C1. The two programs together. A server whose books agree with its tables tells a connecting
  client its free size, and answers the request the client then posts, which is for 32
  gigabytes. The client's connection function returns zero, and its table holds exactly the
  server's free chunks, in order, each with the key of its registration and its address in the
  server; on the server those chunks, and no others, have become the client's.
\<close>

theorem client_maps_exactly_the_servers_free_chunks:
  assumes works: "host_works H" and keys: "\<forall>cs a. h_rkey H cs a \<noteq> 0" and inv: "inv_server s"
    and c: "get_conn s k = Inr c" and up: "connected c \<noteq> 0"
    and slot: "0 \<le> conn_index c" "conn_index c < int (length (conns_state s))" and books: "books_ok (rdma_remote s)"
    and ok: "adapter_ok K q" and bl: "block_layer_ok K" and nm: "length (dev_name (dev w)) = DEVICE_NAME_LEN"
    and cores: "0 \<le> online_cores w" "online_cores w < 2 ^ 32"
    and req: "msg_type m = message_type_code REQUEST_CHUNKS" "msg_size_gb m = 32"
  shows "\<exists>s1 m1 s2 m2 cs w' m'. send_free_mem_size H k s = Inr s1 \<and> s_calls s1 = s_calls s @ [PostSend k m1] \<and>
    handle_cqe H k 0 (Some m) s1 = Inr s2 \<and> s_calls s2 = cs @ [PostSend k m2, PostRecv k] \<and>
    octopus_RDMA_connect K (handshake_events q m1 m2 @ evs) w = Inr (0, evs, w') \<and>
    IbPostSend m' \<in> set (calls w') \<and> msg_type m' = msg_type m \<and> msg_size_gb m' = msg_size_gb m \<and>
    mapped_chunks (remote_chunk_list (session w')) =
      map (\<lambda>i. (snd (mr_list (rdma_remote s2) ! i), region_list (rdma_remote s) ! i)) (free_list s) \<and>
    (\<forall>i < 32. owner s2 i = (if i \<in> set (free_list s) then Some k else owner s1 i))"
proof -
  obtain s1 m1 s2 m2 cs where s: "send_free_mem_size H k s = Inr s1" "s_calls s1 = s_calls s @ [PostSend k m1]"
      "handle_cqe H k 0 (Some m) s1 = Inr s2" "s_calls s2 = cs @ [PostSend k m2, PostRecv k]"
    and m12: "msg_type m1 = message_type_code FREE_SIZE" "msg_type m2 = message_type_code GOT_CHUNKS"
    and size: "unat (word_of_int (msg_size_gb m1) :: u32) = length (free_list s)"
    and off: "offered m2 [0..<32] = map (\<lambda>i. (snd (mr_list (rdma_remote s2) ! i), region_list (rdma_remote s) ! i)) (free_list s)"
    and own: "\<forall>i < 32. owner s2 i = (if i \<in> set (free_list s) then Some k else owner s1 i)"
    using server_offers_its_free_chunks [OF works keys inv c up slot books req(1)] free_list_at_most_32 [of s]
    unfolding req(2) by (auto simp: picked_def)
  obtain w' m' where w': "octopus_RDMA_connect K (handshake_events q m1 m2 @ evs) w = Inr (0, evs, w')"
      "mapped_chunks (remote_chunk_list (session w')) =
         take (unat (word_of_int (msg_size_gb m1) :: u32)) (offered m2 [0..<MAX_CHUNKS])"
      "IbPostSend m' \<in> set (calls w')" "msg_type m' = message_type_code REQUEST_CHUNKS" "msg_size_gb m' = 32"
    using handshake_spec [OF ok bl nm cores m12, of evs] by blast
  have "mapped_chunks (remote_chunk_list (session w')) =
      map (\<lambda>i. (snd (mr_list (rdma_remote s2) ! i), region_list (rdma_remote s) ! i)) (free_list s)"
    using w'(2) off size by (simp add: MAX_CHUNKS_def del: upt_rec_numeral)
  then show ?thesis
    by (intro exI [of _ s1] exI [of _ m1] exI [of _ s2] exI [of _ m2] exI [of _ cs] exI [of _ w'] exI [of _ m'] conjI)
      (use s own w' req in simp_all)
qed

theorem client_maps_exactly_the_servers_free_chunks_witness:
  "\<exists>s1 m1 s2 m2 cs w'. send_free_mem_size demo_host 0 (demo_server 2 zero_message) = Inr s1 \<and> s_calls s1 = [PostSend 0 m1] \<and>
    handle_cqe demo_host 0 0 (Some (zero_message\<lparr>msg_type := 8, msg_size_gb := 32\<rparr>)) s1 = Inr s2 \<and>
    s_calls s2 = cs @ [PostSend 0 m2, PostRecv 0] \<and>
    octopus_RDMA_connect full_kernel (handshake_events 3 m1 m2) (unloaded\<lparr>online_cores := 2\<rparr>) = Inr (0, [], w') \<and>
    length (mapped_chunks (remote_chunk_list (session w'))) = 4"
proof -
  let ?s = "demo_server 2 zero_message" and ?w = "unloaded\<lparr>online_cores := 2\<rparr>"
  let ?m = "zero_message\<lparr>msg_type := 8, msg_size_gb := 32\<rparr>"
  have keys: "\<forall>cs a. h_rkey demo_host cs a \<noteq> 0" by (simp add: demo_host_def)
  have nm: "length (dev_name (dev ?w)) = DEVICE_NAME_LEN" by (simp add: unloaded_def rmem_dev_ctrl_global_def)
  have books: "books_ok (rdma_remote ?s)" by (simp add: books_ok_def demo_server_def CHUNK_MALLOCED_def CHUNK_EMPTY_def)
  have slot: "connected (demo_conn 2 zero_message) \<noteq> 0" "0 \<le> conn_index (demo_conn 2 zero_message)"
      "conn_index (demo_conn 2 zero_message) < int (length (conns_state ?s))" by (simp_all add: demo_server_def)
  have calls: "s_calls ?s = []" by (simp add: demo_server_def)
  have inv: "inv_server ?s" by (rule demo_server_inv) simp
  have rest: "0 \<le> online_cores ?w" "online_cores ?w < 2 ^ 32" "msg_type ?m = message_type_code REQUEST_CHUNKS" "msg_size_gb ?m = 32"
    by simp_all
  from client_maps_exactly_the_servers_free_chunks [OF demo_host_works keys inv demo_server_conn slot books full_kernel_ok nm rest, of "[]"]
  obtain s1 m1 s2 m2 cs w' where "send_free_mem_size demo_host 0 ?s = Inr s1" "s_calls s1 = s_calls ?s @ [PostSend 0 m1]"
      "handle_cqe demo_host 0 0 (Some ?m) s1 = Inr s2" "s_calls s2 = cs @ [PostSend 0 m2, PostRecv 0]"
      "octopus_RDMA_connect full_kernel (handshake_events 3 m1 m2 @ []) ?w = Inr (0, [], w')"
      "mapped_chunks (remote_chunk_list (session w')) =
         map (\<lambda>i. (snd (mr_list (rdma_remote s2) ! i), region_list (rdma_remote ?s) ! i)) (free_list ?s)"
    by blast
  then show ?thesis
    by (intro exI [of _ s1] exI [of _ m1] exI [of _ s2] exI [of _ m2] exI [of _ cs] exI [of _ w'])
      (simp add: calls demo_free_list del: upt_rec_numeral)
qed

text \<open>
  C17. The first version of the client with the memory server: told the free size, it asks for eight
  chunks, and its table holds exactly the first eight of the server's free chunks, or all of
  them when there are fewer; on the server those chunks, and no others, have become the client's.
\<close>

theorem early_client_maps_the_first_eight_free_chunks:
  assumes works: "host_works H" and keys: "\<forall>cs a. h_rkey H cs a \<noteq> 0" and inv: "inv_server s"
    and c: "get_conn s k = Inr c" and up: "connected c \<noteq> 0"
    and slot: "0 \<le> conn_index c" "conn_index c < int (length (conns_state s))" and books: "books_ok (rdma_remote s)"
    and free: "free_list s \<noteq> []" and ok: "adapter_ok K q"
    and req: "msg_type m = message_type_code REQUEST_CHUNKS" "msg_size_gb m = 8"
  shows "\<exists>s1 m1 s2 m2 cs w' m'. send_free_mem_size H k s = Inr s1 \<and> s_calls s1 = s_calls s @ [PostSend k m1] \<and>
    handle_cqe H k 0 (Some m) s1 = Inr s2 \<and> s_calls s2 = cs @ [PostSend k m2, PostRecv k] \<and>
    early_RDMA_connect K (early_handshake_events q m1 m2 @ evs) w
      = Inr (0, evs, w') \<and>
    IbPostSend m' \<in> set (calls w') \<and> msg_type m' = msg_type m \<and> msg_size_gb m' = msg_size_gb m \<and>
    mapped_chunks (remote_chunk_list (session w')) =
      map (\<lambda>i. (snd (mr_list (rdma_remote s2) ! i), region_list (rdma_remote s) ! i)) (take 8 (free_list s)) \<and>
    (\<forall>i < 32. owner s2 i = (if i \<in> set (take 8 (free_list s)) then Some k else owner s1 i))"
proof -
  obtain s1 m1 s2 m2 cs where s: "send_free_mem_size H k s = Inr s1" "s_calls s1 = s_calls s @ [PostSend k m1]"
      "handle_cqe H k 0 (Some m) s1 = Inr s2" "s_calls s2 = cs @ [PostSend k m2, PostRecv k]"
    and m12: "msg_type m1 = message_type_code FREE_SIZE" "msg_type m2 = message_type_code GOT_CHUNKS"
    and size: "unat (word_of_int (msg_size_gb m1) :: u32) = length (free_list s)"
    and off: "offered m2 [0..<32] = map (\<lambda>i. (snd (mr_list (rdma_remote s2) ! i), region_list (rdma_remote s) ! i)) (take 8 (free_list s))"
    and own: "\<forall>i < 32. owner s2 i = (if i \<in> set (take 8 (free_list s)) then Some k else owner s1 i)"
    using server_offers_its_free_chunks [OF works keys inv c up slot books req(1)] unfolding req(2) by (auto simp: picked_def)
  have "0 < unat (word_of_int (msg_size_gb m1) :: u32)" using size free by simp
  from early_handshake_spec [OF ok m12 this, of evs w] obtain w' m' where
    w': "early_RDMA_connect K (early_handshake_events q m1 m2 @ evs) w
      = Inr (0, evs, w')"
      "mapped_chunks (remote_chunk_list (session w')) =
         take (unat (word_of_int (msg_size_gb m1) :: u32)) (offered m2 [0..<MAX_CHUNKS])"
      "IbPostSend m' \<in> set (calls w')" "msg_type m' = message_type_code REQUEST_CHUNKS" "msg_size_gb m' = 8" by blast
  have "mapped_chunks (remote_chunk_list (session w')) =
      map (\<lambda>i. (snd (mr_list (rdma_remote s2) ! i), region_list (rdma_remote s) ! i)) (take 8 (free_list s))"
    using w'(2) off size by (simp add: MAX_CHUNKS_def take_map min_def del: upt_rec_numeral)
  then show ?thesis
    by (intro exI [of _ s1] exI [of _ m1] exI [of _ s2] exI [of _ m2] exI [of _ cs] exI [of _ w'] exI [of _ m'] conjI)
      (use s own w' req in simp_all)
qed

theorem early_client_maps_the_first_eight_free_chunks_witness:
  "\<exists>s1 m1 s2 m2 cs w'. send_free_mem_size demo_host 0 (demo_server 2 zero_message) = Inr s1 \<and> s_calls s1 = [PostSend 0 m1] \<and>
    handle_cqe demo_host 0 0 (Some (zero_message\<lparr>msg_type := 8, msg_size_gb := 8\<rparr>)) s1 = Inr s2 \<and>
    s_calls s2 = cs @ [PostSend 0 m2, PostRecv 0] \<and>
    early_RDMA_connect full_kernel (early_handshake_events 3 m1 m2)
      unloaded = Inr (0, [], w') \<and>
    length (mapped_chunks (remote_chunk_list (session w'))) = 4"
proof -
  let ?s = "demo_server 2 zero_message" and ?m = "zero_message\<lparr>msg_type := 8, msg_size_gb := 8\<rparr>"
  have keys: "\<forall>cs a. h_rkey demo_host cs a \<noteq> 0" by (simp add: demo_host_def)
  have books: "books_ok (rdma_remote ?s)" by (simp add: books_ok_def demo_server_def CHUNK_MALLOCED_def CHUNK_EMPTY_def)
  have slot: "connected (demo_conn 2 zero_message) \<noteq> 0" "0 \<le> conn_index (demo_conn 2 zero_message)"
      "conn_index (demo_conn 2 zero_message) < int (length (conns_state ?s))" by (simp_all add: demo_server_def)
  have calls: "s_calls ?s = []" by (simp add: demo_server_def)
  have inv: "inv_server ?s" by (rule demo_server_inv) simp
  have free: "free_list ?s \<noteq> []" by (simp add: demo_free_list)
  have req: "msg_type ?m = message_type_code REQUEST_CHUNKS" "msg_size_gb ?m = 8" by simp_all
  from early_client_maps_the_first_eight_free_chunks [OF demo_host_works keys inv demo_server_conn slot books free full_kernel_ok(1) req, of "[]" unloaded]
  obtain s1 m1 s2 m2 cs w' where "send_free_mem_size demo_host 0 ?s = Inr s1" "s_calls s1 = s_calls ?s @ [PostSend 0 m1]"
      "handle_cqe demo_host 0 0 (Some ?m) s1 = Inr s2" "s_calls s2 = cs @ [PostSend 0 m2, PostRecv 0]"
      "early_RDMA_connect full_kernel (early_handshake_events 3 m1 m2 @ [])
         unloaded = Inr (0, [], w')"
      "mapped_chunks (remote_chunk_list (session w')) =
         map (\<lambda>i. (snd (mr_list (rdma_remote s2) ! i), region_list (rdma_remote ?s) ! i)) (take 8 (free_list ?s))"
    by blast
  then show ?thesis
    by (intro exI [of _ s1] exI [of _ m1] exI [of _ s2] exI [of _ m2] exI [of _ cs] exI [of _ w'])
      (simp add: calls demo_free_list del: upt_rec_numeral)
qed

text \<open>
  The client's standing request for 32 gigabytes and the server's bookkeeping do not fit: when
  fewer than 32 chunks are free, the server counts 32 as mapped all the same, and the next free
  size it sends is negative. The client stores it in an unsigned field and allocates a table for
  almost \<open>2 ^ 32\<close> chunks.
\<close>

theorem negative_free_size_becomes_a_huge_table:
  assumes works: "host_works H" and inv: "inv_server s" and c: "get_conn s k = Inr c" and up: "connected c \<noteq> 0"
    and slot: "0 \<le> conn_index c" "conn_index c < int (length (conns_state s))" and books: "books_ok (rdma_remote s)"
    and few: "length (free_list s) < 32"
    and req: "msg_type m = message_type_code REQUEST_CHUNKS" "msg_size_gb m = 32"
    and client: "wc_byte_len wc = sizeof_message" "CONNECTED \<le> state (session w)"
    and alloc: "\<forall>h. k_ret K h (Kzalloc ChunkArray) \<noteq> 0"
  shows "\<exists>s2 s3 m3 cs w'. handle_cqe H k 0 (Some m) s = Inr s2 \<and> send_free_mem_size H k s2 = Inr s3 \<and>
    s_calls s3 = cs @ [PostSend k m3] \<and> msg_size_gb m3 = int (length (free_list s)) - 32 \<and> msg_size_gb m3 < 0 \<and>
    handle_recv_wr K wc (upd_session (\<lambda>x. x\<lparr>recv_buf := Some m3\<rparr>) w) = Inr (0, w') \<and>
    room (remote_chunk_list (session w')) = 2 ^ 32 - (32 - length (free_list s))"
proof -
  let ?r = "rdma_remote s" and ?F = "length (free_list s)"
  have wf: "wf_remote ?r" using inv by (simp add: inv_server_def)
  have F: "size_gb ?r - mapped_size ?r = int ?F" using free_list_length [OF wf] books by (auto simp: books_ok_def)
  have t: "msg_type m = server_message_type_code S_REQUEST_CHUNKS" using req(1) by simp
  obtain s2 and c2 :: connection where s2: "handle_cqe H k 0 (Some m) s = Inr s2" "inv_server s2" "get_conn s2 k = Inr c2"
      "connected c2 = connected c"
      and sz: "size_gb (rdma_remote s2) = size_gb ?r" "mapped_size (rdma_remote s2) = mapped_size ?r + msg_size_gb m"
    using handle_request_spec [OF works inv c up slot t] by blast
  have up2: "connected c2 \<noteq> 0" using s2(4) up by simp
  obtain s3 and c3 :: connection where s3: "send_free_mem_size H k s2 = Inr s3" "s_calls s3 = s_calls s2 @ [PostSend k (send_msg c3)]"
      and m3: "msg_type (send_msg c3) = server_message_type_code S_FREE_SIZE"
        "msg_size_gb (send_msg c3) = size_gb (rdma_remote s2) - mapped_size (rdma_remote s2)"
    using free_size_spec [OF works s2(2,3) up2] by blast
  have n: "msg_size_gb (send_msg c3) = int ?F - 32" using m3(2) sz F req(2) by simp
  let ?w = "upd_session (\<lambda>x. x\<lparr>recv_buf := Some (send_msg c3)\<rparr>) w"
  have pre: "CONNECTED \<le> state (session ?w)" "recv_buf (session ?w) = Some (send_msg c3)"
      "msg_type (send_msg c3) = message_type_code FREE_SIZE" using client(2) m3(1) by simp_all
  obtain w' l where w': "handle_recv_wr K wc ?w = Inr (0, w')" "session w' = (session ?w)\<lparr>remote_chunk_list := l, state := FREE_MEM_RECV\<rparr>"
      "room l = unat (word_of_int (msg_size_gb (send_msg c3)) :: u32)"
    using handle_free_size [OF client(1) pre] alloc by blast
  have "(int ?F - 32) mod 2 ^ 32 = (int ?F - 32 + 2 ^ 32) mod 2 ^ 32" by (rule mod_add_self2 [symmetric])
  also have "\<dots> = int ?F - 32 + 2 ^ 32" using few by (intro mod_pos_pos_trivial) simp_all
  finally have "(int ?F - 32) mod 2 ^ 32 = int ?F - 32 + 2 ^ 32" .
  moreover have "uint (word_of_int (int ?F - 32) :: u32) = (int ?F - 32) mod 2 ^ 32"
    unfolding unsigned_of_int take_bit_eq_mod by simp
  ultimately have "int (unat (word_of_int (int ?F - 32) :: u32)) = int ?F - 32 + 2 ^ 32" by simp
  also have "int ?F - 32 + 2 ^ 32 = int (2 ^ 32 - (32 - ?F))" using few by (simp add: of_nat_diff)
  finally have "unat (word_of_int (int ?F - 32) :: u32) = 2 ^ 32 - (32 - ?F)" unfolding of_nat_eq_iff .
  with s2(1) s3 n few w' show ?thesis
    by (intro exI [of _ s2] exI [of _ s3] exI [of _ "send_msg c3"] exI [of _ "s_calls s2"] exI [of _ w'] conjI) simp_all
qed

theorem negative_free_size_becomes_a_huge_table_witness:
  "\<exists>s2 s3 m3 cs w'. handle_cqe demo_host 0 0 (Some (zero_message\<lparr>msg_type := 8, msg_size_gb := 32\<rparr>)) (demo_server 0 zero_message) = Inr s2 \<and>
     send_free_mem_size demo_host 0 s2 = Inr s3 \<and> s_calls s3 = cs @ [PostSend 0 m3] \<and> msg_size_gb m3 = - 26 \<and>
     handle_recv_wr full_kernel \<lparr>wc_status = 0, wc_opcode = IB_WC_RECV, wc_wr_id = None, wc_byte_len = sizeof_message, wc_payload = zero_message\<rparr>
       (upd_session (\<lambda>x. x\<lparr>recv_buf := Some m3\<rparr>) (unloaded\<lparr>session := rdma_session_global\<lparr>state := CONNECTED\<rparr>\<rparr>)) = Inr (0, w') \<and>
     room (remote_chunk_list (session w')) = 4294967270"
proof -
  let ?s = "demo_server 0 zero_message" and ?m = "zero_message\<lparr>msg_type := 8, msg_size_gb := 32\<rparr>"
  let ?wc = "\<lparr>wc_status = 0, wc_opcode = IB_WC_RECV, wc_wr_id = None, wc_byte_len = sizeof_message, wc_payload = zero_message\<rparr>"
  let ?w = "unloaded\<lparr>session := rdma_session_global\<lparr>state := CONNECTED\<rparr>\<rparr>"
  have books: "books_ok (rdma_remote ?s)" by (simp add: books_ok_def demo_server_def CHUNK_MALLOCED_def CHUNK_EMPTY_def)
  have slot: "connected (demo_conn 0 zero_message) \<noteq> 0" "0 \<le> conn_index (demo_conn 0 zero_message)"
      "conn_index (demo_conn 0 zero_message) < int (length (conns_state ?s))" by (simp_all add: demo_server_def)
  have len: "length (free_list ?s) = 6" by (simp add: demo_free_list del: upt_rec_numeral)
  have inv: "inv_server ?s" by (rule demo_server_inv) simp
  have rest: "length (free_list ?s) < 32" "msg_type ?m = message_type_code REQUEST_CHUNKS" "msg_size_gb ?m = 32"
      "wc_byte_len ?wc = sizeof_message" "CONNECTED \<le> state (session ?w)" "\<forall>h. k_ret full_kernel h (Kzalloc ChunkArray) \<noteq> 0"
    by (simp_all add: len full_kernel_def)
  from negative_free_size_becomes_a_huge_table [OF demo_host_works inv demo_server_conn slot books rest]
  show ?thesis unfolding len by simp blast
qed

section \<open>The probe of the memory server\<close>

text \<open>
  The test client that connects to the memory server and waits for its first message prints the
  kind of that message, a free size, and the free size itself.
\<close>

theorem probe_prints_the_free_size:
  assumes server: "host_works H" "inv_server s" "get_conn s k = Inr c" "connected c \<noteq> 0"
    and probe: "cm_works h" "connects h d" "cm_turns h = good_turn 66 # ts"
  shows "\<exists>s' m p. send_free_mem_size H k s = Inr s' \<and> s_calls s' = s_calls s @ [PostSend k m] \<and>
    probe_client_main h m = Ret 0 p \<and>
    sp_out p = [66, message_type_code FREE_SIZE, size_gb (rdma_remote s) - mapped_size (rdma_remote s)]"
proof -
  obtain s' and c' :: connection where s': "send_free_mem_size H k s = Inr s'" "s_calls s' = s_calls s @ [PostSend k (send_msg c')]"
      "msg_type (send_msg c') = server_message_type_code S_FREE_SIZE"
      "msg_size_gb (send_msg c') = size_gb (rdma_remote s) - mapped_size (rdma_remote s)"
    using free_size_spec [OF server] by blast
  with probe_prints_the_message [OF probe, of "send_msg c'"] show ?thesis by auto
qed

end
